(* ===== verification/Prelude.thy ===== *)
theory Prelude
  imports Main "HOL-Library.Word" "HOL-Library.Multiset" "HOL-Library.List_Lexorder"
begin

text \<open>
  What every component of the model shares.

  \<^item> The Rust result of a computation (\<open>res\<close>): a value, an \<open>Err\<close>, or a panic
    (\<open>expect\<close>, \<open>unwrap\<close>, \<open>unreachable!\<close>, an index out of range).
  \<^item> Machine integers: \<open>u8\<close>, \<open>u64\<close>, \<open>u128\<close> are words of that width, so \<open>+\<close>, \<open>-\<close> and \<open>*\<close> wrap
    as they do in the release profile of the workspace, which does not enable overflow checks;
    \<open>checked_*\<close> and \<open>saturating_*\<close> are the std operations.  \<open>usize\<close> is a natural number whose
    additions are written out modulo \<open>2 ^ 64\<close> where they can wrap.
  \<^item> The std collections: a \<open>BTreeMap\<close> is the list of its entries in key order, a \<open>HashMap\<close> is an
    association list with distinct keys (its iteration order is the order of the list, about
    which nothing is assumed).  Both implement the contract \<open>std_map\<close>.
\<close>

section \<open>Machine types\<close>

type_synonym byte = "8 word"
type_synonym u8 = "8 word"
type_synonym u64 = "64 word"
type_synonym u128 = "128 word"
type_synonym usize = nat
type_synonym bytes = "byte list"

named_theorems res_simps \<open>unfolding of the result combinators\<close>
named_theorems word_nat \<open>reading checked word operations as natural numbers\<close>
named_theorems std_defs \<open>definitions of std operations\<close>


section \<open>Results, errors and panics\<close>

datatype ('e, 'a) res = Ok 'a | Err 'e | Panic

fun and_then :: "('e, 'a) res \<Rightarrow> ('a \<Rightarrow> ('e, 'b) res) \<Rightarrow> ('e, 'b) res" where
  "and_then (Ok a) f = f a"
| "and_then (Err e) f = Err e"
| "and_then Panic f = Panic"

lemma and_then_cong [fundef_cong]:
  "m = m' \<Longrightarrow> (\<And>a. m' = Ok a \<Longrightarrow> f a = g a) \<Longrightarrow> and_then m f = and_then m' g"
  by (cases m') auto

lemma and_then_eq_Ok [res_simps]:
  "and_then m f = Ok b \<longleftrightarrow> (\<exists>a. m = Ok a \<and> f a = Ok b)"
  by (cases m) auto

lemma and_then_Ok_id [simp]: "and_then m Ok = m"
  by (cases m) auto

lemma and_then_assoc: "and_then (and_then m f) g = and_then m (\<lambda>a. and_then (f a) g)"
  by (cases m) auto

text \<open>\<open>Result::expect\<close>, \<open>Option::expect\<close>, \<open>Option::ok_or\<close> and \<open>Result::map_err\<close>.\<close>

fun expect :: "('e, 'a) res \<Rightarrow> ('f, 'a) res" where
  "expect (Ok a) = Ok a"
| "expect (Err _) = Panic"
| "expect Panic = Panic"

fun unwrap :: "'a option \<Rightarrow> ('f, 'a) res" where
  "unwrap (Some a) = Ok a"
| "unwrap None = Panic"

fun ok_or :: "'a option \<Rightarrow> 'e \<Rightarrow> ('e, 'a) res" where
  "ok_or (Some a) e = Ok a"
| "ok_or None e = Err e"

fun map_err :: "('e \<Rightarrow> 'f) \<Rightarrow> ('e, 'a) res \<Rightarrow> ('f, 'a) res" where
  "map_err f (Ok a) = Ok a"
| "map_err f (Err e) = Err (f e)"
| "map_err f Panic = Panic"

lemma map_err_eq_Ok [res_simps]: "map_err f m = Ok a \<longleftrightarrow> m = Ok a"
  by (cases m) auto

lemma expect_eq_Ok [res_simps]: "expect m = Ok a \<longleftrightarrow> m = Ok a"
  by (cases m) auto

lemma unwrap_eq_Ok [res_simps]: "unwrap x = Ok a \<longleftrightarrow> x = Some a"
  by (cases x) auto

lemma ok_or_eq_Ok [res_simps]: "ok_or x e = Ok a \<longleftrightarrow> x = Some a"
  by (cases x) auto

lemma ok_or_eq_Err [res_simps]: "ok_or x e = Err e' \<longleftrightarrow> x = None \<and> e' = e"
  by (cases x) auto

text \<open>\<open>iter().map(f).collect::<Result<Vec<_>, _>>()\<close>: the first failure ends the iteration.\<close>

fun traverse :: "('a \<Rightarrow> ('e, 'b) res) \<Rightarrow> 'a list \<Rightarrow> ('e, 'b list) res" where
  "traverse f [] = Ok []"
| "traverse f (x # xs) = and_then (f x) (\<lambda>y. and_then (traverse f xs) (\<lambda>ys. Ok (y # ys)))"

lemma traverse_cong [fundef_cong]:
  "xs = ys \<Longrightarrow> (\<And>x. x \<in> set ys \<Longrightarrow> f x = g x) \<Longrightarrow> traverse f xs = traverse g ys"
  by (induction ys arbitrary: xs) (auto intro!: and_then_cong)

lemma traverse_Ok: "(\<And>x. x \<in> set xs \<Longrightarrow> f x = Ok (g x)) \<Longrightarrow> traverse f xs = Ok (map g xs)"
  by (induction xs) auto

lemma traverse_eq_Ok:
  "traverse f xs = Ok ys \<longleftrightarrow> list_all2 (\<lambda>x y. f x = Ok y) xs ys"
  by (induction xs arbitrary: ys) (auto simp: res_simps list_all2_Cons1)


section \<open>Slices\<close>

text \<open>\<open>&xs[a..b]\<close>, used with bounds inside the slice.\<close>

definition slice :: "nat \<Rightarrow> nat \<Rightarrow> 'a list \<Rightarrow> 'a list" where
  "slice a b xs = take (b - a) (drop a xs)"

lemma length_slice [simp]: "b \<le> length xs \<Longrightarrow> length (slice a b xs) = b - a"
  by (simp add: slice_def)

lemma nth_slice: "a + i < b \<Longrightarrow> b \<le> length xs \<Longrightarrow> slice a b xs ! i = xs ! (a + i)"
  by (simp add: slice_def)


section \<open>Checked and saturating arithmetic\<close>

definition checked_add :: "'a::len word \<Rightarrow> 'a word \<Rightarrow> 'a word option" where
  "checked_add a b = (if unat a + unat b < 2 ^ LENGTH('a) then Some (a + b) else None)"

definition checked_sub :: "'a::len word \<Rightarrow> 'a word \<Rightarrow> 'a word option" where
  "checked_sub a b = (if b \<le> a then Some (a - b) else None)"

definition checked_mul :: "'a::len word \<Rightarrow> 'a word \<Rightarrow> 'a word option" where
  "checked_mul a b = (if unat a * unat b < 2 ^ LENGTH('a) then Some (a * b) else None)"

definition saturating_sub :: "'a::len word \<Rightarrow> 'a word \<Rightarrow> 'a word" where
  "saturating_sub a b = (if b \<le> a then a - b else 0)"

definition saturating_add :: "'a::len word \<Rightarrow> 'a word \<Rightarrow> 'a word" where
  "saturating_add a b = (if unat a + unat b < 2 ^ LENGTH('a) then a + b else - 1)"

definition checked_add_usize :: "usize \<Rightarrow> usize \<Rightarrow> usize option" where
  "checked_add_usize a b = (if a + b < 2 ^ 64 then Some (a + b) else None)"

definition wrapping_add_usize :: "usize \<Rightarrow> usize \<Rightarrow> usize" where
  "wrapping_add_usize a b = (a + b) mod 2 ^ 64"

lemma checked_add_usize_code [code]:
  "checked_add_usize a b = (if int a + int b < 18446744073709551616 then Some (a + b) else None)"
  by (simp add: checked_add_usize_def flip: of_nat_add)

lemma wrapping_add_usize_code [code]:
  "wrapping_add_usize a b = nat ((int a + int b) mod 18446744073709551616)"
  by (simp add: wrapping_add_usize_def nat_mod_as_int)

lemma unat_sub_le [word_nat]: "b \<le> a \<Longrightarrow> unat (a - b) = unat a - unat b"
  for a b :: "'a::len word"
  by (simp add: unat_sub)

lemma unat_add_small [word_nat]:
  "unat a + unat b < 2 ^ LENGTH('a) \<Longrightarrow> unat (a + b) = unat a + unat b"
  for a b :: "'a::len word"
  by (simp add: unat_word_ariths)

lemma unat_mul_small [word_nat]:
  "unat a * unat b < 2 ^ LENGTH('a) \<Longrightarrow> unat (a * b) = unat a * unat b"
  for a b :: "'a::len word"
  by (simp add: unat_word_ariths)

lemma checked_add_eq_Some:
  "checked_add a b = Some c \<longleftrightarrow> unat c = unat a + unat b"
proof
  assume "unat c = unat a + unat b"
  moreover have "unat c < 2 ^ LENGTH('a)" by (rule unsigned_less)
  ultimately show "checked_add a b = Some c"
    by (simp add: checked_add_def unat_add_small word_unat_eq_iff)
qed (auto simp: checked_add_def unat_add_small split: if_splits)

lemma checked_sub_eq_Some:
  "checked_sub a b = Some c \<longleftrightarrow> unat a = unat b + unat c"
  by (auto simp: checked_sub_def word_le_nat_alt unat_sub word_unat_eq_iff split: if_splits)

lemma checked_sub_eq_None: "checked_sub a b = None \<longleftrightarrow> a < b"
  by (auto simp: checked_sub_def)

lemma saturating_sub_unat: "unat (saturating_sub a b) = unat a - unat b"
  by (auto simp: saturating_sub_def word_le_nat_alt unat_sub)

lemma saturating_sub_le: "saturating_sub a b \<le> a"
  by (simp add: word_le_nat_alt saturating_sub_unat)


lemma u64_lt: "unat (w :: u64) < 18446744073709551616"
  using unsigned_less [of w] by simp


section \<open>The std map contract\<close>

text \<open>
  What the components rely on of \<open>BTreeMap\<close> and \<open>HashMap\<close>: \<open>get\<close> after \<open>insert\<close> and \<open>remove\<close>, and
  that both keep the representation well formed.
\<close>

locale std_map =
  fixes get :: "'m \<Rightarrow> 'k \<Rightarrow> 'v option"
    and ins :: "'k \<Rightarrow> 'v \<Rightarrow> 'm \<Rightarrow> 'm"
    and rem :: "'k \<Rightarrow> 'm \<Rightarrow> 'm"
    and ok :: "'m \<Rightarrow> bool"
  assumes get_ins: "ok m \<Longrightarrow> get (ins k v m) k' = (if k' = k then Some v else get m k')"
    and get_rem: "ok m \<Longrightarrow> get (rem k m) k' = (if k' = k then None else get m k')"
    and ok_ins: "ok m \<Longrightarrow> ok (ins k v m)"
    and ok_rem: "ok m \<Longrightarrow> ok (rem k m)"
begin

lemma get_ins_fun: "ok m \<Longrightarrow> get (ins k v m) = (get m)(k \<mapsto> v)"
  by (auto simp: get_ins)

lemma get_rem_fun: "ok m \<Longrightarrow> get (rem k m) = (get m)(k := None)"
  by (auto simp: get_rem)

lemma dom_ins: "ok m \<Longrightarrow> dom (get (ins k v m)) = insert k (dom (get m))"
  by (simp add: get_ins_fun)

lemma dom_rem: "ok m \<Longrightarrow> dom (get (rem k m)) = dom (get m) - {k}"
  by (simp add: get_rem_fun)

text \<open>Replacing an entry by another key: \<open>remove\<close> the old key, then \<open>insert\<close> the new one.\<close>

lemma get_move: "ok m \<Longrightarrow> get (ins k v (rem k0 m)) k' =
    (if k' = k then Some v else if k' = k0 then None else get m k')"
  by (simp add: get_ins get_rem ok_rem)

end


subsection \<open>\<open>BTreeMap\<close>: entries in key order\<close>

type_synonym ('k, 'v) btree_map = "('k \<times> 'v) list"

definition bt_ok :: "('k::linorder, 'v) btree_map \<Rightarrow> bool" where
  "bt_ok m = sorted_wrt (<) (map fst m)"

fun bt_insert :: "'k::linorder \<Rightarrow> 'v \<Rightarrow> ('k, 'v) btree_map \<Rightarrow> ('k, 'v) btree_map" where
  "bt_insert k v [] = [(k, v)]"
| "bt_insert k v ((k', v') # m) =
     (if k < k' then (k, v) # (k', v') # m
      else if k = k' then (k, v) # m
      else (k', v') # bt_insert k v m)"

definition bt_remove :: "'k::linorder \<Rightarrow> ('k, 'v) btree_map \<Rightarrow> ('k, 'v) btree_map" where
  "bt_remove k m = filter (\<lambda>e. fst e \<noteq> k) m"

lemma bt_ok_Nil [simp]: "bt_ok []"
  by (simp add: bt_ok_def)

lemma bt_ok_Cons: "bt_ok (e # m) \<longleftrightarrow> (\<forall>k \<in> fst ` set m. fst e < k) \<and> bt_ok m"
  by (auto simp: bt_ok_def)

lemma bt_insert_keys: "fst ` set (bt_insert k v m) = insert k (fst ` set m)"
  by (induction k v m rule: bt_insert.induct) auto

lemma bt_ok_insert: "bt_ok m \<Longrightarrow> bt_ok (bt_insert k v m)"
  by (induction k v m rule: bt_insert.induct) (force simp: bt_ok_Cons bt_insert_keys)+

lemma bt_ok_remove: "bt_ok m \<Longrightarrow> bt_ok (bt_remove k m)"
  by (induction m) (auto simp: bt_remove_def bt_ok_Cons)

lemma map_of_bt_insert: "map_of (bt_insert k v m) = (map_of m)(k \<mapsto> v)"
  by (induction k v m rule: bt_insert.induct) (auto simp: fun_eq_iff)

lemma map_of_bt_remove: "map_of (bt_remove k m) = (map_of m)(k := None)"
  by (induction m) (auto simp: bt_remove_def fun_eq_iff)

lemma bt_ok_distinct: "bt_ok m \<Longrightarrow> distinct (map fst m)"
  by (induction m) (auto simp: bt_ok_Cons)

lemma mset_bt_insert: "bt_ok m \<Longrightarrow> mset (bt_insert k v m) = add_mset (k, v) (mset (bt_remove k m))"
proof (induction k v m rule: bt_insert.induct)
  case (2 k v k' v' m)
  have "filter (\<lambda>e. fst e \<noteq> k) m = m" if "k \<le> k'"
    using 2 that by (intro filter_True) (auto simp: bt_ok_Cons)
  then show ?case using 2 by (auto simp: bt_remove_def bt_ok_Cons simp del: mset_filter)
qed (simp add: bt_remove_def)

lemma bt_remove_keys: "fst ` set (bt_remove k m) = fst ` set m - {k}"
  by (auto simp: bt_remove_def)

lemma bt_insert_same: "bt_ok m \<Longrightarrow> map_of m k = Some v \<Longrightarrow> bt_insert k v m = m"
proof (induction k v m rule: bt_insert.induct)
  case (2 k v k' v' m)
  have "k' < k" if "map_of m k = Some v"
    using 2(2) that by (force simp: bt_ok_Cons dest: map_of_SomeD)
  then show ?case using 2 by (auto simp: bt_ok_Cons split: if_splits)
qed simp

lemma bt_keys_values: "bt_ok m \<Longrightarrow> map (\<lambda>k. (k, the (map_of m k))) (map fst m) = m"
  unfolding map_map by (rule map_idI) (auto simp: bt_ok_distinct dest: map_of_is_SomeI [OF bt_ok_distinct])

lemma bt_unique:
  assumes "bt_ok m" "bt_ok m'" "map_of m = map_of m'"
  shows "m = m'"
proof -
  have "set (map fst m) = set (map fst m')" using assms(3) dom_map_of_conv_image_fst [of m] dom_map_of_conv_image_fst [of m'] by simp
  then have "map fst m = map fst m'"
    using assms(1,2) by (intro strict_sorted_equal) (simp_all add: bt_ok_def)
  then show ?thesis using bt_keys_values [OF assms(1)] bt_keys_values [OF assms(2)] assms(3) by metis
qed

lemma bt_remove_absent: "map_of m k = None \<Longrightarrow> bt_remove k m = m"
  by (auto simp: bt_remove_def map_of_eq_None_iff filter_id_conv)

lemma present_keys: "map_of m k = Some v \<Longrightarrow> insert k (fst ` set m) = fst ` set m"
  by (auto simp: insert_absorb dest: map_of_SomeD intro: rev_image_eqI)

interpretation btree: std_map map_of bt_insert bt_remove bt_ok
  by unfold_locales (auto simp: map_of_bt_insert map_of_bt_remove bt_ok_insert bt_ok_remove)


subsection \<open>\<open>HashMap\<close>: an association list with distinct keys\<close>

type_synonym ('k, 'v) hash_map = "('k \<times> 'v) list"

definition hm_ok :: "('k, 'v) hash_map \<Rightarrow> bool" where
  "hm_ok m = distinct (map fst m)"

fun hm_insert :: "'k \<Rightarrow> 'v \<Rightarrow> ('k, 'v) hash_map \<Rightarrow> ('k, 'v) hash_map" where
  "hm_insert k v [] = [(k, v)]"
| "hm_insert k v ((k', v') # m) =
     (if k = k' then (k, v) # m else (k', v') # hm_insert k v m)"

definition hm_remove :: "'k \<Rightarrow> ('k, 'v) hash_map \<Rightarrow> ('k, 'v) hash_map" where
  "hm_remove k m = filter (\<lambda>e. fst e \<noteq> k) m"

lemma hm_insert_keys: "fst ` set (hm_insert k v m) = insert k (fst ` set m)"
  by (induction k v m rule: hm_insert.induct) auto

lemma map_of_hm_insert: "map_of (hm_insert k v m) = (map_of m)(k \<mapsto> v)"
  by (induction k v m rule: hm_insert.induct) (auto simp: fun_eq_iff)

lemma map_of_hm_remove: "map_of (hm_remove k m) = (map_of m)(k := None)"
  by (induction m) (auto simp: hm_remove_def fun_eq_iff)

lemma hm_ok_insert: "hm_ok m \<Longrightarrow> hm_ok (hm_insert k v m)"
  by (induction k v m rule: hm_insert.induct) (auto simp: hm_ok_def hm_insert_keys)

lemma hm_ok_remove: "hm_ok m \<Longrightarrow> hm_ok (hm_remove k m)"
  by (simp add: hm_ok_def hm_remove_def distinct_map_filter)

lemma hm_ok_Nil [simp]: "hm_ok []"
  by (simp add: hm_ok_def)

interpretation hash_map: std_map map_of hm_insert hm_remove hm_ok
  by unfold_locales (auto simp: map_of_hm_insert map_of_hm_remove hm_ok_insert hm_ok_remove)

end
