(* ===== verification/Mpf.thy ===== *)
theory Mpf
  imports Prelude
begin

text \<open>
  The Merkle Patricia Forestry of \<open>green-order-cardano-agent/src/mpf.rs\<close>: the sparse hexadecimal
  trie that the account store keeps per chain state, its root, the proofs it generates and the
  verifier's \<open>including_root\<close> / \<open>excluding_root\<close> folds.

  The hash (\<open>cml_crypto::blake2b256\<close>, outside the repository) is the parameter \<open>H\<close> of every
  definition; what is used of it is that its output has 32 bytes, and for a trie that the hashes
  of its keys are distinct.  \<open>[u8; 32]\<close> is a byte list of length 32 and \<open>[[u8; 32]; 16]\<close> a list of
  length 16.  A cursor is a nibble index below \<open>65\<close>, so the only \<open>usize\<close> addition that can
  overflow is \<open>cursor + skip\<close>, with \<open>skip\<close> read from a proof.
\<close>

unbundle bit_operations_syntax

section \<open>Data\<close>

definition EMPTY_ROOT :: bytes where
  "EMPTY_ROOT = replicate 32 0"

record neighbor =
  nb_nibble :: u8
  nb_prefix :: bytes
  nb_root :: bytes

datatype proof_step =
    Branch usize bytes
  | Fork usize neighbor
  | Leaf usize bytes bytes

datatype mpf_error =
    InvalidBranchNeighbors usize
  | InvalidProof
  | ExistingKey
  | MissingKey
  | PathExhausted

record trie =
  leaves :: "(bytes, bytes) btree_map"

record leaf =
  lf_key :: bytes
  lf_path :: bytes
  lf_value :: bytes
  lf_value_hash :: bytes


section \<open>Nibbles, prefixes and hashing of nodes\<close>

definition combine :: "(bytes \<Rightarrow> bytes) \<Rightarrow> bytes \<Rightarrow> bytes \<Rightarrow> bytes" where
  "combine H left right = H (left @ right)"

definition ensure_cursor :: "usize \<Rightarrow> (mpf_error, unit) res" where
  "ensure_cursor cursor = (if cursor > 64 then Err PathExhausted else Ok ())"

definition nibble :: "bytes \<Rightarrow> usize \<Rightarrow> (mpf_error, usize) res" where
  "nibble path index =
    (if index \<ge> 64 then Err PathExhausted
     else let byte = path ! (index div 2) in
       if index mod 2 = 0 then Ok (unat (byte div 16)) else Ok (unat (byte mod 16)))"

definition nibbles :: "bytes \<Rightarrow> usize \<Rightarrow> usize \<Rightarrow> (mpf_error, bytes) res" where
  "nibbles path start stop =
    (if start > stop \<or> stop > 64 then Err PathExhausted
     else traverse (\<lambda>ix. and_then (nibble path ix) (\<lambda>n. Ok (of_nat n))) [start..<stop])"

definition suffix :: "bytes \<Rightarrow> usize \<Rightarrow> (mpf_error, bytes) res" where
  "suffix path cursor =
    and_then (ensure_cursor cursor) (\<lambda>_.
      if cursor mod 2 = 0 then Ok (0xff # drop (cursor div 2) path)
      else and_then (nibble path cursor) (\<lambda>n.
        Ok (0 # of_nat n # drop ((cursor + 1) div 2) path)))"

definition merkle_2_roots :: "(bytes \<Rightarrow> bytes) \<Rightarrow> bytes list \<Rightarrow> bytes" where
  "merkle_2_roots H roots = combine H (roots ! 0) (roots ! 1)"

definition merkle_4_roots :: "(bytes \<Rightarrow> bytes) \<Rightarrow> bytes list \<Rightarrow> bytes" where
  "merkle_4_roots H roots =
    combine H (merkle_2_roots H (slice 0 2 roots)) (merkle_2_roots H (slice 2 4 roots))"

definition merkle_8_roots :: "(bytes \<Rightarrow> bytes) \<Rightarrow> bytes list \<Rightarrow> bytes" where
  "merkle_8_roots H roots =
    combine H (merkle_4_roots H (slice 0 4 roots)) (merkle_4_roots H (slice 4 8 roots))"

definition merkle_16_roots :: "(bytes \<Rightarrow> bytes) \<Rightarrow> bytes list \<Rightarrow> bytes" where
  "merkle_16_roots H roots =
    combine H (merkle_8_roots H (slice 0 8 roots)) (merkle_8_roots H (slice 8 16 roots))"

definition branch_neighbors :: "(bytes \<Rightarrow> bytes) \<Rightarrow> usize \<Rightarrow> bytes list \<Rightarrow> bytes" where
  "branch_neighbors H branch roots =
    (let neighbor_8 = (if branch < 8 then merkle_8_roots H (slice 8 16 roots)
                       else merkle_8_roots H (slice 0 8 roots));
         group_8_base = branch div 8 * 8;
         neighbor_4_base = group_8_base + (if branch mod 8 < 4 then 4 else 0);
         neighbor_4 = merkle_4_roots H (slice neighbor_4_base (neighbor_4_base + 4) roots);
         group_4_base = branch div 4 * 4;
         neighbor_2_base = group_4_base + (if branch mod 4 < 2 then 2 else 0);
         neighbor_2 = merkle_2_roots H (slice neighbor_2_base (neighbor_2_base + 2) roots);
         neighbor_1 = roots ! (branch XOR 1)
     in concat [neighbor_8, neighbor_4, neighbor_2, neighbor_1])"

definition sparse_merkle_16 :: "(bytes \<Rightarrow> bytes) \<Rightarrow> usize \<Rightarrow> bytes \<Rightarrow> usize \<Rightarrow> bytes \<Rightarrow> bytes" where
  "sparse_merkle_16 H me me_hash neighbor neighbor_hash =
    merkle_16_roots H ((replicate 16 EMPTY_ROOT)[me := me_hash, neighbor := neighbor_hash])"

definition validate_neighbors :: "bytes \<Rightarrow> (mpf_error, unit) res" where
  "validate_neighbors neighbors =
    (if length neighbors \<noteq> 128 then Err (InvalidBranchNeighbors (length neighbors)) else Ok ())"

definition merkle_16 :: "(bytes \<Rightarrow> bytes) \<Rightarrow> usize \<Rightarrow> bytes \<Rightarrow> bytes \<Rightarrow> (mpf_error, bytes) res" where
  "merkle_16 H branch root neighbors =
    and_then (validate_neighbors neighbors) (\<lambda>_.
      let neighbor_8 = slice 0 32 neighbors;
          neighbor_4 = slice 32 64 neighbors;
          neighbor_2 = slice 64 96 neighbors;
          neighbor_1 = slice 96 128 neighbors;
          pair = (if branch mod 2 = 0 then combine H root neighbor_1
                  else combine H neighbor_1 root);
          group_4 = (if branch mod 4 < 2 then combine H pair neighbor_2
                     else combine H neighbor_2 pair);
          group_8 = (if branch mod 8 < 4 then combine H group_4 neighbor_4
                     else combine H neighbor_4 group_4)
      in if branch < 8 then Ok (combine H group_8 neighbor_8)
         else Ok (combine H neighbor_8 group_8))"

definition branch_root ::
  "(bytes \<Rightarrow> bytes) \<Rightarrow> bytes \<Rightarrow> usize \<Rightarrow> usize \<Rightarrow> bytes \<Rightarrow> bytes \<Rightarrow> (mpf_error, bytes) res" where
  "branch_root H path cursor next_cursor root neighbors =
    and_then (validate_neighbors neighbors) (\<lambda>_.
    and_then (nibble path next_cursor) (\<lambda>branch.
    and_then (nibbles path cursor next_cursor) (\<lambda>prefix.
    and_then (merkle_16 H branch root neighbors) (\<lambda>m.
      Ok (combine H prefix m)))))"

definition fork_root ::
  "(bytes \<Rightarrow> bytes) \<Rightarrow> bytes \<Rightarrow> usize \<Rightarrow> usize \<Rightarrow> bytes \<Rightarrow> neighbor \<Rightarrow> (mpf_error, bytes) res" where
  "fork_root H path cursor next_cursor root nb =
    and_then (nibble path next_cursor) (\<lambda>branch.
      if branch = unat (nb_nibble nb) \<or> nb_nibble nb > 15 then Err InvalidProof
      else and_then (nibbles path cursor next_cursor) (\<lambda>prefix.
        let neighbor_root = combine H (nb_prefix nb) (nb_root nb) in
        Ok (combine H prefix (sparse_merkle_16 H branch root (unat (nb_nibble nb)) neighbor_root))))"


section \<open>The verifier\<close>

definition next_cursor_of :: "usize \<Rightarrow> usize \<Rightarrow> (mpf_error, usize) res" where
  "next_cursor_of cursor skip =
    and_then (ok_or (checked_add_usize cursor skip) PathExhausted) (\<lambda>next_cursor.
    and_then (ensure_cursor next_cursor) (\<lambda>_. Ok next_cursor))"

definition leaf_neighbor :: "bytes \<Rightarrow> bytes \<Rightarrow> usize \<Rightarrow> (mpf_error, neighbor) res" where
  "leaf_neighbor key val next_cursor =
    and_then (suffix key (next_cursor + 1)) (\<lambda>prefix.
    and_then (nibble key next_cursor) (\<lambda>n.
      Ok \<lparr> nb_nibble = of_nat n, nb_prefix = prefix, nb_root = val \<rparr>))"

fun including_root ::
  "(bytes \<Rightarrow> bytes) \<Rightarrow> bytes \<Rightarrow> bytes \<Rightarrow> usize \<Rightarrow> proof_step list \<Rightarrow> (mpf_error, bytes) res" where
  "including_root H path value_hash cursor [] =
    and_then (ensure_cursor cursor) (\<lambda>_.
    and_then (suffix path cursor) (\<lambda>s. Ok (combine H s value_hash)))"
| "including_root H path value_hash cursor (Branch skip neighbors # steps) =
    and_then (ensure_cursor cursor) (\<lambda>_.
    and_then (validate_neighbors neighbors) (\<lambda>_.
    and_then (next_cursor_of cursor skip) (\<lambda>next_cursor.
    and_then (including_root H path value_hash (next_cursor + 1) steps) (\<lambda>root.
      branch_root H path cursor next_cursor root neighbors))))"
| "including_root H path value_hash cursor (Fork skip nb # steps) =
    and_then (ensure_cursor cursor) (\<lambda>_.
    and_then (next_cursor_of cursor skip) (\<lambda>next_cursor.
    and_then (including_root H path value_hash (next_cursor + 1) steps) (\<lambda>root.
      fork_root H path cursor next_cursor root nb)))"
| "including_root H path value_hash cursor (Leaf skip key val # steps) =
    and_then (ensure_cursor cursor) (\<lambda>_.
    and_then (next_cursor_of cursor skip) (\<lambda>next_cursor.
    and_then (including_root H path value_hash (next_cursor + 1) steps) (\<lambda>root.
    and_then (leaf_neighbor key val next_cursor) (\<lambda>nb.
      fork_root H path cursor next_cursor root nb))))"

fun excluding_root ::
  "(bytes \<Rightarrow> bytes) \<Rightarrow> bytes \<Rightarrow> usize \<Rightarrow> proof_step list \<Rightarrow> (mpf_error, bytes) res" where
  "excluding_root H path cursor [] = and_then (ensure_cursor cursor) (\<lambda>_. Ok EMPTY_ROOT)"
| "excluding_root H path cursor (Branch skip neighbors # steps) =
    and_then (ensure_cursor cursor) (\<lambda>_.
    and_then (validate_neighbors neighbors) (\<lambda>_.
    and_then (next_cursor_of cursor skip) (\<lambda>next_cursor.
    and_then (excluding_root H path (next_cursor + 1) steps) (\<lambda>root.
      branch_root H path cursor next_cursor root neighbors))))"
| "excluding_root H path cursor (Fork skip nb # steps) =
    and_then (ensure_cursor cursor) (\<lambda>_.
      if steps = [] then
        if nb_nibble nb > 15 then Err InvalidProof
        else and_then (if skip > 0 then nibbles path cursor (wrapping_add_usize cursor skip) else Ok [])
          (\<lambda>prefix. Ok (combine H (prefix @ [nb_nibble nb] @ nb_prefix nb) (nb_root nb)))
      else
        and_then (next_cursor_of cursor skip) (\<lambda>next_cursor.
        and_then (excluding_root H path (next_cursor + 1) steps) (\<lambda>root.
          fork_root H path cursor next_cursor root nb)))"
| "excluding_root H path cursor (Leaf skip key val # steps) =
    and_then (ensure_cursor cursor) (\<lambda>_.
      if steps = [] then and_then (suffix key cursor) (\<lambda>s. Ok (combine H s val))
      else
        and_then (next_cursor_of cursor skip) (\<lambda>next_cursor.
        and_then (excluding_root H path (next_cursor + 1) steps) (\<lambda>root.
        and_then (leaf_neighbor key val next_cursor) (\<lambda>nb.
          fork_root H path cursor next_cursor root nb))))"

definition has :: "(bytes \<Rightarrow> bytes) \<Rightarrow> bytes \<Rightarrow> bytes \<Rightarrow> bytes \<Rightarrow> proof_step list \<Rightarrow> bool" where
  "has H root key val pf = (including_root H (H key) (H val) 0 pf = Ok root)"

definition miss :: "(bytes \<Rightarrow> bytes) \<Rightarrow> bytes \<Rightarrow> bytes \<Rightarrow> proof_step list \<Rightarrow> bool" where
  "miss H root key pf = (excluding_root H (H key) 0 pf = Ok root)"

definition insert_root ::
  "(bytes \<Rightarrow> bytes) \<Rightarrow> bytes \<Rightarrow> bytes \<Rightarrow> bytes \<Rightarrow> proof_step list \<Rightarrow> (mpf_error, bytes) res" where
  "insert_root H root key val pf =
    and_then (excluding_root H (H key) 0 pf) (\<lambda>r.
      if r \<noteq> root then Err InvalidProof else including_root H (H key) (H val) 0 pf)"

definition update_root ::
  "(bytes \<Rightarrow> bytes) \<Rightarrow> bytes \<Rightarrow> bytes \<Rightarrow> proof_step list \<Rightarrow> bytes \<Rightarrow> bytes \<Rightarrow> (mpf_error, bytes) res" where
  "update_root H root key pf old_value new_value =
    and_then (including_root H (H key) (H old_value) 0 pf) (\<lambda>r.
      if r \<noteq> root then Err InvalidProof else including_root H (H key) (H new_value) 0 pf)"

definition delete_root ::
  "(bytes \<Rightarrow> bytes) \<Rightarrow> bytes \<Rightarrow> bytes \<Rightarrow> bytes \<Rightarrow> proof_step list \<Rightarrow> (mpf_error, bytes) res" where
  "delete_root H root key val pf =
    and_then (including_root H (H key) (H val) 0 pf) (\<lambda>r.
      if r \<noteq> root then Err InvalidProof else excluding_root H (H key) 0 pf)"


section \<open>The prover\<close>

fun split_from :: "leaf \<Rightarrow> leaf list \<Rightarrow> usize list \<Rightarrow> (mpf_error, usize) res" where
  "split_from first ls [] = Err PathExhausted"
| "split_from first ls (ix # ixs) =
    and_then (nibble (lf_path first) ix) (\<lambda>nib.
      if list_ex (\<lambda>l. nibble (lf_path l) ix \<noteq> Ok nib) ls then Ok ix else split_from first ls ixs)"

fun common_split :: "leaf list \<Rightarrow> usize \<Rightarrow> (mpf_error, usize) res" where
  "common_split [] cursor = Err InvalidProof"
| "common_split (first # ls) cursor = split_from first (first # ls) [cursor..<64]"

definition first_divergence :: "bytes \<Rightarrow> bytes \<Rightarrow> usize \<Rightarrow> (mpf_error, usize) res" where
  "first_divergence lhs rhs cursor =
    ok_or (find (\<lambda>ix. nibble lhs ix \<noteq> nibble rhs ix) [cursor..<64]) PathExhausted"

fun push_children :: "leaf list list \<Rightarrow> leaf list \<Rightarrow> usize \<Rightarrow> (mpf_error, leaf list list) res" where
  "push_children children [] split = Ok children"
| "push_children children (l # ls) split =
    and_then (nibble (lf_path l) split) (\<lambda>n.
      push_children (children[n := children ! n @ [l]]) ls split)"

definition child_groups :: "leaf list \<Rightarrow> usize \<Rightarrow> (mpf_error, leaf list list) res" where
  "child_groups ls split = push_children (replicate 16 []) ls split"

lemma split_from_range: "split_from l ls ixs = Ok s \<Longrightarrow> s \<in> set ixs"
  by (induction ixs) (auto simp: res_simps split: if_splits)

lemma common_split_range: "common_split ls c = Ok s \<Longrightarrow> c \<le> s \<and> s < 64"
  by (cases ls) (auto dest: split_from_range)

declare common_split.simps [simp del]

function root_for :: "(bytes \<Rightarrow> bytes) \<Rightarrow> leaf list \<Rightarrow> usize \<Rightarrow> (mpf_error, bytes) res" where
  "root_for H [] cursor = Ok EMPTY_ROOT"
| "root_for H [l] cursor =
    and_then (expect (suffix (lf_path l) cursor)) (\<lambda>s. Ok (combine H s (lf_value_hash l)))"
| "root_for H (l # l' # ls) cursor =
    and_then (expect (common_split (l # l' # ls) cursor)) (\<lambda>split.
    and_then (expect (child_groups (l # l' # ls) split)) (\<lambda>children.
    and_then (traverse (\<lambda>g. root_for H g (split + 1)) children) (\<lambda>child_roots.
      let subtree = merkle_16_roots H child_roots in
      and_then (expect (nibbles (lf_path l) cursor split)) (\<lambda>prefix.
        Ok (combine H prefix subtree)))))"
  by pat_completeness auto
termination
  by (relation "measure (\<lambda>(H, ls, c). 65 - c)") (force simp: res_simps dest!: common_split_range)+

definition child_roots ::
  "(bytes \<Rightarrow> bytes) \<Rightarrow> leaf list list \<Rightarrow> usize \<Rightarrow> (mpf_error, bytes list) res" where
  "child_roots H children cursor = traverse (\<lambda>g. root_for H g cursor) children"

definition sparse_neighbor_step ::
  "(bytes \<Rightarrow> bytes) \<Rightarrow> usize \<Rightarrow> usize \<Rightarrow> usize \<Rightarrow> leaf list \<Rightarrow> (mpf_error, proof_step) res" where
  "sparse_neighbor_step H skip cursor nib ls =
    (if length ls = 1 then Ok (Leaf skip (lf_path (ls ! 0)) (lf_value_hash (ls ! 0)))
     else and_then (common_split ls cursor) (\<lambda>split.
       and_then (child_groups ls split) (\<lambda>children.
       and_then (child_roots H children (split + 1)) (\<lambda>roots.
       and_then (nibbles (lf_path (ls ! 0)) cursor split) (\<lambda>prefix.
         Ok (Fork skip \<lparr> nb_nibble = of_nat nib, nb_prefix = prefix,
                        nb_root = merkle_16_roots H roots \<rparr>))))))"

definition proof_step_for_branch ::
  "(bytes \<Rightarrow> bytes) \<Rightarrow> bytes \<Rightarrow> usize \<Rightarrow> usize \<Rightarrow> usize \<Rightarrow> leaf list list \<Rightarrow> (mpf_error, proof_step) res"
  where
  "proof_step_for_branch H path cursor split branch children =
    (let neighbors = filter (\<lambda>(ix, ls). ix \<noteq> branch \<and> ls \<noteq> []) (enumerate 0 children) in
     if length neighbors = 1 then
       let (nib, ls) = neighbors ! 0 in sparse_neighbor_step H (split - cursor) (split + 1) nib ls
     else and_then (child_roots H children (split + 1)) (\<lambda>roots.
       and_then (nibble path split) (\<lambda>n.
         Ok (Branch (split - cursor) (branch_neighbors H n roots)))))"

function proof_for_path ::
  "(bytes \<Rightarrow> bytes) \<Rightarrow> leaf list \<Rightarrow> bytes \<Rightarrow> usize \<Rightarrow> (mpf_error, proof_step list) res" where
  "proof_for_path H [] path cursor = Ok []"
| "proof_for_path H [l] path cursor =
    (if lf_path l = path then Ok []
     else and_then (first_divergence path (lf_path l) cursor) (\<lambda>split.
       Ok [Leaf (split - cursor) (lf_path l) (lf_value_hash l)]))"
| "proof_for_path H (l # l' # ls) path cursor =
    and_then (common_split (l # l' # ls) cursor) (\<lambda>split.
    and_then (nibble path split) (\<lambda>branch.
    and_then (child_groups (l # l' # ls) split) (\<lambda>children.
    and_then (proof_step_for_branch H path cursor split branch children) (\<lambda>step.
      if children ! branch \<noteq> [] then
        and_then (proof_for_path H (children ! branch) path (split + 1)) (\<lambda>pf. Ok (step # pf))
      else Ok [step]))))"
  by pat_completeness auto
termination
  by (relation "measure (\<lambda>(H, ls, p, c). 65 - c)") (force simp: res_simps dest!: common_split_range)+


section \<open>The trie\<close>

definition trie_empty :: trie where
  "trie_empty = \<lparr> leaves = [] \<rparr>"

definition from_leaves :: "(bytes, bytes) btree_map \<Rightarrow> trie" where
  "from_leaves m = \<lparr> leaves = m \<rparr>"

definition mpf_leaves :: "(bytes \<Rightarrow> bytes) \<Rightarrow> trie \<Rightarrow> leaf list" where
  "mpf_leaves H t = map (\<lambda>(key, val).
     \<lparr> lf_key = key, lf_path = H key, lf_value = val, lf_value_hash = H val \<rparr>) (leaves t)"

definition trie_root :: "(bytes \<Rightarrow> bytes) \<Rightarrow> trie \<Rightarrow> (mpf_error, bytes) res" where
  "trie_root H t = root_for H (mpf_leaves H t) 0"

text \<open>The mutating operations return the trie after the call and the result of the call.\<close>

definition trie_insert ::
  "(bytes \<Rightarrow> bytes) \<Rightarrow> trie \<Rightarrow> bytes \<Rightarrow> bytes \<Rightarrow> trie \<times> (mpf_error, bytes) res" where
  "trie_insert H t key val =
    (if map_of (leaves t) key \<noteq> None then (t, Err ExistingKey)
     else let t' = t\<lparr> leaves := bt_insert key val (leaves t) \<rparr> in (t', trie_root H t'))"

definition trie_update ::
  "(bytes \<Rightarrow> bytes) \<Rightarrow> trie \<Rightarrow> bytes \<Rightarrow> bytes \<Rightarrow> trie \<times> (mpf_error, bytes) res" where
  "trie_update H t key val =
    (case map_of (leaves t) key of
       None \<Rightarrow> (t, Err MissingKey)
     | Some _ \<Rightarrow> let t' = t\<lparr> leaves := bt_insert key val (leaves t) \<rparr> in (t', trie_root H t'))"

definition trie_delete ::
  "(bytes \<Rightarrow> bytes) \<Rightarrow> trie \<Rightarrow> bytes \<Rightarrow> trie \<times> (mpf_error, bytes) res" where
  "trie_delete H t key =
    (case map_of (leaves t) key of
       None \<Rightarrow> (t, Err MissingKey)
     | Some _ \<Rightarrow> let t' = t\<lparr> leaves := bt_remove key (leaves t) \<rparr> in (t', trie_root H t'))"

definition proof_for_missing ::
  "(bytes \<Rightarrow> bytes) \<Rightarrow> trie \<Rightarrow> bytes \<Rightarrow> (mpf_error, proof_step list) res" where
  "proof_for_missing H t key =
    (if map_of (leaves t) key \<noteq> None then Err ExistingKey
     else proof_for_path H (mpf_leaves H t) (H key) 0)"

definition proof_for_present ::
  "(bytes \<Rightarrow> bytes) \<Rightarrow> trie \<Rightarrow> bytes \<Rightarrow> (mpf_error, proof_step list) res" where
  "proof_for_present H t key =
    (if map_of (leaves t) key = None then Err MissingKey
     else proof_for_path H (mpf_leaves H t) (H key) 0)"

end
