(* ===== verification/Mpf_Clusters.thy ===== *)
theory Mpf_Clusters
  imports Mpf
begin

text \<open>
  The groups of leaves that the recursions of \<open>mpf.rs\<close> work on: nibbles and prefixes as total
  functions of a 32-byte path, where the leaves of a group diverge, and the root of a group in
  terms of the roots of its sixteen children.
\<close>

section \<open>Nibbles and prefixes as total functions\<close>

definition nib :: "bytes \<Rightarrow> nat \<Rightarrow> nat" where
  "nib p i = (if i mod 2 = 0 then unat (p ! (i div 2) div 16) else unat (p ! (i div 2) mod 16))"

definition nbs :: "bytes \<Rightarrow> nat \<Rightarrow> nat \<Rightarrow> bytes" where
  "nbs p a b = map (\<lambda>i. of_nat (nib p i)) [a..<b]"

definition sfx :: "bytes \<Rightarrow> nat \<Rightarrow> bytes" where
  "sfx p c = (if c mod 2 = 0 then 0xff # drop (c div 2) p
              else 0 # of_nat (nib p c) # drop ((c + 1) div 2) p)"

lemma nibble_Ok [simp]: "i < 64 \<Longrightarrow> nibble p i = Ok (nib p i)"
  by (simp add: nibble_def nib_def Let_def)

lemma nib_div: "unat (b div 16) = unat b div 16" for b :: byte
  by (simp add: unat_div_distrib)

lemma nib_mod: "unat (b mod 16) = unat b mod 16" for b :: byte
  by (simp add: unat_mod_distrib)

lemma nib_less: "nib p i < 16"
proof -
  have "unat (p ! (i div 2)) < 2 ^ LENGTH(8)" by (rule unsigned_less)
  then show ?thesis by (auto simp: nib_def nib_div nib_mod)
qed

lemma unat_of_nib [simp]: "unat (of_nat (nib p i) :: byte) = nib p i"
  using nib_less [of p i] by (simp add: unat_of_nat)

lemma of_nib_small [simp]: "\<not> 15 < (of_nat (nib p i) :: byte)"
  using nib_less [of p i] by (simp add: word_less_nat_alt)

declare nib_less [simp]

lemma nibbles_Ok [simp]: "a \<le> b \<Longrightarrow> b \<le> 64 \<Longrightarrow> nibbles p a b = Ok (nbs p a b)"
  by (auto simp: nibbles_def nbs_def intro!: traverse_Ok)

lemma ensure_cursor_Ok [simp]: "c \<le> 64 \<Longrightarrow> ensure_cursor c = Ok ()"
  by (simp add: ensure_cursor_def)

lemma suffix_Ok [simp]:
  assumes "c \<le> 64" shows "suffix p c = Ok (sfx p c)"
proof -
  have "c mod 2 \<noteq> 0 \<Longrightarrow> c < 64" using assms by (cases "c = 64") auto
  then show ?thesis using assms by (simp add: suffix_def sfx_def)
qed

lemma next_cursor_Ok [simp]: "c \<le> s \<Longrightarrow> s \<le> 64 \<Longrightarrow> next_cursor_of c (s - c) = Ok s"
  by (simp add: next_cursor_of_def checked_add_usize_def)

lemma nbs_append: "a \<le> b \<Longrightarrow> b \<le> c \<Longrightarrow> nbs p a c = nbs p a b @ nbs p b c"
  unfolding nbs_def by (metis map_append upt_add_eq_append le_add_diff_inverse)

lemma nbs_step: "a \<le> b \<Longrightarrow> b < c \<Longrightarrow> nbs p a c = nbs p a b @ [of_nat (nib p b)] @ nbs p (b + 1) c"
  using nbs_append [of a b c p] by (simp add: nbs_def upt_conv_Cons)

lemma nbs_cong: "(\<And>i. a \<le> i \<Longrightarrow> i < b \<Longrightarrow> nib p i = nib q i) \<Longrightarrow> nbs p a b = nbs q a b"
  by (auto simp: nbs_def)

lemma byte_nibbles_eq:
  fixes x y :: byte
  assumes "unat (x div 16) = unat (y div 16)" "unat (x mod 16) = unat (y mod 16)"
  shows "x = y"
proof -
  have "unat x = unat y"
    using assms by (metis div_mult_mod_eq nib_div nib_mod)
  then show ?thesis by (simp add: word_unat_eq_iff)
qed

lemma path_eqI:
  assumes "length p = 32" "length q = 32" "\<And>i. i < 64 \<Longrightarrow> nib p i = nib q i"
  shows "p = q"
proof (rule nth_equalityI)
  fix j assume "j < length p"
  with assms have "nib p (2 * j) = nib q (2 * j)" "nib p (2 * j + 1) = nib q (2 * j + 1)"
    by simp_all
  then show "p ! j = q ! j" by (intro byte_nibbles_eq) (auto simp: nib_def)
qed (use assms in simp)


section \<open>Clusters of leaves\<close>

text \<open>
  A cluster at cursor \<open>c\<close>: 32-byte paths, pairwise distinct, which agree on the first \<open>c\<close>
  nibbles.  It is what \<open>root_for\<close> and \<open>proof_for_path\<close> are called with.
\<close>

definition agree :: "nat \<Rightarrow> bytes \<Rightarrow> bytes \<Rightarrow> bool" where
  "agree c p q \<longleftrightarrow> (\<forall>i < c. nib p i = nib q i)"

lemma agree_refl [simp]: "agree c p p"
  by (simp add: agree_def)

lemma agree_sym: "agree c p q \<Longrightarrow> agree c q p"
  by (simp add: agree_def)

lemma agree_trans: "agree c p q \<Longrightarrow> agree c q r \<Longrightarrow> agree c p r"
  by (simp add: agree_def)

lemma agree_mono: "agree s p q \<Longrightarrow> c \<le> s \<Longrightarrow> agree c p q"
  by (simp add: agree_def)

lemma agree_Suc: "agree (Suc s) p q \<longleftrightarrow> agree s p q \<and> nib p s = nib q s"
  by (auto simp: agree_def less_Suc_eq)

lemma agree_nbs: "agree s p q \<Longrightarrow> nbs p c s = nbs q c s"
  by (rule nbs_cong) (simp add: agree_def)

lemma agree_eq: "agree 64 p q \<Longrightarrow> length p = 32 \<Longrightarrow> length q = 32 \<Longrightarrow> p = q"
  by (rule path_eqI) (simp_all add: agree_def)

definition cluster :: "nat \<Rightarrow> leaf list \<Rightarrow> bool" where
  "cluster c ls \<longleftrightarrow> distinct (map lf_path ls) \<and> (\<forall>l \<in> set ls. length (lf_path l) = 32) \<and>
    (\<forall>l \<in> set ls. \<forall>l' \<in> set ls. agree c (lf_path l) (lf_path l'))"

definition grp :: "leaf list \<Rightarrow> nat \<Rightarrow> nat \<Rightarrow> leaf list" where
  "grp ls s n = filter (\<lambda>l. nib (lf_path l) s = n) ls"

text \<open>The sixteen child indices, and the groups of leaves below a split.\<close>

definition hexes :: "nat list" where
  "hexes = [0..<16]"

definition groups :: "leaf list \<Rightarrow> nat \<Rightarrow> leaf list list" where
  "groups ls s = map (grp ls s) hexes"

lemma hexes_simps [simp]:
  "length hexes = 16" "i < 16 \<Longrightarrow> hexes ! i = i" "set hexes = {..<16}" "distinct hexes"
  by (auto simp: hexes_def simp del: upt_rec_numeral)

lemma groups_simps [simp]:
  "length (groups ls s) = 16" "i < 16 \<Longrightarrow> groups ls s ! i = grp ls s i"
  by (auto simp: groups_def)

definition differ_at :: "leaf list \<Rightarrow> nat \<Rightarrow> bool" where
  "differ_at ls s \<longleftrightarrow> (\<exists>l \<in> set ls. \<exists>l' \<in> set ls. nib (lf_path l) s \<noteq> nib (lf_path l') s)"

lemma cluster_Nil [simp]: "cluster c []"
  by (simp add: cluster_def)

lemma cluster_filter: "cluster c ls \<Longrightarrow> cluster c (filter P ls)"
  by (auto simp: cluster_def distinct_map_filter)

lemma cluster_grp: "cluster s ls \<Longrightarrow> cluster (s + 1) (grp ls s n)"
  by (auto simp: cluster_def grp_def distinct_map_filter agree_Suc)

lemma cluster_mono: "cluster s ls \<Longrightarrow> c \<le> s \<Longrightarrow> cluster c ls"
  by (auto simp: cluster_def intro: agree_mono)

lemma split_from_skip:
  assumes "\<And>i l. i \<in> set xs \<Longrightarrow> l \<in> set ls \<Longrightarrow> i < 64 \<and> nib (lf_path l) i = nib (lf_path f) i"
    and "ls \<noteq> []"
  shows "split_from f ls (xs @ ys) = split_from f ls ys"
  using assms
proof (induction xs)
  case (Cons x xs)
  obtain l where "l \<in> set ls" using Cons.prems(2) by (cases ls) auto
  with Cons.prems(1) [of x l] have x: "x < 64" by simp
  have "\<not> list_ex (\<lambda>l. nibble (lf_path l) x \<noteq> Ok (nib (lf_path f) x)) ls"
    using Cons.prems x by (auto simp: list_ex_iff)
  with Cons x show ?case by simp
qed simp

lemma common_split_eq:
  assumes "cluster s ls" "c \<le> s" "s < 64" "differ_at ls s"
  shows "common_split ls c = Ok s"
proof -
  obtain f fs where ls: "ls = f # fs" using assms(4) by (cases ls) (auto simp: differ_at_def)
  have "[c..<64] = [c..<s] @ s # [Suc s..<64]"
    using assms by (metis append_assoc upt_add_eq_append upt_conv_Cons le_add_diff_inverse less_imp_le_nat)
  moreover have "split_from f ls ([c..<s] @ s # [Suc s..<64]) = split_from f ls (s # [Suc s..<64])"
    using assms ls by (intro split_from_skip) (auto simp: cluster_def agree_def)
  moreover have "\<exists>l \<in> set ls. nib (lf_path l) s \<noteq> nib (lf_path f) s"
    using assms(4) unfolding differ_at_def by metis
  ultimately show ?thesis
    using ls assms(3) by (auto simp: common_split.simps list_ex_iff)
qed

lemma cluster_diverges:
  assumes "cluster c ls" "2 \<le> length ls"
  obtains s where "c \<le> s" "s < 64" "cluster s ls" "differ_at ls s"
proof -
  obtain a b r where ls: "ls = a # b # r"
    using assms(2) by (cases ls; cases "tl ls") auto
  have "lf_path a \<noteq> lf_path b" "length (lf_path a) = 32" "length (lf_path b) = 32"
    using assms(1) ls by (auto simp: cluster_def)
  then obtain i where i: "i < 64" "nib (lf_path a) i \<noteq> nib (lf_path b) i"
    using path_eqI [of "lf_path a" "lf_path b"] by auto
  then have "differ_at ls i"
    unfolding differ_at_def ls by (intro bexI [of _ a] bexI [of _ b]) simp_all
  with i have ex: "\<exists>s. s < 64 \<and> differ_at ls s" by blast
  define s where "s = (LEAST s. s < 64 \<and> differ_at ls s)"
  have s: "s < 64" "differ_at ls s" using LeastI_ex [OF ex] by (auto simp: s_def)
  have "\<not> differ_at ls i" if "i < s" for i
    using that s(1) not_less_Least [of i "\<lambda>s. s < 64 \<and> differ_at ls s"] by (simp add: s_def)
  then have "cluster s ls"
    using assms(1) unfolding cluster_def differ_at_def agree_def by blast
  moreover have "c \<le> s"
    using s(2) assms(1) unfolding cluster_def differ_at_def agree_def by (meson not_less)
  ultimately show ?thesis using that s by blast
qed

lemma push_children_Ok:
  "length ch = 16 \<Longrightarrow> s < 64 \<Longrightarrow>
   push_children ch ls s = Ok (map (\<lambda>n. ch ! n @ grp ls s n) hexes)"
proof (induction ls arbitrary: ch)
  case Nil
  then show ?case by (auto simp: grp_def intro!: nth_equalityI)
next
  case (Cons l ls)
  then show ?case by (auto simp: grp_def nth_list_update)
qed

lemma child_groups_Ok: "s < 64 \<Longrightarrow> child_groups ls s = Ok (groups ls s)"
  by (auto simp: child_groups_def groups_def push_children_Ok)


section \<open>The root of a cluster\<close>

definition rt :: "(bytes \<Rightarrow> bytes) \<Rightarrow> leaf list \<Rightarrow> nat \<Rightarrow> bytes" where
  "rt H ls c = (case root_for H ls c of Ok r \<Rightarrow> r | _ \<Rightarrow> [])"

definition hash32 :: "(bytes \<Rightarrow> bytes) \<Rightarrow> bool" where
  "hash32 H \<longleftrightarrow> (\<forall>x. length (H x) = 32)"

lemma root_for_two:
  assumes "cluster s ls" "c \<le> s" "s < 64" "differ_at ls s" "l \<in> set ls"
  shows "root_for H ls c =
    and_then (traverse (\<lambda>g. root_for H g (s + 1)) (groups ls s)) (\<lambda>rs.
      Ok (combine H (nbs (lf_path l) c s) (merkle_16_roots H rs)))"
proof -
  obtain a b r where ls: "ls = a # b # r"
    using assms(4) by (cases ls; cases "tl ls") (auto simp: differ_at_def)
  have "nbs (lf_path a) c s = nbs (lf_path l) c s"
    using assms ls by (intro agree_nbs) (auto simp: cluster_def)
  then show ?thesis
    using common_split_eq [OF assms(1-4)] assms(2,3) ls by (simp add: child_groups_Ok)
qed

lemma root_for_Ok: "cluster c ls \<Longrightarrow> c \<le> 64 \<Longrightarrow> root_for H ls c = Ok (rt H ls c)"
proof -
  assume "cluster c ls" "c \<le> 64"
  then have "\<exists>r. root_for H ls c = Ok r"
  proof (induction "65 - c" arbitrary: c ls rule: less_induct)
    case less
    show ?case
    proof (cases "2 \<le> length ls")
      case True
      then obtain s where s: "c \<le> s" "s < 64" "cluster s ls" "differ_at ls s"
        using cluster_diverges less.prems by blast
      then obtain l where "l \<in> set ls" by (auto simp: differ_at_def)
      have "\<exists>r. root_for H (grp ls s n) (s + 1) = Ok r" for n
        by (rule less.hyps) (use s cluster_grp [OF s(3)] in auto)
      then obtain f where "root_for H (grp ls s n) (s + 1) = Ok (f n)" for n by metis
      then have "traverse (\<lambda>g. root_for H g (s + 1)) (groups ls s) = Ok (map f hexes)"
        by (auto simp: traverse_eq_Ok list_all2_conv_all_nth)
      then show ?thesis
        using root_for_two [OF s(3) s(1) s(2) s(4) \<open>l \<in> set ls\<close>] by simp
    next
      case False
      then consider "ls = []" | l where "ls = [l]" by (cases ls; cases "tl ls") auto
      then show ?thesis using less.prems by cases auto
    qed
  qed
  then show ?thesis by (auto simp: rt_def)
qed

lemma rt_Nil [simp]: "rt H [] c = EMPTY_ROOT"
  by (simp add: rt_def)

lemma rt_single [simp]: "c \<le> 64 \<Longrightarrow> rt H [l] c = combine H (sfx (lf_path l) c) (lf_value_hash l)"
  by (simp add: rt_def)

lemma child_roots_Ok:
  assumes "cluster s ls" "s < 64"
  shows "child_roots H (groups ls s) (s + 1) =
    Ok (map (\<lambda>n. rt H (grp ls s n) (s + 1)) hexes)"
  using assms root_for_Ok [OF cluster_grp [OF assms(1)]]
  by (auto simp: child_roots_def traverse_eq_Ok list_all2_conv_all_nth)

lemma rt_two:
  assumes "cluster s ls" "c \<le> s" "s < 64" "differ_at ls s" "l \<in> set ls"
  shows "rt H ls c = combine H (nbs (lf_path l) c s)
    (merkle_16_roots H (map (\<lambda>n. rt H (grp ls s n) (s + 1)) hexes))"
  using root_for_two [OF assms, of H] child_roots_Ok [OF assms(1,3), of H]
  by (simp add: rt_def child_roots_def)

lemma length_EMPTY_ROOT [simp]: "length EMPTY_ROOT = 32"
  by (simp add: EMPTY_ROOT_def)

lemma length_combine [simp]: "hash32 H \<Longrightarrow> length (combine H a b) = 32"
  by (simp add: combine_def hash32_def)

lemma length_rt:
  assumes "hash32 H" "cluster c ls" "c \<le> 64"
  shows "length (rt H ls c) = 32"
proof (cases "2 \<le> length ls")
  case True
  then obtain s where s: "c \<le> s" "s < 64" "cluster s ls" "differ_at ls s"
    using cluster_diverges assms by blast
  then obtain l where "l \<in> set ls" by (auto simp: differ_at_def)
  then show ?thesis using rt_two [OF s(3) s(1) s(2) s(4)] assms(1) by simp
next
  case False
  then consider "ls = []" | l where "ls = [l]" by (cases ls; cases "tl ls") auto
  then show ?thesis using assms by cases auto
qed

end
