(* ===== verification/Mpf_Correct.thy ===== *)
theory Mpf_Correct
  imports Mpf_Clusters
begin

text \<open>
  The fold of a generated proof: every step rebuilds the node it was generated at, so that
  \<open>including\<close> gives the root of the leaves with the leaf of the path replaced or added, and
  \<open>excluding\<close> the root of the leaves without it (\<open>proof_for_path_proves\<close>).
\<close>

section \<open>One branch of a proof\<close>

definition roots :: "(bytes \<Rightarrow> bytes) \<Rightarrow> leaf list \<Rightarrow> nat \<Rightarrow> bytes list" where
  "roots H ls s = map (\<lambda>n. rt H (grp ls s n) (s + 1)) hexes"

text \<open>The root of the node at \<open>s\<close> on the path \<open>p\<close> when the child of \<open>p\<close> has root \<open>r\<close>.\<close>

definition node_with :: "(bytes \<Rightarrow> bytes) \<Rightarrow> leaf list \<Rightarrow> bytes \<Rightarrow> nat \<Rightarrow> nat \<Rightarrow> bytes \<Rightarrow> bytes" where
  "node_with H ls p c s r =
    combine H (nbs p c s) (merkle_16_roots H ((roots H ls s)[nib p s := r]))"

definition others :: "leaf list \<Rightarrow> nat \<Rightarrow> nat \<Rightarrow> nat list" where
  "others ls s b = filter (\<lambda>n. n \<noteq> b \<and> grp ls s n \<noteq> []) hexes"

lemma length_roots [simp]: "length (roots H ls s) = 16"
  by (simp add: roots_def)

lemma nth_roots [simp]: "n < 16 \<Longrightarrow> roots H ls s ! n = rt H (grp ls s n) (s + 1)"
  by (simp add: roots_def)

lemma sixteen:
  assumes "length xs = (16::nat)"
  obtains x0 x1 x2 x3 x4 x5 x6 x7 x8 x9 x10 x11 x12 x13 x14 x15
  where "xs = [x0, x1, x2, x3, x4, x5, x6, x7, x8, x9, x10, x11, x12, x13, x14, x15]"
  using assms by (auto simp: numeral_eq_Suc length_Suc_conv)

lemma length_merkle [simp]:
  assumes "hash32 H"
  shows "length (merkle_2_roots H xs) = 32" "length (merkle_4_roots H xs) = 32"
    "length (merkle_8_roots H xs) = 32"
  using assms by (simp_all add: merkle_2_roots_def merkle_4_roots_def merkle_8_roots_def)

lemma slices_128:
  assumes "length a = 32" "length b = 32" "length c = 32" "length d = (32::nat)"
  shows "slice 0 32 (a @ b @ c @ d) = a" "slice 32 64 (a @ b @ c @ d) = b"
    "slice 64 96 (a @ b @ c @ d) = c" "slice 96 128 (a @ b @ c @ d) = d"
  using assms by (simp_all add: slice_def)

lemma merkle_16_parts:
  assumes "length a = 32" "length b = 32" "length c = 32" "length d = (32::nat)"
  shows "merkle_16 H n root (a @ b @ c @ d) =
    (let pair = (if n mod 2 = 0 then combine H root d else combine H d root);
         group_4 = (if n mod 4 < 2 then combine H pair c else combine H c pair);
         group_8 = (if n mod 8 < 4 then combine H group_4 b else combine H b group_4)
     in Ok (if n < 8 then combine H group_8 a else combine H a group_8))"
  using assms by (simp add: merkle_16_def validate_neighbors_def slices_128 Let_def)

lemma hex_cases:
  assumes "b < (16::nat)"
  shows "b = 0 \<or> b = 1 \<or> b = 2 \<or> b = 3 \<or> b = 4 \<or> b = 5 \<or> b = 6 \<or> b = 7 \<or>
    b = 8 \<or> b = 9 \<or> b = 10 \<or> b = 11 \<or> b = 12 \<or> b = 13 \<or> b = 14 \<or> b = 15"
  using assms by arith

lemma xor_1_less: "b < 16 \<Longrightarrow> b XOR 1 < (16::nat)"
  by (drule hex_cases, elim disjE) simp_all

lemma merkle_16_neighbors:
  assumes "hash32 H" "b < 16" "length rs = 16" "\<And>r. r \<in> set rs \<Longrightarrow> length r = 32"
  shows "merkle_16 H b root (branch_neighbors H b rs) = Ok (merkle_16_roots H (rs[b := root]))"
    and "length (branch_neighbors H b rs) = 128"
proof -
  have l: "length (rs ! (b XOR 1)) = 32"
    using assms xor_1_less [OF assms(2)] by auto
  then show "length (branch_neighbors H b rs) = 128"
    using assms(1) by (simp add: branch_neighbors_def Let_def)
  obtain x0 x1 x2 x3 x4 x5 x6 x7 x8 x9 x10 x11 x12 x13 x14 x15 where
    rs: "rs = [x0, x1, x2, x3, x4, x5, x6, x7, x8, x9, x10, x11, x12, x13, x14, x15]"
    using sixteen [OF assms(3)] .
  note defs = merkle_16_roots_def merkle_8_roots_def merkle_4_roots_def merkle_2_roots_def slice_def
  show "merkle_16 H b root (branch_neighbors H b rs) = Ok (merkle_16_roots H (rs[b := root]))"
    unfolding branch_neighbors_def Let_def concat.simps append_Nil2
    using l assms(1) hex_cases [OF assms(2)]
    by (subst merkle_16_parts) (simp_all, elim disjE, simp_all add: rs defs)
qed

lemma filter_single: "distinct xs \<Longrightarrow> x \<in> set xs \<Longrightarrow> filter ((=) x) xs = [x]"
  by (induction xs) (auto simp: filter_empty_conv)

lemma distinct_another:
  assumes "distinct xs" "x \<in> set xs" "length xs \<noteq> 1"
  obtains y where "y \<in> set xs" "y \<noteq> x"
proof -
  have "set xs \<noteq> {x}" using assms(1,3) distinct_card [of xs] by auto
  then show ?thesis using that assms(2) by blast
qed

lemma others_single:
  assumes "others ls s b = [m]" "n < 16" "n \<noteq> b" "n \<noteq> m"
  shows "grp ls s n = []"
proof -
  have "n \<notin> set (others ls s b)" using assms by simp
  then show ?thesis using assms(2,3) by (simp add: others_def)
qed

lemma others_mem: "m \<in> set (others ls s b) \<longleftrightarrow> m < 16 \<and> m \<noteq> b \<and> grp ls s m \<noteq> []"
  by (auto simp: others_def)

lemma grp_mem: "l \<in> set (grp ls s n) \<longleftrightarrow> l \<in> set ls \<and> nib (lf_path l) s = n"
  by (auto simp: grp_def)

lemma neighbors_eq:
  "filter (\<lambda>(ix, g). ix \<noteq> b \<and> g \<noteq> []) (enumerate 0 (groups ls s)) =
   map (\<lambda>n. (n, grp ls s n)) (others ls s b)"
proof -
  have "enumerate 0 (groups ls s) = map (\<lambda>n. (n, grp ls s n)) hexes"
    by (intro nth_equalityI) (auto simp: nth_enumerate_eq)
  then show ?thesis by (simp add: others_def filter_map o_def)
qed

lemma length_roots_mem:
  assumes "hash32 H" "cluster s ls" "s < 64" "r \<in> set (roots H ls s)"
  shows "length r = 32"
proof -
  obtain n where "r = rt H (grp ls s n) (s + 1)" using assms(4) by (auto simp: roots_def)
  then show ?thesis using length_rt [OF assms(1) cluster_grp [OF assms(2)]] assms(3) by simp
qed

text \<open>A sparse node: the only other child is \<open>m\<close>.\<close>

lemma fork_root_sparse:
  assumes "others ls s (nib p s) = [m]" "c \<le> s" "s < 64"
    and "unat (nb_nibble nb) = m"
    and "combine H (nb_prefix nb) (nb_root nb) = rt H (grp ls s m) (s + 1)"
  shows "fork_root H p c s r nb = Ok (node_with H ls p c s r)"
proof -
  have m: "m < 16" "m \<noteq> nib p s" using others_mem [of m ls s "nib p s"] assms(1) by auto
  have "(replicate 16 EMPTY_ROOT)[nib p s := r, m := rt H (grp ls s m) (s + 1)] =
      (roots H ls s)[nib p s := r]"
    using m others_single [OF assms(1)] by (intro nth_equalityI) (auto simp: nth_list_update)
  moreover have "\<not> 15 < nb_nibble nb" using assms(4) m(1) by (simp add: word_less_nat_alt)
  ultimately show ?thesis
    using assms m by (simp add: fork_root_def node_with_def sparse_merkle_16_def)
qed

lemma branch_root_dense:
  assumes "hash32 H" "cluster s ls" "c \<le> s" "s < 64"
  shows "branch_root H p c s r (branch_neighbors H (nib p s) (roots H ls s)) =
      Ok (node_with H ls p c s r)"
    and "validate_neighbors (branch_neighbors H (nib p s) (roots H ls s)) = Ok ()"
  using merkle_16_neighbors [OF assms(1) nib_less length_roots, of H ls s]
    length_roots_mem [OF assms(1,2,4)] assms(3,4)
  by (simp_all add: branch_root_def node_with_def validate_neighbors_def)

text \<open>
  What one proof step at the split \<open>s\<close> does to the fold of the remaining steps; the second half
  is about the steps of an exclusion proof that do not end it.
\<close>

definition folds :: "(bytes \<Rightarrow> bytes) \<Rightarrow> bytes \<Rightarrow> nat \<Rightarrow> nat \<Rightarrow> (bytes \<Rightarrow> bytes) \<Rightarrow> proof_step \<Rightarrow> bool" where
  "folds H p c s f st \<longleftrightarrow>
    (\<forall>vh steps r. including_root H p vh (s + 1) steps = Ok r \<longrightarrow>
       including_root H p vh c (st # steps) = Ok (f r)) \<and>
    (\<forall>steps r. steps \<noteq> [] \<longrightarrow> excluding_root H p (s + 1) steps = Ok r \<longrightarrow>
       excluding_root H p c (st # steps) = Ok (f r))"

lemma rt_collapse:
  assumes "cluster (s + 1) g" "2 \<le> length g" "c \<le> s" "\<forall>l \<in> set g. agree s p (lf_path l) \<and> nib (lf_path l) s = m"
  obtains t where "s < t" "t < 64" "common_split g (s + 1) = Ok t" "cluster t g"
    "rt H g (s + 1) = combine H (nbs (lf_path (g ! 0)) (s + 1) t) (merkle_16_roots H (roots H g t))"
    "rt H g c = combine H (nbs p c s @ [of_nat m] @ nbs (lf_path (g ! 0)) (s + 1) t)
       (merkle_16_roots H (roots H g t))"
proof -
  obtain t where t: "s + 1 \<le> t" "t < 64" "cluster t g" "differ_at g t"
    using cluster_diverges assms(1,2) by blast
  have g0: "g ! 0 \<in> set g" using assms(2) by (cases g) auto
  have "nbs (lf_path (g ! 0)) c t = nbs p c s @ [of_nat m] @ nbs (lf_path (g ! 0)) (s + 1) t"
    using nbs_step [of c s t "lf_path (g ! 0)"] agree_nbs [of s p "lf_path (g ! 0)" c] assms(3,4) g0 t(1)
    by simp
  moreover have "rt H g c = combine H (nbs (lf_path (g ! 0)) c t) (merkle_16_roots H (roots H g t))"
    using rt_two [OF t(3) _ t(2) t(4) g0, of c H] assms(3) t(1) by (simp add: roots_def)
  moreover have "rt H g (s + 1) =
      combine H (nbs (lf_path (g ! 0)) (s + 1) t) (merkle_16_roots H (roots H g t))"
    using rt_two [OF t(3) t(1) t(2) t(4) g0, of H] by (simp add: roots_def)
  ultimately show ?thesis
    using that t common_split_eq [OF t(3) t(1) t(2) t(4)] by simp
qed

lemma sparse_step:
  assumes "cluster s ls" "c \<le> s" "s < 64" "\<forall>l \<in> set ls. agree s p (lf_path l)"
    and m: "others ls s (nib p s) = [m]"
  shows "\<exists>st. proof_step_for_branch H p c s (nib p s) (groups ls s) = Ok st \<and>
    folds H p c s (node_with H ls p c s) st \<and>
    excluding_root H p c [st] = Ok (rt H (grp ls s m) c)"
proof -
  let ?g = "grp ls s m"
  have mm: "m < 16" "m \<noteq> nib p s" "?g \<noteq> []"
    using others_mem [of m ls s "nib p s"] m by auto
  have um: "unat (of_nat m :: byte) = m" using mm(1) by (simp add: unat_of_nat)
  have psb: "proof_step_for_branch H p c s (nib p s) (groups ls s) =
      sparse_neighbor_step H (s - c) (s + 1) m ?g"
    by (simp add: proof_step_for_branch_def neighbors_eq m)
  note fr = fork_root_sparse [OF m assms(2,3)]
  have cg: "cluster (s + 1) ?g" by (rule cluster_grp [OF assms(1)])
  have ag: "\<forall>l \<in> set ?g. agree s p (lf_path l) \<and> nib (lf_path l) s = m"
    using assms(4) by (simp add: grp_mem)
  show ?thesis
  proof (cases "length ?g = 1")
    case True
    then obtain l where g: "?g = [l]" by (auto simp: length_Suc_conv)
    then have nl: "nib (lf_path l) s = m" using ag by simp
    have "leaf_neighbor (lf_path l) (lf_value_hash l) s =
        Ok \<lparr> nb_nibble = of_nat m, nb_prefix = sfx (lf_path l) (s + 1), nb_root = lf_value_hash l \<rparr>"
      using assms(3) nl by (simp add: leaf_neighbor_def)
    then show ?thesis
      using assms(2,3) g um psb by (auto simp: sparse_neighbor_step_def folds_def fr)
  next
    case False
    then have "2 \<le> length ?g" using mm(3) by (cases ?g; cases "tl ?g") auto
    then obtain t where t: "s < t" "t < 64" "common_split ?g (s + 1) = Ok t" "cluster t ?g"
      "rt H ?g (s + 1) = combine H (nbs (lf_path (?g ! 0)) (s + 1) t) (merkle_16_roots H (roots H ?g t))"
      "rt H ?g c = combine H (nbs p c s @ [of_nat m] @ nbs (lf_path (?g ! 0)) (s + 1) t)
         (merkle_16_roots H (roots H ?g t))"
      using rt_collapse [OF cg _ assms(2) ag] by blast
    have nw: "\<not> 15 < (of_nat m :: byte)" using um mm(1) by (simp add: word_less_nat_alt)
    have wr: "wrapping_add_usize c (s - c) = s"
      using assms(2,3) by (simp add: wrapping_add_usize_def)
    have pre: "(if 0 < s - c then nibbles p c s else Ok []) = Ok (nbs p c s)"
      using assms(2,3) by (auto simp: nbs_def)
    show ?thesis
      using assms(2,3) False t um nw wr pre psb child_roots_Ok [OF t(4,2), of H]
      by (auto simp: sparse_neighbor_step_def child_groups_Ok folds_def fr roots_def)
  qed
qed

lemma dense_step:
  assumes "hash32 H" "cluster s ls" "c \<le> s" "s < 64" "length (others ls s (nib p s)) \<noteq> 1"
  shows "\<exists>st. proof_step_for_branch H p c s (nib p s) (groups ls s) = Ok st \<and>
    folds H p c s (node_with H ls p c s) st \<and>
    excluding_root H p c [st] = Ok (node_with H ls p c s EMPTY_ROOT)"
proof -
  have "proof_step_for_branch H p c s (nib p s) (groups ls s) =
      Ok (Branch (s - c) (branch_neighbors H (nib p s) (roots H ls s)))"
    using assms(4,5) child_roots_Ok [OF assms(2,4), of H]
    by (simp add: proof_step_for_branch_def neighbors_eq roots_def)
  then show ?thesis
    using assms(3,4) branch_root_dense [OF assms(1-4)] by (auto simp: folds_def)
qed


section \<open>Generated proofs verify\<close>

text \<open>
  The path \<open>p\<close> follows the leaves: wherever at least two leaves share the part of \<open>p\<close> read so far
  and all of them continue with the same nibble, so does \<open>p\<close>.
\<close>

definition follows :: "bytes \<Rightarrow> leaf list \<Rightarrow> bool" where
  "follows p ls \<longleftrightarrow> (\<forall>i < 64.
     let A = filter (\<lambda>l. agree i p (lf_path l)) ls in
     2 \<le> length A \<longrightarrow> \<not> differ_at A i \<longrightarrow> (\<forall>l \<in> set A. nib (lf_path l) i = nib p i))"

definition without :: "bytes \<Rightarrow> leaf list \<Rightarrow> leaf list" where
  "without p ls = filter (\<lambda>l. lf_path l \<noteq> p) ls"

lemma followsD:
  assumes "follows p ls" "i < 64" "2 \<le> length ls" "\<forall>l \<in> set ls. agree i p (lf_path l)" "\<not> differ_at ls i"
  shows "\<forall>l \<in> set ls. agree (Suc i) p (lf_path l)"
proof -
  have "filter (\<lambda>l. agree i p (lf_path l)) ls = ls" using assms(4) by (simp add: filter_id_conv)
  then have "\<forall>l \<in> set ls. nib (lf_path l) i = nib p i"
    using assms unfolding follows_def Let_def by metis
  then show ?thesis using assms(4) by (simp add: agree_Suc)
qed

lemma follows_agree:
  assumes "follows p ls" "cluster s ls" "s \<le> 64" "2 \<le> length ls" "c \<le> s"
    and "\<forall>l \<in> set ls. agree c p (lf_path l)"
  shows "\<forall>l \<in> set ls. agree s p (lf_path l)"
  using assms(5) assms(6)
proof (induction rule: inc_induct)
  case (step n)
  have "\<not> differ_at ls n"
    using assms(2) step.hyps unfolding differ_at_def cluster_def agree_def by blast
  then show ?case
    using step assms(1,3,4) followsD [of p ls n] by auto
qed simp

lemma follows_grp:
  assumes "follows p ls" "\<forall>l \<in> set ls. agree s p (lf_path l)"
  shows "follows p (grp ls s (nib p s))"
  unfolding follows_def Let_def
proof (intro allI impI)
  fix i :: nat
  let ?g = "grp ls s (nib p s)"
  let ?A = "filter (\<lambda>l. agree i p (lf_path l)) ?g"
  assume i: "i < 64" "2 \<le> length ?A" "\<not> differ_at ?A i"
  show "\<forall>l \<in> set ?A. nib (lf_path l) i = nib p i"
  proof (cases "i \<le> s")
    case True
    then show ?thesis using assms(2) by (auto simp: grp_mem agree_def le_less)
  next
    case False
    then have "?A = filter (\<lambda>l. agree i p (lf_path l)) ls"
      by (auto simp: grp_def agree_def intro!: filter_cong)
    then show ?thesis using assms(1) i unfolding follows_def Let_def by metis
  qed
qed

lemma follows_present:
  assumes "l0 \<in> set ls" "lf_path l0 = p"
  shows "follows p ls"
  using assms unfolding follows_def Let_def differ_at_def by fastforce

lemma grp_without: "grp (without p ls) s n = without p (grp ls s n)"
  by (simp add: grp_def without_def conj_commute)

lemma without_other: "n \<noteq> nib p s \<Longrightarrow> without p (grp ls s n) = grp ls s n"
  by (auto simp: grp_def without_def intro!: filter_cong)

lemma grp_Cons: "grp (l # ls) s n = (if nib (lf_path l) s = n then l # grp ls s n else grp ls s n)"
  by (simp add: grp_def)

lemma cluster_without: "cluster c ls \<Longrightarrow> cluster c (without p ls)"
  by (simp add: without_def cluster_filter)

lemma cluster_with:
  assumes "cluster c ls" "length p = 32" "\<forall>l \<in> set ls. agree c p (lf_path l)" "lf_path l0 = p"
  shows "cluster c (l0 # without p ls)"
  using assms agree_sym by (auto simp: cluster_def without_def distinct_map_filter)

text \<open>Replacing the child of \<open>p\<close> in a cluster that still splits at \<open>s\<close>.\<close>

lemma rt_replace:
  assumes "cluster s X" "c \<le> s" "s < 64" "differ_at X s" "\<forall>l \<in> set X. agree s p (lf_path l)"
    and "\<And>n. n < 16 \<Longrightarrow> n \<noteq> nib p s \<Longrightarrow> grp X s n = grp ls s n"
  shows "rt H X c = node_with H ls p c s (rt H (grp X s (nib p s)) (s + 1))"
proof -
  obtain l where l: "l \<in> set X" using assms(4) by (auto simp: differ_at_def)
  have "roots H X s = (roots H ls s)[nib p s := rt H (grp X s (nib p s)) (s + 1)]"
    using assms(6) by (intro nth_equalityI) (auto simp: nth_list_update)
  moreover have "nbs (lf_path l) c s = nbs p c s"
    using assms(5) l by (metis agree_nbs)
  ultimately show ?thesis
    using rt_two [OF assms(1-4) l, of H] by (simp add: node_with_def roots_def)
qed

lemma differ_at_groups:
  assumes "m \<noteq> n" "grp X s m \<noteq> []" "grp X s n \<noteq> []"
  shows "differ_at X s"
proof -
  obtain a b where "a \<in> set (grp X s m)" "b \<in> set (grp X s n)" using assms(2,3) by (meson last_in_set)
  then show ?thesis using assms(1) unfolding differ_at_def grp_mem by blast
qed

lemma others_nonempty: "differ_at ls s \<Longrightarrow> others ls s b \<noteq> []"
proof -
  assume "differ_at ls s"
  then obtain l where l: "l \<in> set ls" "nib (lf_path l) s \<noteq> b"
    unfolding differ_at_def by metis
  then have "l \<in> set (grp ls s (nib (lf_path l) s))" by (simp add: grp_mem)
  then have "nib (lf_path l) s \<in> set (others ls s b)" using l by (auto simp: others_mem)
  then show ?thesis by auto
qed

definition proves :: "(bytes \<Rightarrow> bytes) \<Rightarrow> bytes \<Rightarrow> leaf list \<Rightarrow> nat \<Rightarrow> proof_step list \<Rightarrow> bool" where
  "proves H p ls c pf \<longleftrightarrow>
    (\<forall>l. lf_path l = p \<longrightarrow>
       including_root H p (lf_value_hash l) c pf = Ok (rt H (l # without p ls) c)) \<and>
    excluding_root H p c pf = Ok (rt H (without p ls) c) \<and>
    (pf = [] \<longleftrightarrow> without p ls = [])"

lemma proves_leaf:
  assumes "cluster c [l]" "c \<le> 64" "length p = 32" "agree c p (lf_path l)" "lf_path l \<noteq> p"
  shows "\<exists>pf. proof_for_path H [l] p c = Ok pf \<and> proves H p [l] c pf"
proof -
  define d where "d = (LEAST i. c \<le> i \<and> i < 64 \<and> nib p i \<noteq> nib (lf_path l) i)"
  have ll: "length (lf_path l) = 32" using assms(1) by (simp add: cluster_def)
  then obtain i where "i < 64" "nib p i \<noteq> nib (lf_path l) i" using path_eqI assms(3,5) by metis
  then have "\<exists>i. c \<le> i \<and> i < 64 \<and> nib p i \<noteq> nib (lf_path l) i"
    using assms(4) unfolding agree_def by (meson not_le)
  from LeastI_ex [OF this] have d: "c \<le> d" "d < 64" "nib p d \<noteq> nib (lf_path l) d"
    by (auto simp: d_def)
  have lt: "nib p i = nib (lf_path l) i" if "c \<le> i" "i < d" for i
    using not_less_Least [of i "\<lambda>i. c \<le> i \<and> i < 64 \<and> nib p i \<noteq> nib (lf_path l) i"] that d(2)
    by (auto simp: d_def)
  have ag: "agree d p (lf_path l)" using lt assms(4) unfolding agree_def by (metis not_le)
  have "find (\<lambda>i. nibble p i \<noteq> nibble (lf_path l) i) [c..<64] = Some d"
    unfolding find_Some_iff
    by (rule exI [of _ "d - c"]) (use d lt in auto)
  then have fd: "first_divergence p (lf_path l) c = Ok d" by (simp add: first_divergence_def)
  have "including_root H p (lf_value_hash l0) c [Leaf (d - c) (lf_path l) (lf_value_hash l)] =
      Ok (rt H (l0 # without p [l]) c)" if "lf_path l0 = p" for l0
  proof -
    let ?X = "[l0, l]" and ?m = "nib (lf_path l) d"
    have oX: "others [l] d (nib p d) = [?m]"
      using d(3) filter_single [of hexes ?m] by (simp add: others_def grp_def cong: filter_cong)
    have "rt H ?X c = node_with H [l] p c d (rt H (grp ?X d (nib p d)) (d + 1))"
      using that ll assms(3,5) ag agree_sym d
      by (intro rt_replace) (auto simp: cluster_def differ_at_def grp_def)
    moreover have "grp ?X d (nib p d) = [l0]" using that d(3) by (simp add: grp_def)
    ultimately show ?thesis
      using that assms(5) d fork_root_sparse [OF oX d(1,2)]
      by (simp add: without_def leaf_neighbor_def grp_def)
  qed
  then show ?thesis using fd assms d by (auto simp: proves_def without_def)
qed

lemma proves_node:
  assumes H: "hash32 H" and cl: "cluster s ls" "c \<le> s" "s < 64" "differ_at ls s"
    and p: "length p = 32" "\<forall>l \<in> set ls. agree s p (lf_path l)"
    and sub: "proves H p (grp ls s (nib p s)) (s + 1) pf"
  shows "\<exists>st. proof_step_for_branch H p c s (nib p s) (groups ls s) = Ok st \<and>
    proves H p ls c (st # pf)"
proof -
  let ?b = "nib p s" and ?f = "node_with H ls p c s"
  let ?W = "without p ls" and ?Wb = "without p (grp ls s (nib p s))"
  have keep: "grp ?W s n = grp ls s n" if "n \<noteq> ?b" for n
    using that by (simp add: grp_without without_other)
  have agW: "\<forall>l \<in> set ?W. agree s p (lf_path l)" using p(2) by (simp add: without_def)
  obtain m where m: "m \<in> set (others ls s ?b)"
    using others_nonempty [OF cl(4), of ?b] by (meson last_in_set)
  then have m': "m < 16" "m \<noteq> ?b" "grp ls s m \<noteq> []" by (simp_all add: others_mem)
  have inc: "rt H (l # ?W) c = ?f (rt H (l # ?Wb) (s + 1))" if "lf_path l = p" for l
  proof -
    have "differ_at (l # ?W) s"
      using differ_at_groups [of m ?b "l # ?W" s] m' keep that by (simp add: grp_Cons)
    then show ?thesis
      using rt_replace [of s "l # ?W" c p ls H] cluster_with [OF cl(1) p(1,2) that] cl(2,3) agW keep that
      by (simp add: grp_Cons grp_without)
  qed
  have exc: "rt H ?W c = ?f (rt H ?Wb (s + 1))" if "differ_at ?W s"
    using rt_replace [OF cluster_without [OF cl(1)] cl(2,3) that agW keep] by (simp add: grp_without)
  obtain st where st: "proof_step_for_branch H p c s ?b (groups ls s) = Ok st"
      "folds H p c s ?f st" "excluding_root H p c [st] = Ok (if length (others ls s ?b) = 1 
         then rt H (grp ls s (hd (others ls s ?b))) c else ?f EMPTY_ROOT)"
    using dense_step [OF H cl(1-3)] sparse_step [OF cl(1-3) p(2)]
    by (cases "length (others ls s ?b) = 1") (force simp: length_Suc_conv)+
  have "?W \<noteq> []" using m'(3) keep [OF m'(2)] by (auto simp: grp_def)
  moreover have "excluding_root H p c (st # pf) = Ok (rt H ?W c)"
  proof (cases "pf = []")
    case False
    then have "?Wb \<noteq> []" using sub by (simp add: proves_def)
    then have "differ_at ?W s"
      using differ_at_groups [of m ?b ?W s] m' keep by (simp add: grp_without)
    then show ?thesis using False sub st(2) exc by (simp add: proves_def folds_def)
  next
    case True
    then have Wb: "?Wb = []" using sub by (simp add: proves_def)
    show ?thesis
    proof (cases "length (others ls s ?b) = 1")
      case one: True
      then have om: "others ls s ?b = [m]" using m by (auto simp: length_Suc_conv)
      have "?W = grp ls s m"
        unfolding without_def grp_def
      proof (rule filter_cong [OF refl])
        fix l assume l: "l \<in> set ls"
        then have "lf_path l \<noteq> p \<Longrightarrow> nib (lf_path l) s \<noteq> ?b"
          using Wb by (auto simp: without_def grp_def filter_empty_conv)
        moreover have "nib (lf_path l) s = ?b \<or> nib (lf_path l) s = m"
          using others_single [OF om, of "nib (lf_path l) s"] l by (force simp: grp_def filter_empty_conv)
        ultimately show "(lf_path l \<noteq> p) = (nib (lf_path l) s = m)" using m'(2) by auto
      qed
      then show ?thesis using True st(3) om by simp
    next
      case many: False
      then obtain m2 where "m2 \<in> set (others ls s ?b)" "m2 \<noteq> m"
        using distinct_another [of "others ls s ?b" m] m by (auto simp: others_def)
      then have "differ_at ?W s"
        using differ_at_groups [of m m2 ?W s] m' keep by (simp add: others_mem)
      then show ?thesis using True many st(3) exc Wb by simp
    qed
  qed
  ultimately show ?thesis using st(1,2) sub inc by (auto simp: proves_def folds_def)
qed

theorem proof_for_path_proves:
  assumes "hash32 H" "length p = 32"
  shows "cluster c ls \<Longrightarrow> c \<le> 64 \<Longrightarrow> \<forall>l \<in> set ls. agree c p (lf_path l) \<Longrightarrow> follows p ls \<Longrightarrow>
    \<exists>pf. proof_for_path H ls p c = Ok pf \<and> proves H p ls c pf"
proof (induction "65 - c" arbitrary: c ls rule: less_induct)
  case less
  consider "ls = []" | l where "ls = [l]" | "2 \<le> length ls" by (cases ls; cases "tl ls") auto
  then show ?case
  proof cases
    case 1
    then show ?thesis using less.prems by (simp add: proves_def without_def)
  next
    case (2 l)
    show ?thesis
    proof (cases "lf_path l = p")
      case True
      then show ?thesis using 2 less.prems by (simp add: proves_def without_def)
    next
      case False
      then show ?thesis using 2 less.prems proves_leaf assms(2) by simp
    qed
  next
    case 3
    then obtain s where s: "c \<le> s" "s < 64" "cluster s ls" "differ_at ls s"
      using cluster_diverges less.prems by blast
    let ?g = "grp ls s (nib p s)"
    have ag: "\<forall>l \<in> set ls. agree s p (lf_path l)"
      using follows_agree [OF less.prems(4) s(3) _ 3 s(1)] s(2) less.prems(3) by simp
    have "\<exists>pf. proof_for_path H ?g p (s + 1) = Ok pf \<and> proves H p ?g (s + 1) pf"
      using s ag cluster_grp [OF s(3)] follows_grp [OF less.prems(4) ag]
      by (intro less.hyps) (auto simp: grp_mem agree_Suc)
    then obtain pf where pf: "proof_for_path H ?g p (s + 1) = Ok pf" "proves H p ?g (s + 1) pf"
      by blast
    obtain st where st: "proof_step_for_branch H p c s (nib p s) (groups ls s) = Ok st"
        "proves H p ls c (st # pf)"
      using proves_node [OF assms(1) s(3,1,2,4) assms(2) ag pf(2)] by blast
    obtain a b r where ls: "ls = a # b # r" using 3 by (cases ls; cases "tl ls") auto
    have "proof_for_path H ls p c = Ok (st # pf)"
      using st(1) pf(1) s(2) common_split_eq [OF s(3,1,2,4)]
      by (cases "?g = []") (simp_all add: ls child_groups_Ok)
    then show ?thesis using st(2) by blast
  qed
qed

end
