(* ===== verification/Mpf_Trie.thy ===== *)
theory Mpf_Trie
  imports Mpf_Correct
begin

text \<open>
  The \<open>Trie\<close> of \<open>mpf.rs\<close>: its operations as operations on the map of its leaves, and that the
  verifier's \<open>has\<close>, \<open>miss\<close>, \<open>insert\<close>, \<open>update\<close> and \<open>delete\<close> accept the proofs the trie generates and
  reach the root the trie reaches.  The last sections show what becomes of keys whose path leaves the stored paths, and that over any run of operations
  the trie is the map of its leaves.
\<close>

section \<open>The root depends on the set of leaves only\<close>

lemma cluster_perm: "mset ls = mset ls' \<Longrightarrow> cluster c ls \<Longrightarrow> cluster c ls'"
  unfolding cluster_def by (metis mset_eq_setD mset_map distinct_count_atmost_1)

lemma rt_perm:
  "mset ls = mset ls' \<Longrightarrow> cluster c ls \<Longrightarrow> c \<le> 64 \<Longrightarrow> rt H ls c = rt H ls' c"
proof (induction "65 - c" arbitrary: c ls ls' rule: less_induct)
  case less
  consider "ls = []" | l where "ls = [l]" | "2 \<le> length ls" by (cases ls; cases "tl ls") auto
  then show ?case
  proof cases
    case 3
    then obtain s where s: "c \<le> s" "s < 64" "cluster s ls" "differ_at ls s"
      using cluster_diverges less.prems by blast
    then obtain l where l: "l \<in> set ls" by (auto simp: differ_at_def)
    have set: "set ls' = set ls" using less.prems(1) by (metis mset_eq_setD)
    have "rt H (grp ls s n) (s + 1) = rt H (grp ls' s n) (s + 1)" for n
      using less.prems(1) s cluster_grp [OF s(3)]
      by (intro less.hyps) (auto simp: grp_def)
    moreover have "cluster s ls'" "differ_at ls' s"
      using cluster_perm [OF less.prems(1) s(3)] s(4) set by (auto simp: differ_at_def)
    ultimately show ?thesis
      using rt_two [OF s(3,1,2,4) l] rt_two [of s ls' c l] s(1,2) l set by simp
  qed (use less.prems in auto)
qed


section \<open>The trie\<close>

definition trie_ok :: "(bytes \<Rightarrow> bytes) \<Rightarrow> trie \<Rightarrow> bool" where
  "trie_ok H t \<longleftrightarrow> bt_ok (leaves t) \<and> inj_on H (fst ` set (leaves t))"

definition leaf_of :: "(bytes \<Rightarrow> bytes) \<Rightarrow> bytes \<times> bytes \<Rightarrow> leaf" where
  "leaf_of H e = \<lparr> lf_key = fst e, lf_path = H (fst e), lf_value = snd e, lf_value_hash = H (snd e) \<rparr>"

lemma leaf_of_simps [simp]:
  "lf_path (leaf_of H e) = H (fst e)" "lf_value_hash (leaf_of H e) = H (snd e)"
  by (simp_all add: leaf_of_def)

lemma mpf_leaves_eq: "mpf_leaves H t = map (leaf_of H) (leaves t)"
  by (simp add: mpf_leaves_def leaf_of_def case_prod_beta)

lemma cluster_trie: "hash32 H \<Longrightarrow> trie_ok H t \<Longrightarrow> cluster 0 (mpf_leaves H t)"
  using comp_inj_on [of fst "set (leaves t)" H]
  by (auto simp: cluster_def mpf_leaves_eq trie_ok_def hash32_def agree_def distinct_map o_def
      dest!: bt_ok_distinct)

lemma trie_root_Ok:
  "hash32 H \<Longrightarrow> trie_ok H t \<Longrightarrow> trie_root H t = Ok (rt H (mpf_leaves H t) 0)"
  by (simp add: trie_root_def root_for_Ok cluster_trie)

lemma trie_ok_insert:
  "trie_ok H t \<Longrightarrow> inj_on H (insert k (fst ` set (leaves t))) \<Longrightarrow>
   trie_ok H (t\<lparr> leaves := bt_insert k v (leaves t) \<rparr>)"
  by (simp add: trie_ok_def bt_ok_insert bt_insert_keys)

lemma trie_ok_remove: "trie_ok H t \<Longrightarrow> trie_ok H (t\<lparr> leaves := bt_remove k (leaves t) \<rparr>)"
  by (auto simp: trie_ok_def bt_ok_remove bt_remove_keys intro: inj_on_subset)

text \<open>
  The two folds of a proof generated by the trie: the root with the key bound to a value, and the
  root without the key.
\<close>

lemma trie_proof:
  assumes H: "hash32 H" and t: "trie_ok H t" "inj_on H (insert k (fst ` set (leaves t)))"
    and f: "follows (H k) (mpf_leaves H t)"
  obtains pf where "proof_for_path H (mpf_leaves H t) (H k) 0 = Ok pf"
    "\<And>v. including_root H (H k) (H v) 0 pf = trie_root H (t\<lparr> leaves := bt_insert k v (leaves t) \<rparr>)"
    "excluding_root H (H k) 0 pf = trie_root H (t\<lparr> leaves := bt_remove k (leaves t) \<rparr>)"
proof -
  have "length (H k) = 32" using H by (simp add: hash32_def)
  then obtain pf where pf: "proof_for_path H (mpf_leaves H t) (H k) 0 = Ok pf"
      "proves H (H k) (mpf_leaves H t) 0 pf"
    using proof_for_path_proves [OF H _ cluster_trie [OF H t(1)] _ _ f] by (auto simp: agree_def)
  have wo: "without (H k) (mpf_leaves H t) = map (leaf_of H) (bt_remove k (leaves t))"
    using t(2) by (auto simp: without_def mpf_leaves_eq bt_remove_def filter_map o_def inj_on_def
        intro!: arg_cong [of _ _ "map _"] filter_cong)
  have "including_root H (H k) (H v) 0 pf = trie_root H (t\<lparr> leaves := bt_insert k v (leaves t) \<rparr>)" for v
  proof -
    let ?t = "t\<lparr> leaves := bt_insert k v (leaves t) \<rparr>"
    have "mset (mpf_leaves H ?t) = mset (leaf_of H (k, v) # without (H k) (mpf_leaves H t))"
      using t(1) unfolding wo by (simp add: mpf_leaves_eq trie_ok_def mset_bt_insert)
    then have "rt H (mpf_leaves H ?t) 0 = rt H (leaf_of H (k, v) # without (H k) (mpf_leaves H t)) 0"
      using cluster_trie [OF H trie_ok_insert [OF t]] by (intro rt_perm) auto
    then show ?thesis
      using pf(2) trie_root_Ok [OF H trie_ok_insert [OF t]]
      by (auto simp: proves_def dest!: spec [of _ "leaf_of H (k, v)"])
  qed
  moreover have "excluding_root H (H k) 0 pf = trie_root H (t\<lparr> leaves := bt_remove k (leaves t) \<rparr>)"
    using pf(2) trie_root_Ok [OF H trie_ok_remove [OF t(1)]]
    unfolding proves_def wo by (simp add: mpf_leaves_eq)
  ultimately show ?thesis using that pf(1) by blast
qed

lemma present_follows: "map_of (leaves t) k = Some v \<Longrightarrow> follows (H k) (mpf_leaves H t)"
  by (rule follows_present [of "leaf_of H (k, v)"]) (auto simp: mpf_leaves_eq dest: map_of_SomeD)


definition toy_hash :: "bytes \<Rightarrow> bytes" where
  "toy_hash bs = take 32 (bs @ replicate 32 0)"

lemma hash32_toy: "hash32 toy_hash"
  by (auto simp: hash32_def toy_hash_def)

text \<open>
  The contract of an authenticated map: a map with a root, and for every key it holds a proof from
  which the root follows for any value of the key, and the root without the key.  The account
  store relies on it.
\<close>

locale auth_map =
  fixes ok :: "'t \<Rightarrow> bool"
    and find :: "'t \<Rightarrow> bytes \<Rightarrow> bytes option"
    and root :: "'t \<Rightarrow> ('e, bytes) res"
    and put :: "'t \<Rightarrow> bytes \<Rightarrow> bytes \<Rightarrow> 't"
    and del :: "'t \<Rightarrow> bytes \<Rightarrow> 't"
    and prove :: "'t \<Rightarrow> bytes \<Rightarrow> ('e, 'p) res"
    and inc :: "bytes \<Rightarrow> bytes \<Rightarrow> 'p \<Rightarrow> ('e, bytes) res"
    and exc :: "bytes \<Rightarrow> 'p \<Rightarrow> ('e, bytes) res"
  assumes root_total: "ok t \<Longrightarrow> \<exists>r. root t = Ok r"
    and ok_put: "ok t \<Longrightarrow> find t k = Some v \<Longrightarrow> ok (put t k v')"
    and ok_del: "ok t \<Longrightarrow> ok (del t k)"
    and put_same: "ok t \<Longrightarrow> find t k = Some v \<Longrightarrow> put t k v = t"
    and prove_present: "ok t \<Longrightarrow> find t k = Some v \<Longrightarrow>
      \<exists>pf. prove t k = Ok pf \<and> (\<forall>v'. inc k v' pf = root (put t k v')) \<and> exc k pf = root (del t k)"
begin

lemma proved_value:
  assumes "ok t" "find t k = Some v"
  shows "\<exists>pf r. prove t k = Ok pf \<and> root t = Ok r \<and> inc k v pf = Ok r"
  using prove_present [OF assms] root_total [OF assms(1)] put_same [OF assms] by auto

lemma proved_put:
  assumes "ok t" "find t k = Some v"
  shows "\<exists>pf r r'. prove t k = Ok pf \<and> root t = Ok r \<and> inc k v pf = Ok r \<and>
    root (put t k v') = Ok r' \<and> inc k v' pf = Ok r'"
  using prove_present [OF assms] root_total [OF assms(1)] put_same [OF assms]
    root_total [OF ok_put [OF assms, of v']] by auto

lemma proved_del:
  assumes "ok t" "find t k = Some v"
  shows "\<exists>pf r r'. prove t k = Ok pf \<and> root t = Ok r \<and> inc k v pf = Ok r \<and>
    root (del t k) = Ok r' \<and> exc k pf = Ok r'"
  using prove_present [OF assms] root_total [OF assms(1)] put_same [OF assms]
    root_total [OF ok_del [OF assms(1), of k]] by auto

end

interpretation mpf_map: auth_map
  "\<lambda>t. hash32 H \<and> trie_ok H t"
  "\<lambda>t. map_of (leaves t)"
  "trie_root H"
  "\<lambda>t k v. t\<lparr> leaves := bt_insert k v (leaves t) \<rparr>"
  "\<lambda>t k. t\<lparr> leaves := bt_remove k (leaves t) \<rparr>"
  "proof_for_present H"
  "\<lambda>k v pf. including_root H (H k) (H v) 0 pf"
  "\<lambda>k pf. excluding_root H (H k) 0 pf"
  for H
proof (unfold_locales, goal_cases)
  case (5 t k v)
  then have "inj_on H (insert k (fst ` set (leaves t)))"
    by (simp add: present_keys trie_ok_def)
  from trie_proof [OF _ _ this present_follows [OF 5(2)]] 5(1)
  obtain pf where "proof_for_path H (mpf_leaves H t) (H k) 0 = Ok pf"
    "\<And>v. including_root H (H k) (H v) 0 pf = trie_root H (t\<lparr> leaves := bt_insert k v (leaves t) \<rparr>)"
    "excluding_root H (H k) 0 pf = trie_root H (t\<lparr> leaves := bt_remove k (leaves t) \<rparr>)"
    by blast
  then show ?case using 5(2) by (simp add: proof_for_present_def)
next
  case (2 t k v v')
  then show ?case using trie_ok_insert [of H t k v'] by (simp add: present_keys trie_ok_def)
next
  case (4 t k v)
  then show ?case by (simp add: trie_ok_def bt_insert_same)
qed (auto simp: trie_root_Ok trie_ok_remove)

text \<open>
  C1. A proof generated for a key of the trie is accepted by the verifier against the root of the
  trie: \<open>proof_for_present\<close> and \<open>root\<close> both succeed, and \<open>has\<close> holds of their results with the value the
  trie stores.
\<close>

theorem present_proof_verifies:
  assumes "hash32 H" "trie_ok H t" "map_of (leaves t) k = Some v"
  shows "\<exists>pf r. proof_for_present H t k = Ok pf \<and> trie_root H t = Ok r \<and> has H r k v pf"
  using mpf_map.proved_value [of H t k v] assms by (simp add: has_def)

definition sample_trie :: trie where
  "sample_trie = from_leaves [([0], [7]), ([1], [8]), ([0x20], [9])]"

lemma sample_trie_ok: "trie_ok toy_hash sample_trie"
  by (simp add: trie_ok_def sample_trie_def from_leaves_def bt_ok_def toy_hash_def inj_on_def)

theorem present_proof_verifies_witness:
  "\<exists>pf r. proof_for_present toy_hash sample_trie [1] = Ok pf \<and>
     trie_root toy_hash sample_trie = Ok r \<and> has toy_hash r [1] [8] pf"
  by (rule present_proof_verifies [OF hash32_toy sample_trie_ok])
    (simp add: sample_trie_def from_leaves_def)

text \<open>
  C2. Updating by proof: with a proof generated by the trie for a key it holds, the verifier's
  \<open>update\<close> succeeds on the trie's root and the stored value, and returns the root that \<open>Trie::update\<close>
  returns for the new value.
\<close>

theorem update_by_proof:
  assumes "hash32 H" "trie_ok H t" "map_of (leaves t) k = Some v"
  shows "\<exists>pf r r'. proof_for_present H t k = Ok pf \<and> trie_root H t = Ok r \<and>
    snd (trie_update H t k v') = Ok r' \<and> update_root H r k pf v v' = Ok r'"
  using mpf_map.proved_put [of H t k v v'] assms
  by (auto simp: update_root_def trie_update_def Let_def)

theorem update_by_proof_witness:
  "\<exists>pf r r'. proof_for_present toy_hash sample_trie [1] = Ok pf \<and>
    trie_root toy_hash sample_trie = Ok r \<and>
    snd (trie_update toy_hash sample_trie [1] [5]) = Ok r' \<and>
    update_root toy_hash r [1] pf [8] [5] = Ok r'"
  by (rule update_by_proof [OF hash32_toy sample_trie_ok])
    (simp add: sample_trie_def from_leaves_def)

text \<open>
  C3. Deleting by proof: with a proof generated by the trie for a key it holds, the verifier's
  \<open>delete\<close> succeeds and returns the root that \<open>Trie::delete\<close> returns, including when the node of the
  key collapses because one neighbor remains.
\<close>

theorem delete_by_proof:
  assumes "hash32 H" "trie_ok H t" "map_of (leaves t) k = Some v"
  shows "\<exists>pf r r'. proof_for_present H t k = Ok pf \<and> trie_root H t = Ok r \<and>
    snd (trie_delete H t k) = Ok r' \<and> delete_root H r k v pf = Ok r'"
  using mpf_map.proved_del [of H t k v] assms
  by (auto simp: delete_root_def trie_delete_def Let_def)

theorem delete_by_proof_witness:
  "\<exists>pf r r'. proof_for_present toy_hash sample_trie [1] = Ok pf \<and>
    trie_root toy_hash sample_trie = Ok r \<and>
    snd (trie_delete toy_hash sample_trie [1]) = Ok r' \<and>
    delete_root toy_hash r [1] [8] pf = Ok r'"
  by (rule delete_by_proof [OF hash32_toy sample_trie_ok])
    (simp add: sample_trie_def from_leaves_def)

text \<open>
  C4. Inserting by proof: for a key that the trie does not hold and whose path follows the stored
  paths (it leaves no prefix shared by two or more of them before they split), the generated
  proof shows the key missing under the trie's root, and the verifier's \<open>insert\<close> returns the root
  that \<open>Trie::insert\<close> returns.
\<close>

theorem insert_by_proof:
  assumes "hash32 H" "trie_ok H t" "inj_on H (insert k (fst ` set (leaves t)))"
    and "map_of (leaves t) k = None" "follows (H k) (mpf_leaves H t)"
  shows "\<exists>pf r r'. proof_for_missing H t k = Ok pf \<and> trie_root H t = Ok r \<and> miss H r k pf \<and>
    snd (trie_insert H t k v) = Ok r' \<and> insert_root H r k v pf = Ok r'"
proof -
  from trie_proof [OF assms(1-3,5)] obtain pf where pf:
    "proof_for_path H (mpf_leaves H t) (H k) 0 = Ok pf"
    "\<And>v. including_root H (H k) (H v) 0 pf = trie_root H (t\<lparr> leaves := bt_insert k v (leaves t) \<rparr>)"
    "excluding_root H (H k) 0 pf = trie_root H (t\<lparr> leaves := bt_remove k (leaves t) \<rparr>)"
    by blast
  moreover have "t\<lparr> leaves := bt_remove k (leaves t) \<rparr> = t"
    using assms(4) by (simp add: bt_remove_absent)
  ultimately show ?thesis
    using assms(4) trie_root_Ok [OF assms(1,2)] trie_root_Ok [OF assms(1) trie_ok_insert [OF assms(2,3)]]
    by (simp add: proof_for_missing_def miss_def insert_root_def trie_insert_def Let_def)
qed

lemma differ_at_paths: "map lf_path A = map lf_path A' \<Longrightarrow> differ_at A i \<longleftrightarrow> differ_at A' i"
proof -
  assume "map lf_path A = map lf_path A'"
  then have "lf_path ` set A = lf_path ` set A'" by (metis set_map)
  moreover have d: "differ_at B i \<longleftrightarrow> (\<exists>x \<in> lf_path ` set B. \<exists>y \<in> lf_path ` set B. nib x i \<noteq> nib y i)" for B
    unfolding differ_at_def by blast
  ultimately show ?thesis unfolding d by simp
qed

lemma all_paths: "map lf_path A = map lf_path A' \<Longrightarrow> (\<forall>l \<in> set A. P (lf_path l)) \<longleftrightarrow> (\<forall>l \<in> set A'. P (lf_path l))"
  by (metis (no_types, lifting) imageE image_eqI set_map)

lemma follows_paths:
  assumes "map lf_path ls = map lf_path ls'"
  shows "follows p ls \<longleftrightarrow> follows p ls'"
proof -
  have f: "map lf_path (filter (\<lambda>l. Q (lf_path l)) ls) = map lf_path (filter (\<lambda>l. Q (lf_path l)) ls')" for Q
    using assms by (simp add: filter_map [unfolded comp_def, symmetric])
  have "(\<forall>l \<in> set (filter (\<lambda>l. agree i p (lf_path l)) ls). nib (lf_path l) i = nib p i) \<longleftrightarrow>
      (\<forall>l \<in> set (filter (\<lambda>l. agree i p (lf_path l)) ls'). nib (lf_path l) i = nib p i)" for i
    by (rule all_paths [OF f])
  then show ?thesis unfolding follows_def Let_def using differ_at_paths [OF f] map_eq_imp_length_eq [OF f] by simp
qed

lemma sample_follows: "follows (toy_hash [2]) (mpf_leaves toy_hash sample_trie)"
proof -
  have n: "nib (toy_hash [x]) 0 = unat (x div 16)" "nib (toy_hash [x]) (Suc 0) = unat (x mod 16)" for x
    by (simp_all add: nib_def toy_hash_def)
  have "\<not> agree i (toy_hash [2]) (toy_hash [x])" if "1 < i" "x \<in> {0, 1, 0x20}" for i x
  proof
    assume "agree i (toy_hash [2]) (toy_hash [x])"
    with that(1) have "nib (toy_hash [2]) 0 = nib (toy_hash [x]) 0"
      "nib (toy_hash [2]) 1 = nib (toy_hash [x]) 1" by (simp_all add: agree_def)
    then show False using that(2) by (auto simp: n)
  qed
  then have "filter (\<lambda>l. agree i (toy_hash [2]) (lf_path l)) (mpf_leaves toy_hash sample_trie) = []"
    if "1 < i" for i
    using that by (simp add: mpf_leaves_eq sample_trie_def from_leaves_def)
  moreover have "differ_at (filter (\<lambda>l. agree 0 (toy_hash [2]) (lf_path l)) (mpf_leaves toy_hash sample_trie)) 0"
    by (simp add: mpf_leaves_eq sample_trie_def from_leaves_def agree_def differ_at_def n)
  moreover have "differ_at (filter (\<lambda>l. agree 1 (toy_hash [2]) (lf_path l)) (mpf_leaves toy_hash sample_trie)) 1"
    by (simp add: mpf_leaves_eq sample_trie_def from_leaves_def agree_def differ_at_def n)
  ultimately show ?thesis
    unfolding follows_def Let_def by (metis less_one linorder_neqE_nat list.size(3) not_numeral_le_zero)
qed

theorem insert_by_proof_witness:
  "\<exists>pf r r'. proof_for_missing toy_hash sample_trie [2] = Ok pf \<and>
    trie_root toy_hash sample_trie = Ok r \<and> miss toy_hash r [2] pf \<and>
    snd (trie_insert toy_hash sample_trie [2] [6]) = Ok r' \<and>
    insert_root toy_hash r [2] [6] pf = Ok r'"
  by (rule insert_by_proof [OF hash32_toy sample_trie_ok _ _ sample_follows])
    (simp_all add: sample_trie_def from_leaves_def toy_hash_def inj_on_def)

section \<open>Paths that leave the stored paths\<close>

text \<open>A proof for any path that is not stored: it can always be folded, whether or not it verifies.\<close>

lemma sparse_folds:
  assumes "cluster s ls" "c \<le> s" "s < 64" and m: "others ls s (nib p s) = [m]"
  shows "\<exists>st. proof_step_for_branch H p c s (nib p s) (groups ls s) = Ok st \<and> folds H p c s (node_with H ls p c s) st"
proof -
  let ?g = "grp ls s m"
  have mm: "m < 16" "m \<noteq> nib p s" "?g \<noteq> []" using others_mem [of m ls s "nib p s"] m by auto
  have um: "unat (of_nat m :: byte) = m" using mm(1) by (simp add: unat_of_nat)
  have psb: "proof_step_for_branch H p c s (nib p s) (groups ls s) = sparse_neighbor_step H (s - c) (s + 1) m ?g"
    by (simp add: proof_step_for_branch_def neighbors_eq m)
  note fr = fork_root_sparse [OF m assms(2,3)]
  have cg: "cluster (s + 1) ?g" by (rule cluster_grp [OF assms(1)])
  show ?thesis
  proof (cases "length ?g = 1")
    case True
    then obtain l where g: "?g = [l]" by (auto simp: length_Suc_conv)
    then have "l \<in> set ?g" by simp
    then have nl: "nib (lf_path l) s = m" by (simp add: grp_mem)
    have "leaf_neighbor (lf_path l) (lf_value_hash l) s =
        Ok \<lparr> nb_nibble = of_nat m, nb_prefix = sfx (lf_path l) (s + 1), nb_root = lf_value_hash l \<rparr>"
      using assms(3) nl by (simp add: leaf_neighbor_def)
    then show ?thesis using assms(2,3) g um psb by (auto simp: sparse_neighbor_step_def folds_def fr)
  next
    case False
    then have two: "2 \<le> length ?g" using mm(3) by (cases ?g; cases "tl ?g") auto
    then obtain t where t: "s + 1 \<le> t" "t < 64" "cluster t ?g" "differ_at ?g t" using cluster_diverges cg by blast
    have g0: "?g ! 0 \<in> set ?g" using two by (cases ?g) auto
    have "rt H ?g (s + 1) = combine H (nbs (lf_path (?g ! 0)) (s + 1) t) (merkle_16_roots H (roots H ?g t))"
      using rt_two [OF t(3,1,2,4) g0, of H] by (simp add: roots_def)
    then show ?thesis
      using assms(2,3) False t um psb child_roots_Ok [OF t(3,2), of H] common_split_eq [OF t(3,1,2,4)]
      by (auto simp: sparse_neighbor_step_def child_groups_Ok folds_def fr roots_def)
  qed
qed

lemma length_node_with [simp]: "hash32 H \<Longrightarrow> length (node_with H ls p c s r) = 32"
  by (simp add: node_with_def)

text \<open>Below a split the child of an unstored path is proved first; a step whose child is empty is dense.\<close>

lemma unstored_step:
  assumes H: "hash32 H" and cl: "cluster s ls" "c \<le> s" "s < 64" "differ_at ls s"
  shows "\<exists>st. proof_step_for_branch H p c s (nib p s) (groups ls s) = Ok st \<and> folds H p c s (node_with H ls p c s) st \<and>
    (grp ls s (nib p s) = [] \<longrightarrow> excluding_root H p c [st] = Ok (node_with H ls p c s EMPTY_ROOT))"
proof (cases "length (others ls s (nib p s)) = 1")
  case True
  then obtain m where m: "others ls s (nib p s) = [m]" by (auto simp: length_Suc_conv)
  have "grp ls s (nib p s) \<noteq> []"
  proof
    assume "grp ls s (nib p s) = []"
    then have "grp ls s n = []" if "n < 16" "n \<noteq> m" for n
      using others_single [OF m that(1) _ that(2)] by (cases "n = nib p s") auto
    then have "nib (lf_path l) s = m" if "l \<in> set ls" for l
      using that grp_mem [of l ls s "nib (lf_path l) s"] nib_less [of "lf_path l" s] by (metis empty_iff list.set(1))
    then show False using cl(4) unfolding differ_at_def by metis
  qed
  then show ?thesis using sparse_folds [OF cl(1-3) m] by blast
qed (use dense_step [OF H cl(1-3)] in blast)

lemma leaf_step_includes:
  assumes "find (\<lambda>ix. nibble p ix \<noteq> nibble q ix) [c..<64] = Some a" "c \<le> 64"
  shows "\<exists>r. including_root H p vh c [Leaf (a - c) q v] = Ok r"
proof -
  have a: "c \<le> a" "a < 64" "nibble p a \<noteq> nibble q a" using assms(1) by (auto simp: find_Some_iff)
  then have n: "nib p a \<noteq> nib q a" by simp
  have "nib q a < 256" using nib_less [of q a] by linarith
  then have u: "unat (of_nat (nib q a) :: byte) = nib q a" by (simp add: unat_of_nat)
  have "\<not> 15 < (of_nat (nib q a) :: byte)" 
    using u by (simp add: word_less_nat_alt) (use nib_less [of q a] in linarith)
  then show ?thesis using a n u by (simp add: leaf_neighbor_def fork_root_def Let_def)
qed

lemma unstored_proof:
  assumes H: "hash32 H"
  shows "cluster c ls \<Longrightarrow> c \<le> 64 \<Longrightarrow> p \<notin> lf_path ` set ls \<Longrightarrow>
    case proof_for_path H ls p c of
      Ok pf \<Rightarrow> (\<exists>r. excluding_root H p c pf = Ok r \<and> length r = 32) \<and> (\<exists>r. including_root H p vh c pf = Ok r) \<and> (pf = [] \<longleftrightarrow> ls = [])
    | Err e \<Rightarrow> e = PathExhausted | Panic \<Rightarrow> False"
proof (induction "65 - c" arbitrary: c ls rule: less_induct)
  case less
  consider "ls = []" | l where "ls = [l]" | "2 \<le> length ls" by (cases ls; cases "tl ls") auto
  then show ?case
  proof cases
    case (2 l)
    then show ?thesis using less.prems H leaf_step_includes [of p "lf_path l" c _ H vh "lf_value_hash l"]
      by (cases "find (\<lambda>ix. nibble p ix \<noteq> nibble (lf_path l) ix) [c..<64]") (auto simp: first_divergence_def)
  next
    case 3
    then obtain s where s: "c \<le> s" "s < 64" "cluster s ls" "differ_at ls s" using cluster_diverges less.prems by blast
    let ?g = "grp ls s (nib p s)"
    obtain st where st: "proof_step_for_branch H p c s (nib p s) (groups ls s) = Ok st" "folds H p c s (node_with H ls p c s) st"
      "?g = [] \<longrightarrow> excluding_root H p c [st] = Ok (node_with H ls p c s EMPTY_ROOT)"
      using unstored_step [OF H s(3,1,2,4)] by blast
    have sub: "case proof_for_path H ?g p (s + 1) of
        Ok pf \<Rightarrow> (\<exists>r. excluding_root H p (s + 1) pf = Ok r \<and> length r = 32) \<and> (\<exists>r. including_root H p vh (s + 1) pf = Ok r) \<and> (pf = [] \<longleftrightarrow> ?g = [])
      | Err e \<Rightarrow> e = PathExhausted | Panic \<Rightarrow> False"
      by (rule less.hyps) (use s cluster_grp [OF s(3)] less.prems(3) in \<open>auto simp: grp_mem\<close>)
    obtain a b r where ls: "ls = a # b # r" using 3 by (cases ls; cases "tl ls") auto
    have "proof_for_path H ls p c = (if ?g \<noteq> [] then and_then (proof_for_path H ?g p (s + 1)) (\<lambda>pf. Ok (st # pf)) else Ok [st])"
      using st(1) s(2) common_split_eq [OF s(3,1,2,4)] by (simp add: ls child_groups_Ok)
    then show ?thesis
      using sub st(2,3) H by (cases "proof_for_path H ?g p (s + 1)") (auto simp: folds_def)
  qed (use less.prems in simp)
qed


lemma trie_unstored:
  assumes "inj_on H (insert k (fst ` set (leaves t)))" "map_of (leaves t) k = None"
  shows "H k \<notin> lf_path ` set (mpf_leaves H t)"
  using assms by (force simp: mpf_leaves_eq inj_on_def map_of_eq_None_iff)

text \<open>The root of a trie of at least two leaves, and what a proof for an unstored key folds to: two nodes with prefixes of the same length.\<close>

lemma diverging_nodes:
  assumes H: "hash32 H" and t: "trie_ok H t" "inj_on H (insert k (fst ` set (leaves t)))" "map_of (leaves t) k = None"
    and two: "2 \<le> length (leaves t)" and k0: "k0 \<in> fst ` set (leaves t)"
  obtains s m where "s < 64" "length m = 32" "cluster s (mpf_leaves H t)" "differ_at (mpf_leaves H t) s"
    "trie_root H t = Ok (H (nbs (H k0) 0 s @ m))"
    "case proof_for_missing H t k of
       Ok pf \<Rightarrow> \<exists>m'. length m' = 32 \<and> excluding_root H (H k) 0 pf = Ok (H (nbs (H k) 0 s @ m'))
     | Err e \<Rightarrow> e = PathExhausted | Panic \<Rightarrow> False"
proof -
  let ?ls = "mpf_leaves H t" let ?p = "H k"
  have cl: "cluster 0 ?ls" by (rule cluster_trie [OF H t(1)])
  have l2: "2 \<le> length ?ls" using two by (simp add: mpf_leaves_eq)
  obtain s where s: "0 \<le> s" "s < 64" "cluster s ?ls" "differ_at ?ls s" using cluster_diverges [OF cl l2] by blast
  obtain v0 where "(k0, v0) \<in> set (leaves t)" using k0 by auto
  then have l0: "leaf_of H (k0, v0) \<in> set ?ls" by (simp add: mpf_leaves_eq)
  let ?m = "merkle_16_roots H (roots H ?ls s)"
  have len: "length (merkle_16_roots H rs) = 32" for rs using H by (simp add: merkle_16_roots_def)
  have root: "trie_root H t = Ok (H (nbs (H k0) 0 s @ ?m))"
    using rt_two [OF s(3,1,2,4) l0, of H] trie_root_Ok [OF H t(1)] by (simp add: combine_def roots_def)
  have np: "?p \<notin> lf_path ` set ?ls" by (rule trie_unstored [OF t(2,3)])
  let ?g = "grp ?ls s (nib ?p s)"
  obtain st where st: "proof_step_for_branch H ?p 0 s (nib ?p s) (groups ?ls s) = Ok st" "folds H ?p 0 s (node_with H ?ls ?p 0 s) st"
    "?g = [] \<longrightarrow> excluding_root H ?p 0 [st] = Ok (node_with H ?ls ?p 0 s EMPTY_ROOT)"
    using unstored_step [OF H s(3,1,2,4)] by blast
  have sub: "case proof_for_path H ?g ?p (s + 1) of
      Ok pf \<Rightarrow> (\<exists>r. excluding_root H ?p (s + 1) pf = Ok r \<and> length r = 32) \<and> (\<exists>r. including_root H ?p vh (s + 1) pf = Ok r) \<and> (pf = [] \<longleftrightarrow> ?g = [])
    | Err e \<Rightarrow> e = PathExhausted | Panic \<Rightarrow> False" for vh
    by (rule unstored_proof [OF H]) (use s cluster_grp [OF s(3)] np in \<open>auto simp: grp_mem\<close>)
  obtain a b r where ls: "?ls = a # b # r" using l2 by (cases ?ls; cases "tl ?ls") auto
  have "proof_for_missing H t k = (if ?g \<noteq> [] then and_then (proof_for_path H ?g ?p (s + 1)) (\<lambda>pf. Ok (st # pf)) else Ok [st])"
    using t(3) st(1) s(2) common_split_eq [OF s(3,1,2,4)] by (simp add: proof_for_missing_def ls child_groups_Ok)
  moreover have "\<exists>m'. length m' = 32 \<and> node_with H ?ls ?p 0 s x = H (nbs ?p 0 s @ m')" for x
    using len unfolding node_with_def combine_def by blast
  ultimately have "case proof_for_missing H t k of
       Ok pf \<Rightarrow> \<exists>m'. length m' = 32 \<and> excluding_root H ?p 0 pf = Ok (H (nbs ?p 0 s @ m'))
     | Err e \<Rightarrow> e = PathExhausted | Panic \<Rightarrow> False"
    using sub [of EMPTY_ROOT] st(2,3) by (cases "proof_for_path H ?g ?p (s + 1)") (auto simp: folds_def)
  then show thesis using that [OF s(2) len s(3,4) root] by blast
qed

text \<open>
  C5. A key whose path leaves the prefix that all stored paths share cannot be inserted by its generated proof.  Let the trie hold at least two keys, whose paths
  agree on their first \<open>c\<close> nibbles, and let the path of a missing key differ from them there.  Then the root is the hash of a node that starts with
  \<open>n \<ge> c\<close> nibbles of the stored paths, a generated proof folds to the hash of a node of the same length that starts with
  \<open>n\<close> nibbles of the key, and unless the hash collides on these two different nodes, \<open>miss\<close> does not hold and \<open>insert\<close> answers
  \<open>InvalidProof\<close>.  The only other outcome is that no proof is generated.
\<close>

theorem diverging_key_proof_rejected:
  assumes "hash32 H" "trie_ok H t" "inj_on H (insert k (fst ` set (leaves t)))" "map_of (leaves t) k = None"
    and "2 \<le> length (leaves t)" "\<forall>k1 \<in> fst ` set (leaves t). \<forall>k2 \<in> fst ` set (leaves t). agree c (H k1) (H k2)"
    and "k0 \<in> fst ` set (leaves t)" "\<not> agree c (H k) (H k0)"
  shows "\<exists>n m. c \<le> n \<and> trie_root H t = Ok (H (nbs (H k0) 0 n @ m)) \<and> nbs (H k) 0 n \<noteq> nbs (H k0) 0 n \<and>
    (case proof_for_missing H t k of
       Ok pf \<Rightarrow> \<exists>m'. length m' = length m \<and> excluding_root H (H k) 0 pf = Ok (H (nbs (H k) 0 n @ m')) \<and>
         (H (nbs (H k) 0 n @ m') \<noteq> H (nbs (H k0) 0 n @ m) \<longrightarrow>
           \<not> miss H (H (nbs (H k0) 0 n @ m)) k pf \<and> insert_root H (H (nbs (H k0) 0 n @ m)) k v pf = Err InvalidProof)
     | Err e \<Rightarrow> e = PathExhausted | Panic \<Rightarrow> False)"
proof -
  obtain s m where s: "length m = 32" "differ_at (mpf_leaves H t) s" "trie_root H t = Ok (H (nbs (H k0) 0 s @ m))"
    "case proof_for_missing H t k of
       Ok pf \<Rightarrow> \<exists>m'. length m' = 32 \<and> excluding_root H (H k) 0 pf = Ok (H (nbs (H k) 0 s @ m'))
     | Err e \<Rightarrow> e = PathExhausted | Panic \<Rightarrow> False"
    by (rule diverging_nodes [OF assms(1-5,7)])
  have cs: "c \<le> s"
  proof (rule ccontr)
    assume "\<not> c \<le> s"
    then show False using s(2) assms(6) unfolding differ_at_def agree_def by (fastforce simp: mpf_leaves_eq)
  qed
  obtain i where i: "i < c" "nib (H k) i \<noteq> nib (H k0) i" using assms(8) by (auto simp: agree_def)
  have "nbs (H k) 0 s \<noteq> nbs (H k0) 0 s"
  proof
    assume "nbs (H k) 0 s = nbs (H k0) 0 s"
    then have "nbs (H k) 0 s ! i = nbs (H k0) 0 s ! i" by simp
    then have "unat (nbs (H k) 0 s ! i) = unat (nbs (H k0) 0 s ! i)" by simp
    then show False using i cs by (simp add: nbs_def)
  qed
  then show ?thesis using cs s
    by (intro exI [of _ s] exI [of _ m]) (auto simp: miss_def insert_root_def split: res.splits)
qed

definition diverging_trie :: trie where
  "diverging_trie = from_leaves [([0], [7]), ([1], [8])]"

theorem diverging_key_proof_rejected_witness:
  "\<exists>pf r. proof_for_missing toy_hash diverging_trie [0x10, 0xff] = Ok pf \<and> trie_root toy_hash diverging_trie = Ok r \<and>
     insert_root toy_hash r [0x10, 0xff] [9] pf = Err InvalidProof"
proof -
  let ?k = "[0x10, 0xff] :: bytes"
  have "\<exists>n m. 1 \<le> n \<and> trie_root toy_hash diverging_trie = Ok (toy_hash (nbs (toy_hash [0]) 0 n @ m)) \<and> nbs (toy_hash ?k) 0 n \<noteq> nbs (toy_hash [0]) 0 n \<and>
    (case proof_for_missing toy_hash diverging_trie ?k of
       Ok pf \<Rightarrow> \<exists>m'. length m' = length m \<and> excluding_root toy_hash (toy_hash ?k) 0 pf = Ok (toy_hash (nbs (toy_hash ?k) 0 n @ m')) \<and>
         (toy_hash (nbs (toy_hash ?k) 0 n @ m') \<noteq> toy_hash (nbs (toy_hash [0]) 0 n @ m) \<longrightarrow>
           \<not> miss toy_hash (toy_hash (nbs (toy_hash [0]) 0 n @ m)) ?k pf \<and>
           insert_root toy_hash (toy_hash (nbs (toy_hash [0]) 0 n @ m)) ?k [9] pf = Err InvalidProof)
     | Err e \<Rightarrow> e = PathExhausted | Panic \<Rightarrow> False)"
    by (rule diverging_key_proof_rejected [OF hash32_toy])
      (simp_all add: diverging_trie_def trie_ok_def from_leaves_def bt_ok_def inj_on_def agree_def toy_hash_def nib_def)
  moreover have "case (proof_for_missing toy_hash diverging_trie ?k, trie_root toy_hash diverging_trie) of
      (Ok pf, Ok r) \<Rightarrow> excluding_root toy_hash (toy_hash ?k) 0 pf \<noteq> Ok r | _ \<Rightarrow> False"
    unfolding diverging_trie_def by code_simp
  ultimately show ?thesis by (auto split: res.splits)
qed


section \<open>Runs of a trie\<close>

datatype trie_op = Insert_op bytes bytes | Update_op bytes bytes | Delete_op bytes

primrec op_key :: "trie_op \<Rightarrow> bytes" where
  "op_key (Insert_op k v) = k"
| "op_key (Update_op k v) = k"
| "op_key (Delete_op k) = k"

primrec trie_apply :: "(bytes \<Rightarrow> bytes) \<Rightarrow> trie \<Rightarrow> trie_op \<Rightarrow> trie \<times> (mpf_error, bytes) res" where
  "trie_apply H t (Insert_op k v) = trie_insert H t k v"
| "trie_apply H t (Update_op k v) = trie_update H t k v"
| "trie_apply H t (Delete_op k) = trie_delete H t k"

primrec trie_run :: "(bytes \<Rightarrow> bytes) \<Rightarrow> trie \<Rightarrow> trie_op list \<Rightarrow> (trie \<times> (mpf_error, bytes) res) list" where
  "trie_run H t [] = []"
| "trie_run H t (q # qs) = trie_apply H t q # trie_run H (fst (trie_apply H t q)) qs"

text \<open>The specification: the same operations on a partial map.\<close>

primrec map_apply :: "(bytes \<rightharpoonup> bytes) \<Rightarrow> trie_op \<Rightarrow> (bytes \<rightharpoonup> bytes) \<times> mpf_error option" where
  "map_apply m (Insert_op k v) = (if m k = None then (m(k \<mapsto> v), None) else (m, Some ExistingKey))"
| "map_apply m (Update_op k v) = (if m k = None then (m, Some MissingKey) else (m(k \<mapsto> v), None))"
| "map_apply m (Delete_op k) = (if m k = None then (m, Some MissingKey) else (m(k := None), None))"

primrec map_run :: "(bytes \<rightharpoonup> bytes) \<Rightarrow> trie_op list \<Rightarrow> ((bytes \<rightharpoonup> bytes) \<times> mpf_error option) list" where
  "map_run m [] = []"
| "map_run m (q # qs) = map_apply m q # map_run (fst (map_apply m q)) qs"

definition implements :: "(bytes \<Rightarrow> bytes) \<Rightarrow> trie \<times> (mpf_error, bytes) res \<Rightarrow> (bytes \<rightharpoonup> bytes) \<times> mpf_error option \<Rightarrow> bool" where
  "implements H c a \<longleftrightarrow> trie_ok H (fst c) \<and> map_of (leaves (fst c)) = fst a \<and>
    (case snd a of None \<Rightarrow> snd c = trie_root H (fst c) \<and> (\<exists>r. snd c = Ok r) | Some e \<Rightarrow> snd c = Err e)"

lemma trie_apply_implements:
  assumes "hash32 H" "trie_ok H t" "inj_on H (insert (op_key q) (fst ` set (leaves t)))"
  shows "implements H (trie_apply H t q) (map_apply (map_of (leaves t)) q)"
  using trie_root_Ok [OF assms(1) trie_ok_insert [OF assms(2,3)]] trie_ok_insert [OF assms(2,3)]
    trie_root_Ok [OF assms(1) trie_ok_remove [OF assms(2)]] trie_ok_remove [OF assms(2)] assms(2)
  by (cases q) (auto simp: implements_def trie_insert_def trie_update_def trie_delete_def Let_def map_of_bt_insert
      map_of_bt_remove split: option.splits)

lemma trie_apply_keys:
  assumes "trie_ok H t" "trie_ok H (fst (trie_apply H t q))"
  shows "fst ` set (leaves (fst (trie_apply H t q))) \<subseteq> insert (op_key q) (fst ` set (leaves t))"
proof -
  have "dom (map_of (leaves (fst (trie_apply H t q)))) \<subseteq> insert (op_key q) (dom (map_of (leaves t)))"
    using assms(1) by (cases q) (auto simp: trie_insert_def trie_update_def trie_delete_def Let_def trie_ok_def map_of_bt_insert
      map_of_bt_remove split: option.splits if_splits)
  then show ?thesis by (simp add: dom_map_of_conv_image_fst)
qed

lemma trie_run_implements:
  assumes "hash32 H"
  shows "trie_ok H t \<Longrightarrow> inj_on H (op_key ` set qs \<union> fst ` set (leaves t)) \<Longrightarrow>
    list_all2 (implements H) (trie_run H t qs) (map_run (map_of (leaves t)) qs)"
proof (induction qs arbitrary: t)
  case (Cons q qs)
  let ?t = "fst (trie_apply H t q)"
  have imp: "implements H (trie_apply H t q) (map_apply (map_of (leaves t)) q)"
    by (rule trie_apply_implements [OF assms Cons.prems(1) inj_on_subset [OF Cons.prems(2)]]) auto
  then have ok: "trie_ok H ?t" and m: "map_of (leaves ?t) = fst (map_apply (map_of (leaves t)) q)"
    by (simp_all add: implements_def)
  have "inj_on H (op_key ` set qs \<union> fst ` set (leaves ?t))"
    by (rule inj_on_subset [OF Cons.prems(2)]) (use trie_apply_keys [OF Cons.prems(1) ok] in auto)
  then show ?case using Cons.IH [OF ok] imp m by simp
qed simp

lemma list_all2_in_set1: "list_all2 P xs ys \<Longrightarrow> x \<in> set xs \<Longrightarrow> \<exists>y. P x y"
  by (auto simp: list_all2_conv_all_nth in_set_conv_nth)

lemma trie_ok_empty: "trie_ok H trie_empty"
  by (simp add: trie_ok_def trie_empty_def)

text \<open>
  C6. The trie is the map of its leaves, over every sequence of operations from the empty trie on keys that the hash keeps apart: each \<open>insert\<close>, \<open>update\<close> and
  \<open>delete\<close> answers and changes the trie as the same operation on a partial map (a present key is refused with \<open>ExistingKey\<close>, an absent one with
  \<open>MissingKey\<close>, and a refused call changes nothing), keeps the trie well formed, and when accepted returns the root of the new trie.
  The trie depends on the map only, not on the history: two tries reached by any two sequences that hold the same map are equal, so they have the same root.
\<close>

theorem trie_operations_refine_map:
  assumes "hash32 H" "inj_on H (op_key ` (set qs \<union> set qs'))"
  shows "list_all2 (implements H) (trie_run H trie_empty qs) (map_run Map.empty qs) \<and>
    (\<forall>t \<in> fst ` set (trie_run H trie_empty qs). \<forall>t' \<in> fst ` set (trie_run H trie_empty qs').
       map_of (leaves t) = map_of (leaves t') \<longrightarrow> trie_root H t = trie_root H t')"
proof -
  have ok: "inj_on H (op_key ` set q \<union> fst ` set (leaves trie_empty))" if "q = qs \<or> q = qs'" for q
    by (rule inj_on_subset [OF assms(2)]) (use that in \<open>auto simp: trie_empty_def\<close>)
  have imp: "list_all2 (implements H) (trie_run H trie_empty q) (map_run Map.empty q)" if "q = qs \<or> q = qs'" for q
    using trie_run_implements [OF assms(1) trie_ok_empty ok [OF that]] by (simp add: trie_empty_def)
  have bt: "bt_ok (leaves t)" if "q = qs \<or> q = qs'" "t \<in> fst ` set (trie_run H trie_empty q)" for q t
  proof -
    note l = imp [OF that(1)]
    from that(2) obtain c where "c \<in> set (trie_run H trie_empty q)" "t = fst c" by blast
    then show ?thesis using list_all2_in_set1 [OF l] by (auto simp: implements_def trie_ok_def)
  qed
  have "t = t'" if "t \<in> fst ` set (trie_run H trie_empty qs)" "t' \<in> fst ` set (trie_run H trie_empty qs')" "map_of (leaves t) = map_of (leaves t')" for t t'
    using bt_unique [OF bt [of qs] bt [of qs'] that(3)] that(1,2) by simp
  then show ?thesis using imp [of qs] by metis
qed

definition sample_ops :: "trie_op list" where
  "sample_ops = [Insert_op [0] [7], Insert_op [1] [8], Delete_op [0], Insert_op [1] [9], Update_op [0] [5]]"

theorem trie_operations_refine_map_witness:
  "list_all2 (implements toy_hash) (trie_run toy_hash trie_empty sample_ops) (map_run Map.empty sample_ops) \<and>
   trie_root toy_hash (fst (last (trie_run toy_hash trie_empty sample_ops))) = trie_root toy_hash (fst (last (trie_run toy_hash trie_empty [Insert_op [1] [8]])))"
proof -
  have inj: "inj_on toy_hash (op_key ` (set sample_ops \<union> set [Insert_op [1] [8]]))"
    by (simp add: sample_ops_def inj_on_def toy_hash_def)
  have "map_of (leaves (fst (last (trie_run toy_hash trie_empty sample_ops)))) = map_of (leaves (fst (last (trie_run toy_hash trie_empty [Insert_op [1] [8]]))))"
    by (simp add: sample_ops_def trie_empty_def trie_insert_def trie_update_def trie_delete_def Let_def bt_remove_def)
  moreover have "last (trie_run toy_hash trie_empty sample_ops) \<in> set (trie_run toy_hash trie_empty sample_ops)"
    by (rule last_in_set) (simp add: sample_ops_def)
  moreover have "last (trie_run toy_hash trie_empty [Insert_op [1] [8]]) \<in> set (trie_run toy_hash trie_empty [Insert_op [1] [8]])"
    by simp
  ultimately show ?thesis using trie_operations_refine_map [OF hash32_toy inj] by blast
qed

end
