(* ===== verification/Cardano_Base.thy ===== *)
theory Cardano_Base
  imports Prelude "HOL-Library.Product_Lexorder"
begin

text \<open>
  The ledger types of \<open>spectrum-cardano-lib\<close> that the agent computes with: asset names, tokens and
  asset classes with their byte encodings (\<open>lib.rs\<close>), asset amounts in a \<open>Value\<close> (\<open>value.rs\<close>), Plutus
  data and its accessors (\<open>plutus_data.rs\<close>), and the canonical pair of two asset classes
  (\<open>spectrum-offchain-cardano/src/data/pair.rs\<close>).

  Tuple structs are products: \<open>AssetName(u8, [u8; 32])\<close>, \<open>Token(PolicyId, AssetName)\<close>,
  \<open>OutputRef(TransactionHash, u64)\<close>, \<open>PairId(AssetClass, AssetClass)\<close>, with their derived
  lexicographic order.  The encoding hints that cml keeps inside \<open>PlutusData\<close> (indefinite lengths,
  compact tags) are not part of the data; an \<open>Integer\<close> is unbounded.
\<close>

type_synonym u16 = "16 word"
type_synonym i64 = int
type_synonym asset_name = "u8 \<times> bytes"
type_synonym token = "bytes \<times> asset_name"
type_synonym output_ref = "bytes \<times> u64"

datatype asset_class = Native | Token token

type_synonym pair_id = "asset_class \<times> asset_class"


section \<open>Asset names\<close>

definition an_zero :: asset_name where
  "an_zero = (1, replicate 32 0)"

definition padded_bytes :: "asset_name \<Rightarrow> bytes" where
  "padded_bytes an = snd an"

text \<open>\<open>&self.1[0..self.0 as usize]\<close> panics when the recorded length exceeds the 32 bytes.\<close>

definition as_bytes :: "asset_name \<Rightarrow> ('e, bytes) res" where
  "as_bytes an = (if unat (fst an) \<le> length (snd an) then Ok (slice 0 (unat (fst an)) (snd an)) else Panic)"

definition pad32 :: "bytes \<Rightarrow> bytes" where
  "pad32 bs = bs @ replicate (32 - length bs) 0"

text \<open>\<open>AssetName::from_utf8\<close> on the UTF-8 bytes of its argument, for arguments cut on a character boundary.\<close>

definition an_from_utf8 :: "bytes \<Rightarrow> asset_name" where
  "an_from_utf8 tn =
    (let orig_len = length tn;
         tn' = (if orig_len > 32 then slice 0 32 tn else tn)
     in (of_nat orig_len, pad32 tn'))"

definition an_try_from_vec :: "bytes \<Rightarrow> asset_name option" where
  "an_try_from_vec bs = (if length bs > 32 then None else Some (of_nat (length bs), pad32 bs))"

text \<open>Asset names that \<open>try_from\<close> builds: the length, then the name padded with zeros.\<close>

definition an_ok :: "asset_name \<Rightarrow> bool" where
  "an_ok an \<longleftrightarrow> unat (fst an) \<le> 32 \<and> length (snd an) = 32 \<and>
     drop (unat (fst an)) (snd an) = replicate (32 - unat (fst an)) 0"

text \<open>
  The bytes of a name without the bounds check: \<open>as_bytes\<close> slices and panics for a recorded length above 32, where this takes what there is.  It is used
  for names that are \<open>an_ok\<close>, on which both agree.
\<close>

definition an_bytes :: "asset_name \<Rightarrow> bytes" where
  "an_bytes an = take (unat (fst an)) (snd an)"

lemma as_bytes_Ok: "an_ok an \<Longrightarrow> as_bytes an = Ok (an_bytes an)"
  by (simp add: an_ok_def as_bytes_def an_bytes_def slice_def)

lemma an_of_bytes:
  assumes "length bs \<le> 32"
  shows "an_ok (of_nat (length bs), pad32 bs)" "an_bytes (of_nat (length bs), pad32 bs) = bs"
proof -
  have "unat (of_nat (length bs) :: u8) = length bs" using assms by (simp add: unat_of_nat)
  then show "an_ok (of_nat (length bs), pad32 bs)" "an_bytes (of_nat (length bs), pad32 bs) = bs"
    using assms by (simp_all add: an_ok_def an_bytes_def pad32_def)
qed

lemma an_bytes_pad:
  assumes "an_ok an"
  shows "an = (of_nat (length (an_bytes an)), pad32 (an_bytes an))"
proof -
  have "length (an_bytes an) = unat (fst an)" using assms by (simp add: an_ok_def an_bytes_def)
  moreover from this have "pad32 (an_bytes an) = snd an"
    using assms append_take_drop_id [of "unat (fst an)" "snd an"]
    by (simp add: an_ok_def an_bytes_def pad32_def)
  ultimately show ?thesis by (simp add: prod_eq_iff)
qed

lemma an_bytes_inj: "an_ok a \<Longrightarrow> an_ok b \<Longrightarrow> an_bytes a = an_bytes b \<Longrightarrow> a = b"
  using an_bytes_pad by metis

lemma length_an_bytes: "an_ok a \<Longrightarrow> length (an_bytes a) \<le> 32"
  by (simp add: an_ok_def an_bytes_def)

lemma an_try_from_bytes: "an_ok an \<Longrightarrow> an_try_from_vec (an_bytes an) = Some an"
  using an_bytes_pad [of an] length_an_bytes [of an] by (simp add: an_try_from_vec_def not_less)


section \<open>Asset classes\<close>

definition token_ok :: "token \<Rightarrow> bool" where
  "token_ok t \<longleftrightarrow> length (fst t) = 28 \<and> an_ok (snd t)"

fun ac_ok :: "asset_class \<Rightarrow> bool" where
  "ac_ok Native = True"
| "ac_ok (Token t) = token_ok t"

definition is_native :: "asset_class \<Rightarrow> bool" where
  "is_native a = (a = Native)"

fun into_token :: "asset_class \<Rightarrow> token option" where
  "into_token (Token t) = Some t"
| "into_token Native = None"

fun ac_to_bytes :: "asset_class \<Rightarrow> ('e, bytes) res" where
  "ac_to_bytes Native = Ok [0]"
| "ac_to_bytes (Token (pol, an)) = and_then (as_bytes an) (\<lambda>n. Ok (pol @ n))"

text \<open>
  \<open>cml_chain::assets::AssetName::new\<close> accepts at most 32 bytes, and the conversion back to the
  padded form unwraps \<open>try_from\<close>, which then succeeds.
\<close>

definition ac_from_bytes :: "bytes \<Rightarrow> asset_class option" where
  "ac_from_bytes bs =
    (if bs = [0] then Some Native
     else if length bs \<ge> 28 then
       (case an_try_from_vec (drop 28 bs) of
          None \<Rightarrow> None
        | Some an \<Rightarrow> Some (Token (take 28 bs, an)))
     else None)"

definition token_to_array :: "token \<Rightarrow> bytes" where
  "token_to_array t = fst t @ padded_bytes (snd t)"

definition token_from_array :: "bytes \<Rightarrow> ('e, token) res" where
  "token_from_array arr =
    and_then (unwrap (an_try_from_vec (drop 28 arr))) (\<lambda>an. Ok (take 28 arr, an))"

instantiation asset_class :: linorder
begin

fun less_eq_asset_class :: "asset_class \<Rightarrow> asset_class \<Rightarrow> bool" where
  "less_eq_asset_class Native b = True"
| "less_eq_asset_class (Token s) Native = False"
| "less_eq_asset_class (Token s) (Token t) = (s \<le> t)"

definition less_asset_class :: "asset_class \<Rightarrow> asset_class \<Rightarrow> bool" where
  "less_asset_class a b \<longleftrightarrow> a \<le> b \<and> \<not> b \<le> a"

instance
proof
  fix a b c :: asset_class
  show "a < b \<longleftrightarrow> a \<le> b \<and> \<not> b \<le> a" by (rule less_asset_class_def)
  show "a \<le> a" by (cases a) auto
  show "a \<le> b \<Longrightarrow> b \<le> c \<Longrightarrow> a \<le> c" by (cases a; cases b; cases c) auto
  show "a \<le> b \<Longrightarrow> b \<le> a \<Longrightarrow> a = b" by (cases a; cases b) auto
  show "a \<le> b \<or> b \<le> a" by (cases a; cases b) auto
qed

end


section \<open>Canonical pairs\<close>

datatype side = Bid | Ask

fun side_not :: "side \<Rightarrow> side" where
  "side_not Bid = Ask"
| "side_not Ask = Bid"

definition order_canonical :: "asset_class \<Rightarrow> asset_class \<Rightarrow> asset_class list" where
  "order_canonical x y = sort [x, y]"

definition canonical :: "asset_class \<Rightarrow> asset_class \<Rightarrow> pair_id" where
  "canonical x y = (let xs = order_canonical x y in (xs ! 0, xs ! 1))"

definition side_of :: "asset_class \<Rightarrow> asset_class \<Rightarrow> side" where
  "side_of i out = (let xs = order_canonical i out in if xs ! 0 = i then Ask else Bid)"

lemma order_canonical_eq: "order_canonical x y = [min x y, max x y]"
  by (auto simp: order_canonical_def min_def max_def)


section \<open>Values\<close>

text \<open>\<open>Value\<close>: the coin and the bundle of each policy, keyed by the raw asset name.\<close>

record val =
  coin :: u64
  multiasset :: "(bytes, (bytes, u64) hash_map) hash_map"

definition ma_get :: "(bytes, (bytes, u64) hash_map) hash_map \<Rightarrow> bytes \<Rightarrow> bytes \<Rightarrow> u64 option" where
  "ma_get ma pol n = (case map_of ma pol of None \<Rightarrow> None | Some b \<Rightarrow> map_of b n)"

fun amount_of :: "val \<Rightarrow> asset_class \<Rightarrow> u64 option" where
  "amount_of v Native = Some (coin v)"
| "amount_of v (Token (pol, an)) = ma_get (multiasset v) pol (an_bytes an)"

fun sub_unsafe :: "val \<Rightarrow> asset_class \<Rightarrow> u64 \<Rightarrow> val" where
  "sub_unsafe v Native amt = v\<lparr> coin := coin v - amt \<rparr>"
| "sub_unsafe v (Token (pol, an)) amt =
    (case map_of (multiasset v) pol of
       None \<Rightarrow> v
     | Some bundle \<Rightarrow>
         let bundle' = (case map_of bundle (an_bytes an) of
                 None \<Rightarrow> bundle
               | Some value \<Rightarrow> if value > amt then hm_insert (an_bytes an) (value - amt) bundle
                              else hm_remove (an_bytes an) bundle)
         in v\<lparr> multiasset := if bundle' = [] then hm_remove pol (multiasset v)
                             else hm_insert pol bundle' (multiasset v) \<rparr>)"

fun add_unsafe :: "val \<Rightarrow> asset_class \<Rightarrow> u64 \<Rightarrow> val" where
  "add_unsafe v Native amt = v\<lparr> coin := coin v + amt \<rparr>"
| "add_unsafe v (Token (pol, an)) amt =
    (case map_of (multiasset v) pol of
       Some bundle \<Rightarrow>
         v\<lparr> multiasset := hm_insert pol
              (case map_of bundle (an_bytes an) of
                 Some asset \<Rightarrow> hm_insert (an_bytes an) (asset + amt) bundle
               | None \<Rightarrow> hm_insert (an_bytes an) amt bundle) (multiasset v) \<rparr>
     | None \<Rightarrow> v\<lparr> multiasset := hm_insert pol [(an_bytes an, amt)] (multiasset v) \<rparr>)"


section \<open>Plutus data\<close>

datatype plutus_data =
    PConstr u64 "plutus_data list"
  | PMap "(plutus_data \<times> plutus_data) list"
  | PList "plutus_data list"
  | PInteger int
  | PBytes bytes

text \<open>\<open>IntoPlutusData\<close> for the base types.\<close>

definition u64_into_pd :: "u64 \<Rightarrow> plutus_data" where
  "u64_into_pd n = PInteger (uint n)"

definition i64_into_pd :: "i64 \<Rightarrow> plutus_data" where
  "i64_into_pd n = PInteger n"

definition bytes_into_pd :: "bytes \<Rightarrow> plutus_data" where
  "bytes_into_pd bs = PBytes bs"

definition vec_into_pd :: "('a \<Rightarrow> plutus_data) \<Rightarrow> 'a list \<Rightarrow> plutus_data" where
  "vec_into_pd f xs = PList (map f xs)"

text \<open>\<open>PlutusDataExtension\<close>: accessors that fail on another constructor.\<close>

fun into_constr_pd :: "plutus_data \<Rightarrow> (u64 \<times> plutus_data list) option" where
  "into_constr_pd (PConstr alt flds) = Some (alt, flds)"
| "into_constr_pd _ = None"

fun into_bytes :: "plutus_data \<Rightarrow> bytes option" where
  "into_bytes (PBytes bs) = Some bs"
| "into_bytes _ = None"

fun into_u64 :: "plutus_data \<Rightarrow> u64 option" where
  "into_u64 (PInteger n) = (if 0 \<le> n \<and> n < 2 ^ 64 then Some (of_int n) else None)"
| "into_u64 _ = None"

text \<open>\<open>BigInteger::as_int\<close> is outside the sources: the parameter \<open>as_int\<close>.\<close>

fun into_i128 :: "(int \<Rightarrow> int option) \<Rightarrow> plutus_data \<Rightarrow> int option" where
  "into_i128 as_int (PInteger n) = as_int n"
| "into_i128 as_int _ = None"

fun into_vec :: "plutus_data \<Rightarrow> plutus_data list option" where
  "into_vec (PList xs) = Some xs"
| "into_vec _ = None"

text \<open>\<open>take_field\<close> reads a field and leaves a dummy in its place; each field is taken once.\<close>

definition take_field :: "plutus_data list \<Rightarrow> usize \<Rightarrow> plutus_data option" where
  "take_field flds i = (if i < length flds then Some (flds ! i) else None)"

text \<open>\<open>AssetClass::try_from_pd\<close>; \<open>PolicyId::from_raw_bytes\<close> accepts exactly 28 bytes.\<close>

definition ac_try_from_pd :: "plutus_data \<Rightarrow> asset_class option" where
  "ac_try_from_pd data =
    Option.bind (into_constr_pd data) (\<lambda>(alt, flds).
    Option.bind (take_field flds 0) (\<lambda>p.
    Option.bind (into_bytes p) (\<lambda>policy_bytes.
      if policy_bytes = [] then Some Native
      else if length policy_bytes \<noteq> 28 then None
      else Option.bind (take_field flds 1) (\<lambda>n.
        Option.bind (into_bytes n) (\<lambda>nb.
        Option.bind (an_try_from_vec nb) (\<lambda>an. Some (Token (policy_bytes, an))))))))"

definition token_into_pd :: "token \<Rightarrow> ('e, plutus_data) res" where
  "token_into_pd t = and_then (as_bytes (snd t)) (\<lambda>n. Ok (PConstr 0 [PBytes (fst t), PBytes n]))"


section \<open>Properties\<close>

text \<open>
  The byte encoding of an asset class is read back: \<open>to_bytes\<close> succeeds on every well-formed
  asset class and \<open>from_bytes\<close> returns it.
\<close>

theorem asset_class_bytes_roundtrip:
  assumes "ac_ok a"
  shows "\<exists>bs. (ac_to_bytes a :: (unit, bytes) res) = Ok bs \<and> ac_from_bytes bs = Some a"
proof (cases a)
  case Native
  then show ?thesis by (simp add: ac_from_bytes_def)
next
  case (Token t)
  obtain p n where t: "t = (p, n)" by (cases t)
  then have ok: "length p = 28" "an_ok n" using assms Token by (simp_all add: token_ok_def)
  then have "p @ an_bytes n \<noteq> [0]" by (cases p) auto
  then show ?thesis
    using Token t ok by (simp add: as_bytes_Ok ac_from_bytes_def an_try_from_bytes)
qed

definition sample_token :: token where
  "sample_token = (replicate 28 1, 2, [7, 8] @ replicate 30 0)"

lemma sample_token_ok: "token_ok sample_token"
  by (simp add: sample_token_def token_ok_def an_ok_def drop_replicate)

theorem asset_class_bytes_roundtrip_witness:
  "\<exists>bs. (ac_to_bytes (Token sample_token) :: (unit, bytes) res) = Ok bs \<and>
    ac_from_bytes bs = Some (Token sample_token)"
  by (rule asset_class_bytes_roundtrip) (simp add: sample_token_ok)

text \<open>
  The 60-byte form of a token loses the length of the asset name: reading it back gives the
  token only when the name has the full 32 bytes, and otherwise a token with a longer name.
\<close>

theorem token_array_roundtrip_iff_full_name:
  assumes "token_ok t"
  shows "(token_from_array (token_to_array t) :: (unit, token) res) = Ok (fst t, 32, snd (snd t)) \<and>
    ((token_from_array (token_to_array t) :: (unit, token) res) = Ok t \<longleftrightarrow> unat (fst (snd t)) = 32)"
proof -
  obtain p l b where t: "t = (p, l, b)" by (cases t)
  have "length p = 28" "length b = 32" using assms by (simp_all add: t token_ok_def an_ok_def)
  then have "(token_from_array (token_to_array t) :: (unit, token) res) = Ok (p, 32, b)"
    by (simp add: t token_to_array_def token_from_array_def padded_bytes_def an_try_from_vec_def pad32_def)
  moreover have "l = 32 \<longleftrightarrow> unat l = 32" by (simp add: word_unat_eq_iff)
  ultimately show ?thesis by (auto simp: t)
qed

theorem token_array_roundtrip_witness:
  "(token_from_array (token_to_array sample_token) :: (unit, token) res) \<noteq> Ok sample_token"
  using token_array_roundtrip_iff_full_name [OF sample_token_ok] by (simp add: sample_token_def)

text \<open>
  \<open>AssetName::from_utf8\<close> records the length before it truncates: the name it builds from a
  longer string (up to 255 bytes) cannot be read, because \<open>as_bytes\<close> slices past the 32 bytes.
\<close>

theorem from_utf8_long_name_unreadable:
  assumes "32 < length tn" "length tn < 256"
  shows "(as_bytes (an_from_utf8 tn) :: (unit, bytes) res) = Panic"
proof -
  have "unat (of_nat (length tn) :: u8) = length tn" using assms by (simp add: unat_of_nat)
  then show ?thesis using assms by (simp add: an_from_utf8_def as_bytes_def pad32_def Let_def)
qed

theorem from_utf8_long_name_unreadable_witness:
  "(as_bytes (an_from_utf8 (replicate 33 0x61)) :: (unit, bytes) res) = Panic"
  by (rule from_utf8_long_name_unreadable) simp_all

text \<open>
  The canonical pair of two assets does not depend on their order, and the side of a trade is
  opposite to the side of the reverse trade whenever the assets differ.
\<close>

theorem canonical_pair_sides:
  "canonical x y = canonical y x \<and> canonical x y = (min x y, max x y) \<and>
   (side_of y x = (if x = y then Ask else side_not (side_of x y)))"
  by (auto simp: canonical_def side_of_def order_canonical_eq min_def max_def Let_def)


section \<open>Amounts in a value\<close>

lemma hm_insert_not_Nil [simp]: "hm_insert k v m \<noteq> []"
  by (induction k v m rule: hm_insert.induct) auto

lemma hm_remove_Nil: "hm_remove k m = [] \<Longrightarrow> k' \<noteq> k \<Longrightarrow> map_of m k' = None"
  using map_of_hm_remove [of k m] by (metis fun_upd_apply map_of.simps(1))

text \<open>
  \<open>add_unsafe\<close> adds to the amount of one asset and \<open>sub_unsafe\<close> takes from it, removing a token
  whose amount would not stay positive; the amount of every other asset is unchanged.
\<close>

theorem value_updates_one_asset:
  assumes "ac_ok a" "ac_ok b"
  shows "amount_of (add_unsafe v a n) b =
      (if b = a then Some (case amount_of v a of None \<Rightarrow> n | Some m \<Rightarrow> m + n) else amount_of v b) \<and>
    amount_of (sub_unsafe v a n) b =
      (if b = a then (case amount_of v a of
           None \<Rightarrow> None
         | Some m \<Rightarrow> if a = Native \<or> n < m then Some (m - n) else None)
       else amount_of v b)"
proof (cases a)
  case Native
  then show ?thesis by (cases b) auto
next
  case (Token t)
  obtain p an where t: "t = (p, an)" by (cases t)
  show ?thesis
  proof (cases b)
    case Native
    then show ?thesis using Token t by (auto simp: Let_def split: option.splits)
  next
    case (Token u)
    obtain q bn where u: "u = (q, bn)" by (cases u)
    have "an_bytes bn = an_bytes an \<longleftrightarrow> bn = an"
      using assms Token t u \<open>a = Token t\<close> by (auto simp: token_ok_def dest: an_bytes_inj)
    then show ?thesis
      using Token t u \<open>a = Token t\<close>
      by (auto simp: ma_get_def Let_def map_of_hm_insert map_of_hm_remove
          dest: hm_remove_Nil split: option.splits if_splits)
  qed
qed

theorem value_updates_one_asset_witness:
  "amount_of (add_unsafe \<lparr> coin = 5, multiasset = [] \<rparr> (Token sample_token) 9) (Token sample_token) = Some 9"
  using value_updates_one_asset [of "Token sample_token" "Token sample_token" "\<lparr> coin = 5, multiasset = [] \<rparr>" 9]
  by (simp add: sample_token_ok) (simp add: sample_token_def ma_get_def)

end
