(* ===== verification/Green_Order.thy ===== *)
theory Green_Order
  imports Cardano_Base
begin

text \<open>
  The Green order of \<open>bloom-offchain-cardano/src/orders/green.rs\<close>: Aleph account states and
  intentions, the CBOR preimage of an intention's digest and key, the Plutus data that goes on
  chain and its parser, and what a fill does to the intention and to the account.

  \<open>blake2b256\<close>, \<open>blake2b224\<close>, \<open>PlutusData::from_cbor_bytes\<close>, \<open>BigInteger::as_int\<close> and the arithmetic
  of cml's \<open>Value\<close> are outside the sources and are parameters.  An \<open>i64\<close> is an integer kept in its
  range; the casts \<open>u64 as i64\<close> are \<open>sint\<close>.
\<close>

section \<open>Data\<close>

datatype aleph_account_abi = Legacy | Current

datatype green_auth =
    Sig bytes bytes bytes bytes
  | Path bytes

datatype green_order_validation_error =
    InvalidAccountIdLength usize
  | InvalidSecp256k1KeyLength usize
  | InvalidSecp256k1CoKeyLength usize
  | InvalidCompactSignatureLength usize
  | UnsupportedSigUpdateProof usize
  | InvalidOperatorKeyHashLength usize

record aleph_account_state =
  st_abi :: aleph_account_abi
  magic :: bytes
  allowlist :: "bytes list"
  nonce :: "i64 list"
  main_key :: bytes
  co_key :: "bytes option"
  cold_key_hash :: bytes
  store_root :: bytes

datatype aleph_account_action = Delegate u64 | Direct

record aleph_intention =
  abi :: aleph_account_abi
  target_nonce_index :: u16
  target_nonce_value :: u64
  leaving_asset :: asset_class
  leaving_amount :: u64
  arriving_asset :: asset_class
  expected_arriving_amount :: u64
  fee_lovelace :: u64
  operator :: bytes

record aleph_authorized_intention =
  intent :: aleph_intention
  remainder :: u64
  aai_auth :: green_auth

record aleph_batch_redeemer =
  intentions :: "aleph_authorized_intention list"

record green_intention =
  input_asset :: asset_class
  output_asset :: asset_class
  gi_leaving_amount :: u64
  gi_expected_arriving_amount :: u64
  gi_fee_lovelace :: u64
  target_nonce_slot :: u16
  gi_target_nonce_value :: u64
  operator_key_hash :: bytes

record green_order_id =
  goi_account_id :: bytes
  goi_target_nonce_slot :: u16
  goi_target_nonce_value :: u64
  original_intent_digest :: bytes

record green_order =
  go_id :: green_order_id
  go_account_id :: bytes
  intention :: green_intention
  accumulated_output :: u64
  current_remainder :: u64
  go_auth :: green_auth

datatype green_store_planning_error =
    MissingAccount
  | MissingStore
  | RootMismatch bytes bytes
  | ExistingPendingIntent
  | MissingPendingIntent
  | DigestMismatch
  | Unsupported

datatype green_execution_error = NonAdaLeavingAsset | InsufficientAdaOutputForFee


section \<open>Validation\<close>

definition account_id_try_from_slice :: "bytes \<Rightarrow> (green_order_validation_error, bytes) res" where
  "account_id_try_from_slice bs =
    (if length bs = 32 then Ok bs else Err (InvalidAccountIdLength (length bs)))"

definition new_sig ::
  "bytes \<Rightarrow> bytes \<Rightarrow> bytes \<Rightarrow> bytes \<Rightarrow> (green_order_validation_error, green_auth) res" where
  "new_sig prefix postfix signature update_proof =
    (if length signature \<noteq> 64 then Err (InvalidCompactSignatureLength (length signature))
     else if update_proof \<noteq> [] then Err (UnsupportedSigUpdateProof (length update_proof))
     else Ok (Sig prefix postfix signature update_proof))"

definition try_operator_key_hash :: "bytes \<Rightarrow> (green_order_validation_error, bytes) res" where
  "try_operator_key_hash bs =
    (if length bs = 28 then Ok bs else Err (InvalidOperatorKeyHashLength (length bs)))"


section \<open>The account nonce\<close>

definition i64_max :: int where
  "i64_max = 2 ^ 63 - 1"

definition checked_add_i64 :: "i64 \<Rightarrow> i64 \<Rightarrow> i64 option" where
  "checked_add_i64 a b = (if - (2 ^ 63) \<le> a + b \<and> a + b \<le> i64_max then Some (a + b) else None)"

definition with_sig_full_fill_nonce ::
  "aleph_account_state \<Rightarrow> u16 \<Rightarrow> u64 \<Rightarrow> aleph_account_state option" where
  "with_sig_full_fill_nonce s ix v =
    (if st_abi s = Legacy then
       if ix \<noteq> 0 then None
       else case nonce s of
           [] \<Rightarrow> None
         | n # ns \<Rightarrow>
             if n \<noteq> sint v then None
             else case checked_add_i64 n 1 of
                 None \<Rightarrow> None
               | Some n' \<Rightarrow> Some (s\<lparr> nonce := n' # ns \<rparr>)
     else if unat ix < length (nonce s) then
       if nonce s ! unat ix > sint v then None
       else Some (s\<lparr> nonce := (nonce s)[unat ix := sint v] \<rparr>)
     else None)"


section \<open>CBOR\<close>

text \<open>\<open>to_be_bytes\<close> of the low \<open>k\<close> bytes of a number.\<close>

fun be_bytes :: "nat \<Rightarrow> nat \<Rightarrow> bytes" where
  "be_bytes 0 n = []"
| "be_bytes (Suc k) n = be_bytes k (n div 256) @ [of_nat (n mod 256)]"

text \<open>The five head sizes shared by integers (\<open>base = 0\<close>) and byte strings (\<open>base = 0x40\<close>).\<close>

definition cbor_head :: "u8 \<Rightarrow> nat \<Rightarrow> bytes" where
  "cbor_head base n =
    (if n \<le> 23 then [base + of_nat n]
     else if n \<le> 0xff then (base + 0x18) # be_bytes 1 n
     else if n \<le> 0xffff then (base + 0x19) # be_bytes 2 n
     else if n \<le> 0xffffffff then (base + 0x1a) # be_bytes 4 n
     else (base + 0x1b) # be_bytes 8 n)"

definition aiken_uint_cbor :: "u64 \<Rightarrow> bytes" where
  "aiken_uint_cbor value = cbor_head 0 (unat value)"

definition aiken_bytes_cbor :: "bytes \<Rightarrow> bytes" where
  "aiken_bytes_cbor bs = cbor_head 0x40 (length bs) @ bs"

definition aiken_constr0_cbor :: "bytes list \<Rightarrow> bytes" where
  "aiken_constr0_cbor flds = [0xd8, 0x79, 0x9f] @ concat flds @ [0xff]"

definition aiken_tuple2_cbor :: "bytes list \<Rightarrow> bytes" where
  "aiken_tuple2_cbor flds = [0x9f] @ concat flds @ [0xff]"

fun asset_class_aiken_cbor :: "asset_class \<Rightarrow> bytes" where
  "asset_class_aiken_cbor Native = aiken_tuple2_cbor [aiken_bytes_cbor [], aiken_bytes_cbor []]"
| "asset_class_aiken_cbor (Token (policy, asset_name)) =
    aiken_tuple2_cbor [aiken_bytes_cbor policy, aiken_bytes_cbor (an_bytes asset_name)]"

definition aleph_intent_key :: "u16 \<Rightarrow> u64 \<Rightarrow> bytes" where
  "aleph_intent_key ix v = aiken_tuple2_cbor [aiken_uint_cbor (ucast ix), aiken_uint_cbor v]"

definition aleph_legacy_intent_key :: "u64 \<Rightarrow> bytes" where
  "aleph_legacy_intent_key v = aiken_uint_cbor v"

definition intent_key :: "aleph_intention \<Rightarrow> bytes" where
  "intent_key i = (case abi i of
      Legacy \<Rightarrow> aleph_legacy_intent_key (target_nonce_value i)
    | Current \<Rightarrow> aleph_intent_key (target_nonce_index i) (target_nonce_value i))"

definition aiken_cbor :: "aleph_intention \<Rightarrow> bytes" where
  "aiken_cbor i =
    (let nonce_cbor = (case abi i of
           Legacy \<Rightarrow> aiken_uint_cbor (target_nonce_value i)
         | Current \<Rightarrow> aiken_tuple2_cbor
             [aiken_uint_cbor (ucast (target_nonce_index i)), aiken_uint_cbor (target_nonce_value i)])
     in aiken_constr0_cbor
       [nonce_cbor,
        asset_class_aiken_cbor (leaving_asset i),
        aiken_uint_cbor (leaving_amount i),
        asset_class_aiken_cbor (arriving_asset i),
        aiken_uint_cbor (expected_arriving_amount i),
        aiken_uint_cbor (fee_lovelace i),
        aiken_bytes_cbor (operator i)])"

definition digest :: "(bytes \<Rightarrow> bytes) \<Rightarrow> aleph_intention \<Rightarrow> bytes" where
  "digest H i = H (aiken_cbor i)"


section \<open>Fills\<close>

definition remaining_after_fill :: "aleph_intention \<Rightarrow> u64 \<Rightarrow> u64 \<Rightarrow> aleph_intention option" where
  "remaining_after_fill i consumed added =
    Option.bind (checked_sub (leaving_amount i) consumed) (\<lambda>leaving_remainder.
      if leaving_remainder = 0 then None
      else Option.bind (checked_mul leaving_remainder (fee_lovelace i)) (\<lambda>m.
        Option.bind (if leaving_amount i = 0 then None else Some (m div leaving_amount i))
          (\<lambda>fee_remainder.
        Option.bind (checked_sub (expected_arriving_amount i) added) (\<lambda>expected.
          Some (i\<lparr> leaving_amount := leaving_remainder,
                   expected_arriving_amount := expected,
                   fee_lovelace := fee_remainder \<rparr>)))))"

definition go_aleph_intention :: "green_order \<Rightarrow> aleph_intention" where
  "go_aleph_intention o' = (let g = intention o' in
    \<lparr> abi = Current,
      target_nonce_index = target_nonce_slot g,
      target_nonce_value = gi_target_nonce_value g,
      leaving_asset = input_asset g,
      leaving_amount = gi_leaving_amount g,
      arriving_asset = output_asset g,
      expected_arriving_amount = gi_expected_arriving_amount g,
      fee_lovelace = gi_fee_lovelace g,
      operator = operator_key_hash g \<rparr>)"

definition utf8_green_order :: bytes where
  "utf8_green_order = [0x67, 0x72, 0x65, 0x65, 0x6e, 0x2d, 0x6f, 0x72, 0x64, 0x65, 0x72]"

definition goi_stable_token :: "(bytes \<Rightarrow> bytes) \<Rightarrow> green_order_id \<Rightarrow> token" where
  "goi_stable_token H224 i =
    (H224 (goi_account_id i @ be_bytes 2 (unat (goi_target_nonce_slot i)) @
           be_bytes 8 (unat (goi_target_nonce_value i)) @ original_intent_digest i),
     an_from_utf8 utf8_green_order)"

text \<open>
  \<open>TransactionOutput::sub_asset\<close> and \<open>add_asset\<close>: cml's \<open>Value::checked_sub\<close> and \<open>checked_add\<close> (the
  parameters \<open>vsub\<close> and \<open>vadd\<close>) with the value of one asset, unwrapped.
\<close>

fun into_value :: "asset_class \<Rightarrow> u64 \<Rightarrow> val" where
  "into_value Native amount = \<lparr> coin = amount, multiasset = [] \<rparr>"
| "into_value (Token (policy, an)) amount =
    \<lparr> coin = 0, multiasset = [(policy, [(an_bytes an, amount)])] \<rparr>"

definition sub_asset ::
  "(val \<Rightarrow> val \<Rightarrow> val option) \<Rightarrow> val \<Rightarrow> asset_class \<Rightarrow> u64 \<Rightarrow> (green_execution_error, val) res" where
  "sub_asset vsub v a amount = unwrap (vsub v (into_value a amount))"

definition add_asset ::
  "(val \<Rightarrow> val \<Rightarrow> val option) \<Rightarrow> val \<Rightarrow> asset_class \<Rightarrow> u64 \<Rightarrow> (green_execution_error, val) res" where
  "add_asset vadd v a amount = unwrap (vadd v (into_value a amount))"

text \<open>The output's value after the call; on an error the caller drops the output.\<close>

definition apply_full_fill_to_account_output ::
  "(val \<Rightarrow> val \<Rightarrow> val option) \<Rightarrow> (val \<Rightarrow> val \<Rightarrow> val option) \<Rightarrow>
   val \<Rightarrow> green_order \<Rightarrow> u64 \<Rightarrow> u64 \<Rightarrow> u64 \<Rightarrow> (green_execution_error, val) res" where
  "apply_full_fill_to_account_output vsub vadd output order removed_input added_output consumed_fee =
    (if input_asset (intention order) \<noteq> Native then Err NonAdaLeavingAsset
     else and_then (sub_asset vsub output Native (removed_input + consumed_fee)) (\<lambda>output'.
       if output_asset (intention order) = Native then
         and_then (ok_or (checked_sub added_output consumed_fee) InsufficientAdaOutputForFee) (\<lambda>net_output.
           add_asset vadd output' Native net_output)
       else add_asset vadd output' (output_asset (intention order)) added_output))"


section \<open>Plutus data\<close>

definition aiken_constr :: "u64 \<Rightarrow> plutus_data list \<Rightarrow> plutus_data" where
  "aiken_constr alternative flds = PConstr alternative flds"

definition tuple_pd :: "plutus_data list \<Rightarrow> plutus_data" where
  "tuple_pd flds = PList flds"

fun asset_class_into_pd :: "asset_class \<Rightarrow> plutus_data" where
  "asset_class_into_pd Native = tuple_pd [bytes_into_pd [], bytes_into_pd []]"
| "asset_class_into_pd (Token (policy, an)) = tuple_pd [bytes_into_pd policy, bytes_into_pd (an_bytes an)]"

definition proof_plutus_data :: "(bytes \<Rightarrow> plutus_data option) \<Rightarrow> bytes \<Rightarrow> ('e, plutus_data) res" where
  "proof_plutus_data from_cbor p = (if p = [] then Ok (PList []) else unwrap (from_cbor p))"

fun green_auth_into_pd :: "(bytes \<Rightarrow> plutus_data option) \<Rightarrow> green_auth \<Rightarrow> ('e, plutus_data) res" where
  "green_auth_into_pd from_cbor (Path p) =
    and_then (proof_plutus_data from_cbor p) (\<lambda>d. Ok (aiken_constr 0 [d]))"
| "green_auth_into_pd from_cbor (Sig prefix postfix signature update_proof) =
    and_then (proof_plutus_data from_cbor update_proof) (\<lambda>d.
      Ok (aiken_constr 1 [bytes_into_pd prefix, bytes_into_pd postfix, bytes_into_pd signature, d]))"

definition account_state_into_pd :: "aleph_account_state \<Rightarrow> ('e, plutus_data) res" where
  "account_state_into_pd s =
    (if st_abi s = Legacy then
       (case nonce s of
          [] \<Rightarrow> Panic
        | n # _ \<Rightarrow> Ok (aiken_constr 0
            [bytes_into_pd (magic s), i64_into_pd n, bytes_into_pd (main_key s), bytes_into_pd (store_root s)]))
     else
       let co_key_pd = (case co_key s of None \<Rightarrow> PList [] | Some k \<Rightarrow> bytes_into_pd k) in
       Ok (aiken_constr 0
         [bytes_into_pd (magic s),
          vec_into_pd bytes_into_pd (allowlist s),
          vec_into_pd i64_into_pd (nonce s),
          tuple_pd [bytes_into_pd (main_key s), co_key_pd],
          bytes_into_pd (cold_key_hash s),
          bytes_into_pd (store_root s)]))"

fun account_action_into_pd :: "aleph_account_action \<Rightarrow> plutus_data" where
  "account_action_into_pd (Delegate delegate_index) = aiken_constr 0 [u64_into_pd delegate_index]"
| "account_action_into_pd Direct = aiken_constr 1 []"

definition intention_into_pd :: "aleph_intention \<Rightarrow> plutus_data" where
  "intention_into_pd i =
    (let nonce_pd = (case abi i of
           Legacy \<Rightarrow> u64_into_pd (target_nonce_value i)
         | Current \<Rightarrow> tuple_pd [u64_into_pd (ucast (target_nonce_index i)), u64_into_pd (target_nonce_value i)])
     in aiken_constr 0
       [nonce_pd,
        asset_class_into_pd (leaving_asset i),
        u64_into_pd (leaving_amount i),
        asset_class_into_pd (arriving_asset i),
        u64_into_pd (expected_arriving_amount i),
        u64_into_pd (fee_lovelace i),
        bytes_into_pd (operator i)])"

definition authorized_intention_into_pd ::
  "(bytes \<Rightarrow> plutus_data option) \<Rightarrow> aleph_authorized_intention \<Rightarrow> ('e, plutus_data) res" where
  "authorized_intention_into_pd from_cbor a =
    and_then (green_auth_into_pd from_cbor (aai_auth a)) (\<lambda>d.
      Ok (aiken_constr 0 [intention_into_pd (intent a), u64_into_pd (remainder a), d]))"

definition batch_redeemer_into_pd ::
  "(bytes \<Rightarrow> plutus_data option) \<Rightarrow> aleph_batch_redeemer \<Rightarrow> ('e, plutus_data) res" where
  "batch_redeemer_into_pd from_cbor r =
    and_then (traverse (authorized_intention_into_pd from_cbor) (intentions r)) (\<lambda>ds.
      Ok (aiken_constr 0 [PList ds]))"

text \<open>The parser of an account state.\<close>

definition fixed :: "nat \<Rightarrow> bytes \<Rightarrow> bytes option" where
  "fixed n bs = (if length bs = n then Some bs else None)"

definition field_bytes :: "plutus_data list \<Rightarrow> usize \<Rightarrow> bytes option" where
  "field_bytes flds i = Option.bind (take_field flds i) into_bytes"

definition i64_try_from :: "int \<Rightarrow> i64 option" where
  "i64_try_from n = (if - (2 ^ 63) \<le> n \<and> n \<le> i64_max then Some n else None)"

fun opt_traverse :: "('a \<Rightarrow> 'b option) \<Rightarrow> 'a list \<Rightarrow> 'b list option" where
  "opt_traverse f [] = Some []"
| "opt_traverse f (x # xs) =
    (case f x of None \<Rightarrow> None
     | Some y \<Rightarrow> (case opt_traverse f xs of None \<Rightarrow> None | Some ys \<Rightarrow> Some (y # ys)))"

definition legacy_state_from_fields ::
  "(int \<Rightarrow> int option) \<Rightarrow> plutus_data list \<Rightarrow> aleph_account_state option" where
  "legacy_state_from_fields as_int flds =
    Option.bind (field_bytes flds 0) (\<lambda>m.
    Option.bind (Option.bind (Option.bind (take_field flds 1) (into_i128 as_int)) i64_try_from) (\<lambda>n.
    Option.bind (field_bytes flds 2) (\<lambda>k.
      if length k \<noteq> 33 then None
      else Option.bind (Option.bind (field_bytes flds 3) (fixed 32)) (\<lambda>r.
        Some \<lparr> st_abi = Legacy, magic = m, allowlist = [], nonce = [n], main_key = k, co_key = None,
               cold_key_hash = replicate 28 0, store_root = r \<rparr>))))"

definition co_key_from_pd :: "plutus_data \<Rightarrow> bytes option option" where
  "co_key_from_pd pd =
    (if pd = PList [] then Some None
     else Option.bind (into_bytes pd) (\<lambda>bs. if length bs = 33 then Some (Some bs) else None))"

text \<open>The credential of the current ABI: the main key, the co-key and nothing else.\<close>

definition hot_cred_from_list :: "plutus_data list \<Rightarrow> (bytes \<times> bytes option) option" where
  "hot_cred_from_list hot_cred =
    (case hot_cred of
       [] \<Rightarrow> None
     | mk # rest \<Rightarrow>
         Option.bind (into_bytes mk) (\<lambda>k.
           if length k \<noteq> 33 then None
           else case rest of
               [ck] \<Rightarrow> Option.bind (co_key_from_pd ck) (\<lambda>co. Some (k, co))
             | _ \<Rightarrow> None))"

definition current_state_from_fields ::
  "(int \<Rightarrow> int option) \<Rightarrow> plutus_data list \<Rightarrow> aleph_account_state option" where
  "current_state_from_fields as_int flds =
    Option.bind (field_bytes flds 0) (\<lambda>m.
    Option.bind (Option.bind (Option.bind (take_field flds 1) into_vec)
      (opt_traverse (\<lambda>pd. Option.bind (into_bytes pd) (fixed 28)))) (\<lambda>al.
    Option.bind (Option.bind (Option.bind (take_field flds 2) into_vec)
      (opt_traverse (\<lambda>pd. Option.bind (into_i128 as_int pd) i64_try_from))) (\<lambda>ns.
    Option.bind (Option.bind (Option.bind (take_field flds 3) into_vec) hot_cred_from_list) (\<lambda>(k, co).
    Option.bind (Option.bind (field_bytes flds 4) (fixed 28)) (\<lambda>ch.
    Option.bind (Option.bind (field_bytes flds 5) (fixed 32)) (\<lambda>r.
      Some \<lparr> st_abi = Current, magic = m, allowlist = al, nonce = ns, main_key = k,
             co_key = co, cold_key_hash = ch, store_root = r \<rparr>))))))"

definition account_state_try_from_pd ::
  "(int \<Rightarrow> int option) \<Rightarrow> plutus_data \<Rightarrow> aleph_account_state option" where
  "account_state_try_from_pd as_int data =
    Option.bind (into_constr_pd data) (\<lambda>(alternative, flds).
      if alternative \<noteq> 0 then None
      else if length flds = 4 then legacy_state_from_fields as_int flds
      else if length flds \<noteq> 6 then None
      else current_state_from_fields as_int flds)"

end
