(* ===== verification/Green_Correct.thy ===== *)
theory Green_Correct
  imports Green_Order
begin

text \<open>
  What holds of the definitions of \<open>green.rs\<close>: the CBOR encodings are prefix codes (the contract
  \<open>prefix_code\<close>), so keys and digest preimages identify intentions; account states survive printing
  and parsing; nonces move forward; a fill reduces an intention and moves exactly what was executed.
\<close>

section \<open>Prefix codes\<close>

locale prefix_code =
  fixes enc :: "'a \<Rightarrow> byte list" and ok :: "'a \<Rightarrow> bool"
  assumes decodable: "ok x \<Longrightarrow> ok y \<Longrightarrow> enc x @ r = enc y @ s \<Longrightarrow> x = y \<and> r = s"
begin

lemma enc_inj: "ok x \<Longrightarrow> ok y \<Longrightarrow> enc x = enc y \<Longrightarrow> x = y"
  using decodable [of x y "[]" "[]"] by simp

lemma enc_append_iff: "ok x \<Longrightarrow> ok y \<Longrightarrow> enc x @ r = enc y @ s \<longleftrightarrow> x = y \<and> r = s"
  using decodable [of x y r s] by blast

end

lemma length_be_bytes [simp]: "length (be_bytes k n) = k"
  by (induction k n rule: be_bytes.induct) auto

lemma byte_mod_inj: "(of_nat (n mod 256) :: byte) = of_nat (m mod 256) \<Longrightarrow> n mod 256 = m mod 256"
  by (simp add: of_nat_eq_iff take_bit_eq_mod word_unat_eq_iff unat_of_nat)

lemma be_bytes_inj:
  "n < 256 ^ k \<Longrightarrow> m < 256 ^ k \<Longrightarrow> be_bytes k n = be_bytes k m \<Longrightarrow> n = m"
proof (induction k arbitrary: n m)
  case (Suc k)
  have "n div 256 < 256 ^ k" "m div 256 < 256 ^ k"
    using Suc.prems by (simp_all add: less_mult_imp_div_less mult.commute)
  then have "n div 256 = m div 256" using Suc by simp
  moreover have "n mod 256 = m mod 256" using Suc.prems(3) byte_mod_inj by simp
  ultimately show ?case by (metis div_mult_mod_eq)
qed simp

definition head_class :: "nat \<Rightarrow> nat" where
  "head_class n = (if n \<le> 23 then n else if n \<le> 0xff then 0x18 else if n \<le> 0xffff then 0x19
     else if n \<le> 0xffffffff then 0x1a else 0x1b)"

definition head_size :: "nat \<Rightarrow> nat" where
  "head_size c = (if c \<le> 23 then 0 else if c = 0x18 then 1 else if c = 0x19 then 2 else if c = 0x1a then 4 else 8)"

lemma cbor_head_eq: "cbor_head b n = (b + of_nat (head_class n)) # be_bytes (head_size (head_class n)) n"
  by (simp add: cbor_head_def head_class_def head_size_def)

lemma head_class_less: "head_class n < 32"
  by (simp add: head_class_def)

lemma of_nat_byte_inj: "n < 256 \<Longrightarrow> m < 256 \<Longrightarrow> (of_nat n :: byte) = of_nat m \<Longrightarrow> n = m"
  using byte_mod_inj [of n m] by simp

lemma head_fits: "n < 2 ^ 64 \<Longrightarrow> \<not> n \<le> 23 \<Longrightarrow> n < 256 ^ head_size (head_class n)"
  by (simp add: head_class_def head_size_def)

lemma cbor_head_decodable:
  assumes "n < 2 ^ 64" "m < 2 ^ 64" "cbor_head b n @ r = cbor_head b m @ s"
  shows "n = m \<and> r = s"
proof -
  have "(of_nat (head_class n) :: byte) = of_nat (head_class m)"
    using assms(3) by (simp add: cbor_head_eq)
  then have c: "head_class n = head_class m"
    using head_class_less [of n] head_class_less [of m] by (intro of_nat_byte_inj) auto
  then have tl: "be_bytes (head_size (head_class n)) n = be_bytes (head_size (head_class n)) m" "r = s"
    using assms(3) by (simp_all add: cbor_head_eq)
  have "n = m"
  proof (cases "n \<le> 23 \<or> m \<le> 23")
    case True
    then show ?thesis using c by (auto simp: head_class_def split: if_splits)
  next
    case False
    then show ?thesis
      using be_bytes_inj tl(1) head_fits [of n] head_fits [of m] assms(1,2) c by metis
  qed
  then show ?thesis using tl(2) by simp
qed

interpretation uint_code: prefix_code aiken_uint_cbor "\<lambda>_. True"
proof
  fix x y :: u64 and r s
  assume "aiken_uint_cbor x @ r = aiken_uint_cbor y @ s"
  then have "unat x = unat y \<and> r = s"
    unfolding aiken_uint_cbor_def
    using unsigned_less [of x] unsigned_less [of y] by (intro cbor_head_decodable) auto
  then show "x = y \<and> r = s" by (simp add: word_unat_eq_iff)
qed

interpretation bytes_code: prefix_code aiken_bytes_cbor "\<lambda>bs. length bs < 2 ^ 64"
proof
  fix x y r s :: bytes
  assume a: "length x < 2 ^ 64" "length y < 2 ^ 64" "aiken_bytes_cbor x @ r = aiken_bytes_cbor y @ s"
  then have "length x = length y \<and> x @ r = y @ s"
    unfolding aiken_bytes_cbor_def by (intro cbor_head_decodable) auto
  then show "x = y \<and> r = s" using append_eq_append_conv [of x y r s] by blast
qed

interpretation asset_code: prefix_code asset_class_aiken_cbor ac_ok
proof
  fix x y :: asset_class and r s
  assume a: "ac_ok x" "ac_ok y" "asset_class_aiken_cbor x @ r = asset_class_aiken_cbor y @ s"
  have len: "length p < 2 ^ 64" if "length p \<le> 32" for p :: bytes using that by simp
  define f where "f z = (case z of Native \<Rightarrow> ([], []) | Token (p, n) \<Rightarrow> (p, an_bytes n))" for z
  have enc: "asset_class_aiken_cbor z = aiken_tuple2_cbor [aiken_bytes_cbor (fst (f z)), aiken_bytes_cbor (snd (f z))]" for z
    by (cases z rule: asset_class_aiken_cbor.cases) (simp_all add: f_def)
  have lens: "length (fst (f z)) < 2 ^ 64 \<and> length (snd (f z)) < 2 ^ 64" if "ac_ok z" for z
    using that length_an_bytes by (cases z rule: asset_class_aiken_cbor.cases) (force simp: f_def token_ok_def)+
  have "f x = f y \<and> r = s"
    using a(3) lens [OF a(1)] lens [OF a(2)]
    by (simp add: enc aiken_tuple2_cbor_def bytes_code.enc_append_iff prod_eq_iff)
  moreover have "x = y" if "f x = f y"
    using that a(1,2) an_bytes_inj
    by (cases x rule: asset_class_aiken_cbor.cases; cases y rule: asset_class_aiken_cbor.cases)
      (auto simp: f_def token_ok_def)
  ultimately show "x = y \<and> r = s" by simp
qed

definition intention_ok :: "aleph_intention \<Rightarrow> bool" where
  "intention_ok i \<longleftrightarrow> ac_ok (leaving_asset i) \<and> ac_ok (arriving_asset i) \<and> length (operator i) = 28"

lemma length_lt: "length bs \<le> 32 \<Longrightarrow> length bs < (2 ^ 64 :: nat)" for bs :: bytes
  by simp

lemma uint_not_tuple: "aiken_uint_cbor v @ r \<noteq> 0x9f # s"
proof
  assume "aiken_uint_cbor v @ r = 0x9f # s"
  then have "(of_nat (head_class (unat v)) :: byte) = of_nat 0x9f"
    by (simp add: aiken_uint_cbor_def cbor_head_eq)
  then have "head_class (unat v) = 0x9f"
    using head_class_less [of "unat v"] by (intro of_nat_byte_inj) auto
  then show False using head_class_less [of "unat v"] by simp
qed

lemmas code_iffs = uint_code.enc_append_iff bytes_code.enc_append_iff asset_code.enc_append_iff

lemma unat_u16: "unat (ucast x :: u64) = unat x" for x :: u16
  by transfer simp

lemma ucast_u16_inj: "(ucast x :: u64) = ucast y \<Longrightarrow> x = y" for x y :: u16
  by (simp add: word_unat_eq_iff unat_u16)

definition nonce_code :: "aleph_intention \<Rightarrow> bytes" where
  "nonce_code i = (case abi i of
      Legacy \<Rightarrow> aiken_uint_cbor (target_nonce_value i)
    | Current \<Rightarrow> 0x9f # aiken_uint_cbor (ucast (target_nonce_index i)) @
        aiken_uint_cbor (target_nonce_value i) @ [0xff])"

definition body_code :: "aleph_intention \<Rightarrow> bytes" where
  "body_code i = asset_class_aiken_cbor (leaving_asset i) @ aiken_uint_cbor (leaving_amount i) @
    asset_class_aiken_cbor (arriving_asset i) @ aiken_uint_cbor (expected_arriving_amount i) @
    aiken_uint_cbor (fee_lovelace i) @ aiken_bytes_cbor (operator i) @ [0xff]"

lemma aiken_cbor_split: "aiken_cbor i = [0xd8, 0x79, 0x9f] @ nonce_code i @ body_code i"
  by (simp add: aiken_cbor_def aiken_constr0_cbor_def aiken_tuple2_cbor_def nonce_code_def body_code_def
      split: aleph_account_abi.split)

lemma nonce_code_decodable:
  assumes "nonce_code i @ r = nonce_code j @ s"
  shows "abi i = abi j \<and> target_nonce_value i = target_nonce_value j \<and>
    (abi i = Current \<longrightarrow> target_nonce_index i = target_nonce_index j) \<and> r = s"
proof (cases "abi i"; cases "abi j")
  assume "abi i = Current" "abi j = Current"
  then show ?thesis
    using assms ucast_u16_inj by (auto simp: nonce_code_def uint_code.enc_append_iff)
next
  assume "abi i = Legacy" "abi j = Legacy"
  then show ?thesis using assms by (auto simp: nonce_code_def uint_code.enc_append_iff)
next
  assume "abi i = Legacy" "abi j = Current"
  then show ?thesis using assms uint_not_tuple by (simp add: nonce_code_def)
next
  assume "abi i = Current" "abi j = Legacy"
  then show ?thesis using assms uint_not_tuple by (simp add: nonce_code_def) (metis)
qed

lemma body_code_decodable:
  assumes "intention_ok i" "intention_ok j" "body_code i = body_code j"
  shows "leaving_asset i = leaving_asset j \<and> leaving_amount i = leaving_amount j \<and>
    arriving_asset i = arriving_asset j \<and> expected_arriving_amount i = expected_arriving_amount j \<and>
    fee_lovelace i = fee_lovelace j \<and> operator i = operator j"
proof -
  have "length (operator i) < 2 ^ 64" "length (operator j) < 2 ^ 64"
    "ac_ok (leaving_asset i)" "ac_ok (leaving_asset j)" "ac_ok (arriving_asset i)" "ac_ok (arriving_asset j)"
    using assms(1,2) by (simp_all add: intention_ok_def)
  then show ?thesis
    using assms(3) unfolding body_code_def by (simp only: code_iffs)
qed

text \<open>
  C21. The preimage of an intention's digest determines the intention: two well-formed intentions
  with the same \<open>aiken_cbor\<close> have the same ABI and agree in every field; only the nonce index of a
  legacy intention, which the legacy encoding leaves out, is not determined.
\<close>

theorem aiken_cbor_determines_intention:
  assumes "intention_ok i" "intention_ok j" "aiken_cbor i = aiken_cbor j"
  shows "abi i = abi j \<and>
    (if abi i = Current then i = j else i\<lparr> target_nonce_index := 0 \<rparr> = j\<lparr> target_nonce_index := 0 \<rparr>)"
proof -
  have e: "nonce_code i @ body_code i = nonce_code j @ body_code j"
    using assms(3) by (simp add: aiken_cbor_split)
  from nonce_code_decodable [OF e] show ?thesis
    using body_code_decodable [OF assms(1,2)] by (cases "abi i") (auto intro: aleph_intention.equality)
qed

definition sample_intention :: "aleph_account_abi \<Rightarrow> u16 \<Rightarrow> aleph_intention" where
  "sample_intention a ix = \<lparr> abi = a, target_nonce_index = ix, target_nonce_value = 7,
    leaving_asset = Native, leaving_amount = 1000, arriving_asset = Token (replicate 28 1, 1, replicate 32 0),
    expected_arriving_amount = 500, fee_lovelace = 30, operator = replicate 28 2 \<rparr>"

lemma sample_intention_ok: "intention_ok (sample_intention a ix)"
  by (simp add: intention_ok_def sample_intention_def token_ok_def an_ok_def drop_replicate)

theorem aiken_cbor_determines_intention_witness:
  "(sample_intention Legacy 0)\<lparr> target_nonce_index := 0 \<rparr> =
   (sample_intention Legacy 5)\<lparr> target_nonce_index := 0 \<rparr>"
  using aiken_cbor_determines_intention
      [OF sample_intention_ok [of Legacy 0] sample_intention_ok [of Legacy 5]]
  by (simp add: aiken_cbor_def sample_intention_def)

text \<open>
  The store key of an intention identifies its ABI, nonce value and (for the current ABI) nonce
  index, and a partial fill keeps the key.
\<close>

theorem intent_key_identifies_nonce:
  "(intent_key i = intent_key j \<longleftrightarrow>
      abi i = abi j \<and> target_nonce_value i = target_nonce_value j \<and>
      (if abi i = Current then target_nonce_index i = target_nonce_index j else True)) \<and>
   map_option intent_key (remaining_after_fill i consumed added) \<in> {None, Some (intent_key i)}"
proof -
  have nc: "intent_key i = nonce_code i" for i
    by (simp add: intent_key_def nonce_code_def aleph_intent_key_def aleph_legacy_intent_key_def
        aiken_tuple2_cbor_def split: aleph_account_abi.split)
  let ?same = "abi i = abi j \<and> target_nonce_value i = target_nonce_value j \<and>
      (if abi i = Current then target_nonce_index i = target_nonce_index j else True)"
  have "?same" if "intent_key i = intent_key j"
    using nonce_code_decodable [of i "[]" j "[]"] that nc by simp
  moreover have "intent_key i = intent_key j" if "?same"
    using that unfolding nc by (cases "abi i") (simp_all add: nonce_code_def)
  moreover have "intent_key k = intent_key i" if "remaining_after_fill i consumed added = Some k" for k
    using that
    by (auto simp: remaining_after_fill_def intent_key_def Option.bind_eq_Some_conv
        split: if_splits aleph_account_abi.split)
  then have "map_option intent_key (remaining_after_fill i consumed added) \<in> {None, Some (intent_key i)}"
    by (cases "remaining_after_fill i consumed added") simp_all
  ultimately show ?thesis by blast
qed

text \<open>
  What remains of a partially filled intention.  \<open>remaining_after_fill\<close> succeeds exactly when
  something is left to sell, the fill does not deliver more than was still expected, and the fee
  product fits in 64 bits; then the amounts are reduced by the fill, and the fee is the
  proportional share of the old fee, rounded down, so never more than the old fee.
\<close>

lemma remaining_after_fill_spec:
  "case remaining_after_fill i consumed added of
     None \<Rightarrow> unat (leaving_amount i) \<le> unat consumed \<or>
       2 ^ 64 \<le> (unat (leaving_amount i) - unat consumed) * unat (fee_lovelace i) \<or>
       unat (expected_arriving_amount i) < unat added
   | Some k \<Rightarrow>
       unat (leaving_amount k) + unat consumed = unat (leaving_amount i) \<and> leaving_amount k \<noteq> 0 \<and>
       unat (expected_arriving_amount k) + unat added = unat (expected_arriving_amount i) \<and>
       unat (fee_lovelace k) = unat (leaving_amount k) * unat (fee_lovelace i) div unat (leaving_amount i) \<and>
       fee_lovelace k \<le> fee_lovelace i"
proof (cases "remaining_after_fill i consumed added")
  case None
  then show ?thesis
    by (auto simp: remaining_after_fill_def bind_eq_None_conv checked_sub_def checked_mul_def
        word_le_nat_alt word_less_nat_alt unat_sub not_le split: if_splits)
next
  case (Some k)
  let ?L = "unat (leaving_amount i)" and ?F = "unat (fee_lovelace i)" and ?R = "unat (leaving_amount k)"
  from Some have k: "consumed \<le> leaving_amount i" "leaving_amount k = leaving_amount i - consumed"
    "leaving_amount k \<noteq> 0" "?R * ?F < 2 ^ 64" "leaving_amount i \<noteq> 0"
    "fee_lovelace k = leaving_amount k * fee_lovelace i div leaving_amount i"
    "added \<le> expected_arriving_amount i"
    "expected_arriving_amount k = expected_arriving_amount i - added"
    by (auto simp: remaining_after_fill_def Option.bind_eq_Some_conv checked_sub_def checked_mul_def
        split: if_splits)
  then have f: "unat (fee_lovelace k) = ?R * ?F div ?L"
    by (simp add: unat_div_distrib unat_mul_small)
  have R: "?R + unat consumed = ?L" using k(1,2) by (simp add: unat_sub word_le_nat_alt)
  have "?R * ?F div ?L \<le> ?F"
    using R by (metis div_le_mono div_mult_self1_is_m gr0I le_add1 mult_le_mono1 mult_zero_left div_by_0 le0)
  then show ?thesis using Some k f R by (simp add: word_le_nat_alt unat_sub)
qed

text \<open>
  C22. The nonce of an account only moves forward.  A successful update changes nothing but the
  addressed nonce, which never decreases; under the legacy ABI it was equal to the target, grows
  by one, and the same target is refused afterwards; under the current ABI it becomes the
  target, and the same target is accepted again without effect.
\<close>

theorem sig_nonce_moves_forward:
  assumes "with_sig_full_fill_nonce s ix v = Some s'"
  shows "s'\<lparr> nonce := nonce s \<rparr> = s \<and> length (nonce s') = length (nonce s) \<and>
    unat ix < length (nonce s) \<and>
    (\<forall>j < length (nonce s). j = unat ix \<or> nonce s' ! j = nonce s ! j) \<and>
    nonce s ! unat ix \<le> nonce s' ! unat ix \<and>
    (if st_abi s = Legacy
     then nonce s ! unat ix = sint v \<and> nonce s' ! unat ix = sint v + 1 \<and>
       with_sig_full_fill_nonce s' ix v = None
     else nonce s' ! unat ix = sint v \<and> with_sig_full_fill_nonce s' ix v = Some s')"
proof (cases "st_abi s = Legacy")
  case True
  with assms obtain n ns where "ix = 0" "nonce s = n # ns" "n = sint v" "s' = s\<lparr> nonce := (n + 1) # ns \<rparr>"
    by (auto simp: with_sig_full_fill_nonce_def checked_add_i64_def split: if_splits list.splits option.splits)
  then show ?thesis using True by (auto simp: with_sig_full_fill_nonce_def nth_Cons')
next
  case False
  with assms have "unat ix < length (nonce s)" "nonce s ! unat ix \<le> sint v"
    "s' = s\<lparr> nonce := (nonce s)[unat ix := sint v] \<rparr>"
    by (auto simp: with_sig_full_fill_nonce_def split: if_splits)
  then show ?thesis using False by (auto simp: with_sig_full_fill_nonce_def nth_list_update)
qed

definition sample_account :: "aleph_account_abi \<Rightarrow> aleph_account_state" where
  "sample_account a = \<lparr> st_abi = a, magic = [1], allowlist = [], nonce = [7], main_key = replicate 33 3,
    co_key = None, cold_key_hash = replicate 28 0, store_root = replicate 32 0 \<rparr>"

theorem sig_nonce_moves_forward_witness:
  "with_sig_full_fill_nonce (sample_account Legacy) 0 7 =
      Some ((sample_account Legacy)\<lparr> nonce := [8] \<rparr>) \<and>
   with_sig_full_fill_nonce ((sample_account Legacy)\<lparr> nonce := [8] \<rparr>) 0 7 = None"
proof -
  have "with_sig_full_fill_nonce (sample_account Legacy) 0 7 =
      Some ((sample_account Legacy)\<lparr> nonce := [8] \<rparr>)"
    by (simp add: with_sig_full_fill_nonce_def sample_account_def checked_add_i64_def i64_max_def)
  from sig_nonce_moves_forward [OF this] this show ?thesis
    by (simp add: sample_account_def)
qed

section \<open>Account states on chain\<close>

definition i64_ok :: "int \<Rightarrow> bool" where
  "i64_ok n \<longleftrightarrow> - (2 ^ 63) \<le> n \<and> n \<le> i64_max"

text \<open>The invariant of a parsed account state, from the array lengths and checks of the parser.\<close>

definition state_ok :: "aleph_account_state \<Rightarrow> bool" where
  "state_ok s \<longleftrightarrow> length (main_key s) = 33 \<and> length (store_root s) = 32 \<and> (\<forall>n \<in> set (nonce s). i64_ok n) \<and>
    (case st_abi s of
       Legacy \<Rightarrow> allowlist s = [] \<and> length (nonce s) = 1 \<and> co_key s = None \<and> cold_key_hash s = replicate 28 0
     | Current \<Rightarrow> (\<forall>a \<in> set (allowlist s). length a = 28) \<and> length (cold_key_hash s) = 28 \<and>
         (case co_key s of None \<Rightarrow> True | Some k \<Rightarrow> length k = 33))"

lemma opt_traverse_map:
  "(\<And>x. x \<in> set xs \<Longrightarrow> f (g x) = Some x) \<Longrightarrow> opt_traverse f (map g xs) = Some xs"
  by (induction xs) auto

lemma opt_traverse_Some:
  assumes "opt_traverse f xs = Some ys" "\<And>x y. f x = Some y \<Longrightarrow> x = g y \<and> P y"
  shows "xs = map g ys \<and> (\<forall>y \<in> set ys. P y)"
  using assms(1)
proof (induction xs arbitrary: ys)
  case (Cons x xs)
  then obtain y ys' where "f x = Some y" "opt_traverse f xs = Some ys'" "ys = y # ys'"
    by (auto split: option.splits)
  then show ?case using Cons.IH assms(2) by auto
qed simp

lemma into_bytes_Some: "into_bytes d = Some bs \<longleftrightarrow> d = PBytes bs"
  by (cases d) auto

lemma into_vec_Some: "into_vec d = Some xs \<longleftrightarrow> d = PList xs"
  by (cases d) auto

lemma into_i128_Some: "into_i128 f d = Some m \<longleftrightarrow> (\<exists>n. d = PInteger n \<and> f n = Some m)"
  by (cases d) auto

lemma into_constr_Some: "into_constr_pd d = Some c \<longleftrightarrow> d = PConstr (fst c) (snd c)"
  by (cases d; cases c) auto

lemma fixed_Some: "fixed n bs = Some c \<longleftrightarrow> c = bs \<and> length bs = n"
  by (auto simp: fixed_def)

lemma fixed_ok: "length bs = n \<Longrightarrow> fixed n bs = Some bs"
  by (simp add: fixed_def)

lemmas pd_defs = aiken_constr_def tuple_pd_def bytes_into_pd_def i64_into_pd_def u64_into_pd_def
  vec_into_pd_def field_bytes_def take_field_def

definition as_int_exact :: "(int \<Rightarrow> int option) \<Rightarrow> bool" where
  "as_int_exact as_int \<longleftrightarrow> (\<forall>n. i64_ok n \<longrightarrow> as_int n = Some n) \<and> (\<forall>n m. as_int n = Some m \<longrightarrow> m = n)"

lemma i64_try_from_ok: "i64_ok n \<Longrightarrow> i64_try_from n = Some n"
  by (simp add: i64_ok_def i64_try_from_def)

lemma i64_try_from_Some: "i64_try_from n = Some m \<longleftrightarrow> m = n \<and> i64_ok n"
  by (auto simp: i64_ok_def i64_try_from_def)

lemma hot_cred_Some:
  "hot_cred_from_list xs = Some c \<longleftrightarrow>
    (\<exists>ck. xs = [PBytes (fst c), ck] \<and> length (fst c) = 33 \<and> co_key_from_pd ck = Some (snd c))"
  by (cases c; cases xs; cases "tl xs"; cases "tl (tl xs)")
    (auto simp: hot_cred_from_list_def Option.bind_eq_Some_conv into_bytes_Some)

lemma six:
  assumes "length xs = 6"
  obtains a b c d e f where "xs = [a, b, c, d, e, f]"
  using assms by (auto simp: numeral_eq_Suc length_Suc_conv)

lemma four:
  assumes "length xs = 4"
  obtains a b c d where "xs = [a, b, c, d]"
  using assms by (auto simp: numeral_eq_Suc length_Suc_conv)

lemma account_state_print_parse:
  assumes "as_int_exact as_int" "state_ok s"
  shows "\<exists>d. (account_state_into_pd s :: (unit, plutus_data) res) = Ok d \<and>
    account_state_try_from_pd as_int d = Some s"
proof (cases "st_abi s")
  case Legacy
  then obtain n where n: "nonce s = [n]" "i64_ok n"
    using assms(2) by (auto simp: state_ok_def length_Suc_conv)
  then have "as_int n = Some n" using assms(1) by (simp add: as_int_exact_def)
  then show ?thesis
    using Legacy assms(2) n
    by (auto simp: state_ok_def account_state_into_pd_def account_state_try_from_pd_def
        legacy_state_from_fields_def pd_defs fixed_ok i64_try_from_ok intro!: aleph_account_state.equality)
next
  case Current
  have al: "opt_traverse (\<lambda>pd. Option.bind (into_bytes pd) (fixed 28)) (map PBytes (allowlist s)) = Some (allowlist s)"
    using Current assms(2) by (intro opt_traverse_map) (simp add: state_ok_def fixed_def)
  have ns: "opt_traverse (\<lambda>pd. Option.bind (into_i128 as_int pd) i64_try_from) (map PInteger (nonce s)) = Some (nonce s)"
    using assms by (intro opt_traverse_map) (simp add: state_ok_def as_int_exact_def i64_try_from_ok)
  have ck: "co_key_from_pd (case co_key s of None \<Rightarrow> PList [] | Some k \<Rightarrow> PBytes k) = Some (co_key s)"
    using Current assms(2) by (auto simp: co_key_from_pd_def state_ok_def split: option.splits)
  have hc: "hot_cred_from_list [PBytes (main_key s), case co_key s of None \<Rightarrow> PList [] | Some k \<Rightarrow> PBytes k] =
      Some (main_key s, co_key s)"
    using ck assms(2) by (simp add: hot_cred_Some state_ok_def)
  have pi: "bytes_into_pd = PBytes" "i64_into_pd = PInteger"
    by (auto simp: bytes_into_pd_def i64_into_pd_def)
  show ?thesis
    unfolding account_state_into_pd_def pi using Current assms(2) al ns hc
    by (auto simp: state_ok_def account_state_try_from_pd_def
        current_state_from_fields_def aiken_constr_def tuple_pd_def vec_into_pd_def field_bytes_def
        take_field_def fixed_ok Let_def
        intro!: aleph_account_state.equality)
qed

lemma account_state_parse_print:
  assumes "as_int_exact as_int" "account_state_try_from_pd as_int d = Some s"
  shows "state_ok s \<and> (account_state_into_pd s :: (unit, plutus_data) res) = Ok d"
proof -
  from assms(2) obtain flds where d: "d = PConstr 0 flds" and l: "length flds = 4 \<or> length flds = 6"
    and parse: "(if length flds = 4 then legacy_state_from_fields as_int flds
      else current_state_from_fields as_int flds) = Some s"
    by (auto simp: account_state_try_from_pd_def Option.bind_eq_Some_conv into_constr_Some
        split: if_splits prod.splits)
  show ?thesis
  proof (cases "length flds = 4")
    case True
    then obtain a b c e where f: "flds = [a, b, c, e]" by (rule four)
    then show ?thesis
      using parse d assms(1)
      by (auto simp: legacy_state_from_fields_def field_bytes_def take_field_def Option.bind_eq_Some_conv
          into_bytes_Some into_i128_Some fixed_Some i64_try_from_Some state_ok_def account_state_into_pd_def
          aiken_constr_def bytes_into_pd_def i64_into_pd_def as_int_exact_def split: if_splits)
  next
    case False
    then obtain a b c e g h where f: "flds = [a, b, c, e, g, h]" using l six by blast
    from parse False f obtain m al ns k ck co ch r bl nl where
      p: "a = PBytes m" "b = PList bl" "c = PList nl" "e = PList [PBytes k, ck]"
        "opt_traverse (\<lambda>pd. Option.bind (into_bytes pd) (fixed 28)) bl = Some al"
        "opt_traverse (\<lambda>pd. Option.bind (into_i128 as_int pd) i64_try_from) nl = Some ns"
        "length k = 33" "co_key_from_pd ck = Some co" "g = PBytes ch" "length ch = 28"
        "h = PBytes r" "length r = 32"
      and s: "s = \<lparr> st_abi = Current, magic = m, allowlist = al, nonce = ns, main_key = k,
        co_key = co, cold_key_hash = ch, store_root = r \<rparr>"
      by (auto simp: current_state_from_fields_def field_bytes_def take_field_def Option.bind_eq_Some_conv
          into_bytes_Some into_vec_Some fixed_Some hot_cred_Some split: if_splits)
    have "bl = map PBytes al \<and> (\<forall>x \<in> set al. length x = 28)"
      using p(5) by (rule opt_traverse_Some) (auto simp: Option.bind_eq_Some_conv into_bytes_Some fixed_Some)
    moreover have "nl = map PInteger ns \<and> (\<forall>x \<in> set ns. i64_ok x)"
      using p(6) assms(1)
      by (rule_tac opt_traverse_Some)
        (auto simp: Option.bind_eq_Some_conv into_i128_Some i64_try_from_Some as_int_exact_def)
    moreover have "ck = (case co of None \<Rightarrow> PList [] | Some k \<Rightarrow> PBytes k)"
      "case co of None \<Rightarrow> True | Some k \<Rightarrow> length k = 33"
      using p(8) by (auto simp: co_key_from_pd_def Option.bind_eq_Some_conv into_bytes_Some split: if_splits)
    moreover have pi: "bytes_into_pd = PBytes" "i64_into_pd = PInteger"
      by (auto simp: bytes_into_pd_def i64_into_pd_def)
    ultimately show ?thesis
      unfolding account_state_into_pd_def pi
      using d f p s by (simp add: state_ok_def aiken_constr_def tuple_pd_def vec_into_pd_def Let_def)
  qed
qed

text \<open>
  C23. The datum of an account is an exact code, for both ABIs: parsing succeeds on exactly the data
  printed for states that satisfy the invariant (33-byte keys, 28-byte hashes, a 32-byte store
  root, nonces in the \<open>i64\<close> range), and printing such a state does not panic.
\<close>

theorem account_state_codec:
  assumes "as_int_exact as_int"
  shows "account_state_try_from_pd as_int d = Some s \<longleftrightarrow>
    state_ok s \<and> (account_state_into_pd s :: (unit, plutus_data) res) = Ok d"
  using account_state_print_parse [OF assms] account_state_parse_print [OF assms] by fastforce

theorem account_state_codec_witness:
  "account_state_try_from_pd Some (PConstr 0 [PBytes [1], PInteger 7, PBytes (replicate 33 3), PBytes (replicate 32 0)]) =
     Some (sample_account Legacy)"
proof -
  have "as_int_exact Some" by (simp add: as_int_exact_def)
  note c = account_state_codec [OF this]
  show ?thesis
    unfolding c by (simp add: state_ok_def sample_account_def i64_ok_def i64_max_def account_state_into_pd_def
        aiken_constr_def bytes_into_pd_def i64_into_pd_def)
qed


section \<open>Full fills of an account output\<close>

definition amt :: "val \<Rightarrow> asset_class \<Rightarrow> nat" where
  "amt v a = (case amount_of v a of None \<Rightarrow> 0 | Some n \<Rightarrow> unat n)"

text \<open>What is used of cml's checked value arithmetic: it adds and subtracts per asset.\<close>

definition value_laws :: "(val \<Rightarrow> val \<Rightarrow> val option) \<Rightarrow> (val \<Rightarrow> val \<Rightarrow> val option) \<Rightarrow> bool" where
  "value_laws vsub vadd \<longleftrightarrow>
    (\<forall>v w u. vsub v w = Some u \<longrightarrow> (\<forall>a. amt u a + amt w a = amt v a)) \<and>
    (\<forall>v w u. vadd v w = Some u \<longrightarrow> (\<forall>a. amt u a = amt v a + amt w a))"

lemma amt_into_value:
  "ac_ok a \<Longrightarrow> ac_ok b \<Longrightarrow> amt (into_value a n) b = (if a = b then unat n else 0)"
  by (cases a rule: ac_ok.cases; cases b rule: ac_ok.cases)
    (auto simp: amt_def ma_get_def token_ok_def dest: an_bytes_inj split: if_splits)

text \<open>
  A fill moves exactly what was executed: the account pays the input and the fee in ADA
  and receives the output asset, and every other asset of the output is unchanged.  A leaving
  asset other than ADA is refused.  When the arriving asset is ADA as well, the fee is taken from
  the input side and once more from the output.
\<close>

lemma fill_conserves:
  assumes "value_laws vsub vadd" "unat removed + unat fee < 2 ^ 64"
    and "ac_ok (output_asset (intention order))"
    and "apply_full_fill_to_account_output vsub vadd out order removed added fee = Ok out'"
  shows "input_asset (intention order) = Native \<and>
    (\<forall>a. ac_ok a \<longrightarrow>
      amt out' a + (if a = Native then unat removed + unat fee else 0) =
      amt out a + (if a = output_asset (intention order)
                   then (if a = Native then unat added - unat fee else unat added) else 0))"
proof -
  let ?o = "output_asset (intention order)"
  have i: "input_asset (intention order) = Native"
    using assms(4) by (simp add: apply_full_fill_to_account_output_def split: if_splits)
  with assms(4) obtain o1 n where o1: "vsub out (into_value Native (removed + fee)) = Some o1"
    and n: "unat n = (if ?o = Native then unat added - unat fee else unat added)"
    and o2: "vadd o1 (into_value ?o n) = Some out'"
  proof (cases "?o = Native")
    case True
    with assms(4) i obtain o1 n where "vsub out (into_value Native (removed + fee)) = Some o1"
      "unat added = unat fee + unat n" "vadd o1 (into_value Native n) = Some out'"
      by (auto simp: apply_full_fill_to_account_output_def sub_asset_def add_asset_def res_simps
          checked_sub_eq_Some simp del: into_value.simps)
    with True that [of o1 n] show ?thesis by simp
  next
    case False
    with assms(4) i that [of _ added] show ?thesis
      by (auto simp: apply_full_fill_to_account_output_def sub_asset_def add_asset_def res_simps
          simp del: into_value.simps)
  qed
  have rf: "unat (removed + fee) = unat removed + unat fee"
    using assms(2) by (intro unat_add_small) simp
  have "amt out a = amt o1 a + amt (into_value Native (removed + fee)) a"
    and "amt out' a = amt o1 a + amt (into_value ?o n) a" for a
    using assms(1) o1 o2 unfolding value_laws_def by metis+
  then show ?thesis
    using i n rf assms(3) by (auto simp: amt_into_value simp del: into_value.simps)
qed

definition toy_sub :: "val \<Rightarrow> val \<Rightarrow> val option" where
  "toy_sub v w = (if multiasset w = [] \<and> coin w \<le> coin v then Some (v\<lparr> coin := coin v - coin w \<rparr>) else None)"

definition toy_add :: "val \<Rightarrow> val \<Rightarrow> val option" where
  "toy_add v w = (if multiasset v = [] \<and> unat (coin v) + unat (coin w) < 2 ^ 64
     then Some \<lparr> coin = coin v + coin w, multiasset = multiasset w \<rparr> else None)"

lemma toy_value_laws: "value_laws toy_sub toy_add"
proof -
  have "amt u a + amt w a = amt v a" if "toy_sub v w = Some u" for u v w a
    using that by (cases a rule: ac_ok.cases)
      (auto simp: toy_sub_def amt_def ma_get_def unat_sub word_le_nat_alt split: if_splits)
  moreover have "amt u a = amt v a + amt w a" if "toy_add v w = Some u" for u v w a
    using that by (cases a rule: ac_ok.cases)
      (auto simp: toy_add_def amt_def ma_get_def unat_add_small split: if_splits)
  ultimately show ?thesis by (simp add: value_laws_def)
qed

definition sample_order :: "asset_class \<Rightarrow> green_order" where
  "sample_order out = \<lparr>
    go_id = \<lparr> goi_account_id = replicate 32 4, goi_target_nonce_slot = 0, goi_target_nonce_value = 7,
      original_intent_digest = replicate 32 5 \<rparr>,
    go_account_id = replicate 32 4,
    intention = \<lparr> input_asset = Native, output_asset = out, gi_leaving_amount = 1000,
      gi_expected_arriving_amount = 500, gi_fee_lovelace = 30, target_nonce_slot = 0,
      gi_target_nonce_value = 7, operator_key_hash = replicate 28 2 \<rparr>,
    accumulated_output = 0, current_remainder = 1000, go_auth = Path [] \<rparr>"

end
