(* ===== verification/Account_Store.thy ===== *)
theory Account_Store
  imports Mpf_Trie Green_Order
begin

text \<open>
  The per-account store of pending intents (\<open>green-order-cardano-agent/src/account_store.rs\<close>) and the
  on-chain form of its proofs (\<open>proof_to_plutus_data\<close> of \<open>mpf.rs\<close>).

  A mutating method returns the store after the call and the result of the call.  Parameters:
  \<open>H\<close> is \<open>blake2b256\<close>, used for trie paths and for intent digests alike, and \<open>cbor\<close> is
  \<open>PlutusData::to_cbor_bytes\<close>.
\<close>

section \<open>Proofs as Plutus data\<close>

fun step_to_plutus_data :: "proof_step \<Rightarrow> plutus_data" where
  "step_to_plutus_data (Branch skip neighbors) =
    aiken_constr 0 [u64_into_pd (of_nat skip), bytes_into_pd neighbors]"
| "step_to_plutus_data (Fork skip nb) =
    aiken_constr 1 [u64_into_pd (of_nat skip),
      aiken_constr 0 [u64_into_pd (ucast (nb_nibble nb)), bytes_into_pd (nb_prefix nb), bytes_into_pd (nb_root nb)]]"
| "step_to_plutus_data (Leaf skip key val) =
    aiken_constr 2 [u64_into_pd (of_nat skip), bytes_into_pd key, bytes_into_pd val]"

definition proof_to_plutus_data :: "proof_step list \<Rightarrow> plutus_data" where
  "proof_to_plutus_data pf = PList (map step_to_plutus_data pf)"

definition proof_to_cbor :: "(plutus_data \<Rightarrow> bytes) \<Rightarrow> proof_step list \<Rightarrow> bytes" where
  "proof_to_cbor cbor pf = cbor (proof_to_plutus_data pf)"


section \<open>The store\<close>

datatype stored_intent_status = Pending | Completed

record stored_intent_leaf =
  canonical_order_id :: green_order_id
  sl_intent :: aleph_intention
  sl_digest :: bytes
  sl_status :: stored_intent_status

record account_store =
  as_root :: bytes
  as_leaves :: "(bytes, stored_intent_leaf) btree_map"

record stored_intent_leaf_snapshot =
  ss_key :: bytes
  ss_canonical_order_id :: green_order_id
  ss_intent :: aleph_intention
  ss_digest :: bytes
  ss_status :: stored_intent_status

record mpf_delta =
  md_old_root :: bytes
  md_new_root :: bytes
  md_proof :: bytes

record mpf_completion =
  mc_root :: bytes
  mc_proof :: bytes

definition store_empty :: account_store where
  "store_empty = \<lparr> as_root = EMPTY_ROOT, as_leaves = [] \<rparr>"

definition from_observed_root :: "bytes \<Rightarrow> account_store option" where
  "from_observed_root root = (if root = EMPTY_ROOT then Some store_empty else None)"

definition trie_from_leaves :: "(bytes, stored_intent_leaf) btree_map \<Rightarrow> trie" where
  "trie_from_leaves ls = from_leaves (map (\<lambda>(key, l). (key, sl_digest l)) ls)"

definition snapshot_entry :: "stored_intent_leaf_snapshot \<Rightarrow> bytes \<times> stored_intent_leaf" where
  "snapshot_entry s = (ss_key s, \<lparr> canonical_order_id = ss_canonical_order_id s, sl_intent = ss_intent s,
     sl_digest = ss_digest s, sl_status = ss_status s \<rparr>)"

text \<open>\<open>collect\<close> into a \<open>BTreeMap\<close> inserts one entry after the other.\<close>

definition from_snapshot ::
  "(bytes \<Rightarrow> bytes) \<Rightarrow> bytes \<Rightarrow> stored_intent_leaf_snapshot list \<Rightarrow>
   (green_store_planning_error, account_store) res" where
  "from_snapshot H root ls =
    (let m = fold (\<lambda>s acc. bt_insert (fst (snapshot_entry s)) (snd (snapshot_entry s)) acc) ls [] in
     and_then (map_err (\<lambda>_. Unsupported) (trie_root H (trie_from_leaves m))) (\<lambda>calculated_root.
       if calculated_root \<noteq> root then Err (RootMismatch calculated_root root)
       else Ok \<lparr> as_root = root, as_leaves = m \<rparr>))"

definition snapshot_leaves :: "account_store \<Rightarrow> stored_intent_leaf_snapshot list" where
  "snapshot_leaves st = map (\<lambda>(key, l). \<lparr> ss_key = key, ss_canonical_order_id = canonical_order_id l,
     ss_intent = sl_intent l, ss_digest = sl_digest l, ss_status = sl_status l \<rparr>) (as_leaves st)"

definition insert_remaining ::
  "(bytes \<Rightarrow> bytes) \<Rightarrow> (plutus_data \<Rightarrow> bytes) \<Rightarrow> account_store \<Rightarrow> bytes \<Rightarrow> green_order_id \<Rightarrow> aleph_intention \<Rightarrow>
   account_store \<times> (green_store_planning_error, mpf_delta) res" where
  "insert_remaining H cbor st key order_id i =
    (if map_of (as_leaves st) key \<noteq> None then (st, Err ExistingPendingIntent)
     else
       let old_root = as_root st;
           d = digest H i;
           t = trie_from_leaves (as_leaves st);
           r = and_then (map_err (\<lambda>_. Unsupported) (proof_for_missing H t key)) (\<lambda>pf.
               and_then (map_err (\<lambda>_. Unsupported) (insert_root H old_root key d pf)) (\<lambda>new_root.
                 Ok (pf, new_root)))
       in case r of
            Err e \<Rightarrow> (st, Err e)
          | Panic \<Rightarrow> (st, Panic)
          | Ok (pf, new_root) \<Rightarrow>
              (\<lparr> as_root = new_root,
                 as_leaves = bt_insert key \<lparr> canonical_order_id = order_id, sl_intent = i, sl_digest = d,
                   sl_status = Pending \<rparr> (as_leaves st) \<rparr>,
               Ok \<lparr> md_old_root = old_root, md_new_root = new_root, md_proof = proof_to_cbor cbor pf \<rparr>))"

text \<open>The checks shared by \<open>update_remaining\<close> and \<open>mark_completed\<close>, in their order.\<close>

definition checked_pending ::
  "(bytes \<Rightarrow> bytes) \<Rightarrow> account_store \<Rightarrow> bytes \<Rightarrow> bytes \<Rightarrow>
   (green_store_planning_error, proof_step list \<times> stored_intent_leaf) res" where
  "checked_pending H st key old_digest =
    and_then (map_err (\<lambda>_. Unsupported) (proof_for_present H (trie_from_leaves (as_leaves st)) key)) (\<lambda>pf.
    and_then (ok_or (map_of (as_leaves st) key) MissingPendingIntent) (\<lambda>l.
      if sl_status l \<noteq> Pending then Err MissingPendingIntent
      else if sl_digest l \<noteq> old_digest then Err DigestMismatch
      else Ok (pf, l)))"

definition update_remaining ::
  "(bytes \<Rightarrow> bytes) \<Rightarrow> (plutus_data \<Rightarrow> bytes) \<Rightarrow> account_store \<Rightarrow> bytes \<Rightarrow> bytes \<Rightarrow> aleph_intention \<Rightarrow>
   account_store \<times> (green_store_planning_error, mpf_delta) res" where
  "update_remaining H cbor st key old_digest new_intent =
    (let old_root = as_root st;
         new_digest = digest H new_intent;
         r = and_then (checked_pending H st key old_digest) (\<lambda>(pf, l).
             and_then (map_err (\<lambda>_. Unsupported) (update_root H old_root key pf old_digest new_digest))
               (\<lambda>new_root. Ok (pf, l, new_root)))
     in case r of
          Err e \<Rightarrow> (st, Err e)
        | Panic \<Rightarrow> (st, Panic)
        | Ok (pf, l, new_root) \<Rightarrow>
            (\<lparr> as_root = new_root,
               as_leaves = bt_insert key (l\<lparr> sl_intent := new_intent, sl_digest := new_digest \<rparr>) (as_leaves st) \<rparr>,
             Ok \<lparr> md_old_root = old_root, md_new_root = new_root, md_proof = proof_to_cbor cbor pf \<rparr>))"

definition has_or_mismatch ::
  "(bytes \<Rightarrow> bytes) \<Rightarrow> account_store \<Rightarrow> bytes \<Rightarrow> bytes \<Rightarrow> proof_step list \<Rightarrow> (green_store_planning_error, unit) res" where
  "has_or_mismatch H st key d pf =
    (if has H (as_root st) key d pf then Ok ()
     else and_then (map_err (\<lambda>_. Unsupported) (trie_root H (trie_from_leaves (as_leaves st)))) (\<lambda>r.
       Err (RootMismatch r (as_root st))))"

definition mark_completed ::
  "(bytes \<Rightarrow> bytes) \<Rightarrow> (plutus_data \<Rightarrow> bytes) \<Rightarrow> account_store \<Rightarrow> bytes \<Rightarrow> bytes \<Rightarrow>
   account_store \<times> (green_store_planning_error, mpf_completion) res" where
  "mark_completed H cbor st key old_digest =
    (let r = and_then (checked_pending H st key old_digest) (\<lambda>(pf, l).
             and_then (has_or_mismatch H st key old_digest pf) (\<lambda>_. Ok (pf, l)))
     in case r of
          Err e \<Rightarrow> (st, Err e)
        | Panic \<Rightarrow> (st, Panic)
        | Ok (pf, l) \<Rightarrow>
            (st\<lparr> as_leaves := bt_insert key (l\<lparr> sl_status := Completed \<rparr>) (as_leaves st) \<rparr>,
             Ok \<lparr> mc_root = as_root st, mc_proof = proof_to_cbor cbor pf \<rparr>))"

definition pending_leaf :: "account_store \<Rightarrow> bytes \<Rightarrow> stored_intent_leaf option" where
  "pending_leaf st key =
    (case map_of (as_leaves st) key of
       None \<Rightarrow> None
     | Some l \<Rightarrow> if sl_status l = Pending then Some l else None)"

definition pending_leaves :: "account_store \<Rightarrow> (bytes \<times> stored_intent_leaf) list" where
  "pending_leaves st = filter (\<lambda>(_, l). sl_status l = Pending) (as_leaves st)"

definition path_proof ::
  "(bytes \<Rightarrow> bytes) \<Rightarrow> (plutus_data \<Rightarrow> bytes) \<Rightarrow> account_store \<Rightarrow> bytes \<Rightarrow> (green_store_planning_error, bytes) res" where
  "path_proof H cbor st key =
    and_then (ok_or (map_of (as_leaves st) key) MissingPendingIntent) (\<lambda>l.
      if sl_status l \<noteq> Pending then Err MissingPendingIntent
      else and_then (map_err (\<lambda>_. Unsupported) (proof_for_present H (trie_from_leaves (as_leaves st)) key)) (\<lambda>pf.
        and_then (has_or_mismatch H st key (sl_digest l) pf) (\<lambda>_. Ok (proof_to_cbor cbor pf))))"

record planned_store_delta =
  pd_old_root :: bytes
  pd_new_root :: bytes
  pd_proof :: bytes
  pd_predicted_snapshot_id :: u64

record planned_store_completion =
  pc_root :: bytes
  pc_proof :: bytes
  pc_predicted_snapshot_id :: u64

definition planned_delta :: "mpf_delta \<Rightarrow> u64 \<Rightarrow> planned_store_delta" where
  "planned_delta d sid = \<lparr> pd_old_root = md_old_root d, pd_new_root = md_new_root d, pd_proof = md_proof d,
     pd_predicted_snapshot_id = sid \<rparr>"

definition planned_completion :: "mpf_completion \<Rightarrow> u64 \<Rightarrow> planned_store_completion" where
  "planned_completion c sid = \<lparr> pc_root = mc_root c, pc_proof = mc_proof c, pc_predicted_snapshot_id = sid \<rparr>"

end
