(* ===== verification/Account_Store_Correct.thy ===== *)
theory Account_Store_Correct
  imports Account_Store Green_Correct
begin

text \<open>
  What holds of the account store: the recorded root is always the root of the trie of its leaves,
  every operation on every branch, restoring a snapshot, and what a sequence of operations keeps.
\<close>

section \<open>The invariant of a store\<close>

abbreviation store_trie :: "account_store \<Rightarrow> trie" where
  "store_trie st \<equiv> trie_from_leaves (as_leaves st)"

text \<open>
  The recorded root is the root of the trie of the leaves' digests, and every digest is the digest
  of its intent.
\<close>

definition store_ok :: "(bytes \<Rightarrow> bytes) \<Rightarrow> account_store \<Rightarrow> bool" where
  "store_ok H st \<longleftrightarrow> trie_ok H (store_trie st) \<and> trie_root H (store_trie st) = Ok (as_root st) \<and>
    (\<forall>l \<in> snd ` set (as_leaves st). sl_digest l = digest H (sl_intent l))"

lemma leaves_store_trie: "leaves (trie_from_leaves m) = map (\<lambda>(k, l). (k, sl_digest l)) m"
  by (simp add: trie_from_leaves_def from_leaves_def)

lemma map_of_store_trie:
  "map_of (leaves (trie_from_leaves m)) k = map_option sl_digest (map_of m k)"
  by (simp add: leaves_store_trie map_of_map)

lemma map_bt_insert:
  "map (\<lambda>(k, l). (k, f l)) (bt_insert k l m) = bt_insert k (f l) (map (\<lambda>(k, l). (k, f l)) m)"
  by (induction k l m rule: bt_insert.induct) auto

lemma store_trie_insert:
  "trie_from_leaves (bt_insert k l m) =
   (trie_from_leaves m)\<lparr> leaves := bt_insert k (sl_digest l) (leaves (trie_from_leaves m)) \<rparr>"
  by (simp add: trie_from_leaves_def from_leaves_def map_bt_insert)

lemma set_bt_insert: "set (bt_insert k v m) \<subseteq> insert (k, v) (set m)"
  by (induction k v m rule: bt_insert.induct) auto

lemma bt_ok_store_trie: "bt_ok (leaves (trie_from_leaves m)) \<longleftrightarrow> bt_ok m"
  by (simp add: leaves_store_trie bt_ok_def comp_def case_prod_beta)

lemma keys_store_trie: "fst ` set (leaves (trie_from_leaves m)) = fst ` set m"
  by (force simp: leaves_store_trie)

lemma store_ok_insert:
  assumes "store_ok H st" "hash32 H" "inj_on H (insert k (fst ` set (as_leaves st)))"
    and "sl_digest l = digest H (sl_intent l)"
    and "trie_root H (trie_from_leaves (bt_insert k l (as_leaves st))) = Ok r"
  shows "store_ok H \<lparr> as_root = r, as_leaves = bt_insert k l (as_leaves st) \<rparr>"
  using assms trie_ok_insert [of H "store_trie st" k "sl_digest l"] set_bt_insert [of k l "as_leaves st"]
  by (auto simp: store_ok_def store_trie_insert keys_store_trie)

lemma store_empty_ok: "store_ok H store_empty"
  by (simp add: store_ok_def store_empty_def trie_from_leaves_def from_leaves_def trie_ok_def
      trie_root_def mpf_leaves_def)

lemma present_keys_inj:
  "store_ok H st \<Longrightarrow> map_of (as_leaves st) k = Some l \<Longrightarrow> inj_on H (insert k (fst ` set (as_leaves st)))"
  using present_keys [of "as_leaves st" k l] by (simp add: store_ok_def trie_ok_def keys_store_trie)

text \<open>The proof of a stored leaf: it verifies, and gives the root for every new digest.\<close>

lemma stored_leaf_proof:
  assumes "hash32 H" "store_ok H st" "map_of (as_leaves st) k = Some l"
  obtains pf r where "proof_for_present H (store_trie st) k = Ok pf"
    "has H (as_root st) k (sl_digest l) pf"
    "trie_root H (trie_from_leaves (bt_insert k l' (as_leaves st))) = Ok r"
    "update_root H (as_root st) k pf (sl_digest l) (sl_digest l') = Ok r"
proof -
  have "map_of (leaves (store_trie st)) k = Some (sl_digest l)"
    using assms(3) by (simp add: map_of_store_trie)
  from mpf_map.proved_put [of H "store_trie st" k "sl_digest l" "sl_digest l'", OF _ this] assms(1,2)
  show ?thesis
    using that by (auto simp: store_ok_def has_def update_root_def store_trie_insert)
qed


section \<open>Operations\<close>

lemma insert_remaining_ok:
  assumes "hash32 H" "store_ok H st" "inj_on H (insert key (fst ` set (as_leaves st)))"
    and "map_of (as_leaves st) key = None" "follows (H key) (mpf_leaves H (store_trie st))"
  shows "\<exists>st' d. insert_remaining H cbor st key oid i = (st', Ok d) \<and>
    map_of (as_leaves st') = (map_of (as_leaves st))(key \<mapsto>
      \<lparr> canonical_order_id = oid, sl_intent = i, sl_digest = digest H i, sl_status = Pending \<rparr>) \<and>
    md_old_root d = as_root st \<and> md_new_root d = as_root st' \<and> store_ok H st'"
proof -
  let ?l = "\<lparr> canonical_order_id = oid, sl_intent = i, sl_digest = digest H i, sl_status = Pending \<rparr>"
  have t: "trie_ok H (store_trie st)" "trie_root H (store_trie st) = Ok (as_root st)"
    using assms(2) by (simp_all add: store_ok_def)
  have inj: "inj_on H (insert key (fst ` set (leaves (store_trie st))))"
    using assms(3) by (simp add: keys_store_trie)
  have no: "map_of (leaves (store_trie st)) key = None" using assms(4) by (simp add: map_of_store_trie)
  from trie_proof [OF assms(1) t(1) inj assms(5)] obtain pf where
    "proof_for_path H (mpf_leaves H (store_trie st)) (H key) 0 = Ok pf"
    "\<And>v. including_root H (H key) (H v) 0 pf =
      trie_root H ((store_trie st)\<lparr> leaves := bt_insert key v (leaves (store_trie st)) \<rparr>)"
    "excluding_root H (H key) 0 pf =
      trie_root H ((store_trie st)\<lparr> leaves := bt_remove key (leaves (store_trie st)) \<rparr>)"
    by blast
  then have pf: "proof_for_missing H (store_trie st) key = Ok pf"
      "including_root H (H key) (H (digest H i)) 0 pf = trie_root H (trie_from_leaves (bt_insert key ?l (as_leaves st)))"
      "excluding_root H (H key) 0 pf = Ok (as_root st)"
    using no t(2) by (simp_all add: proof_for_missing_def bt_remove_absent store_trie_insert)
  obtain r where r: "trie_root H (trie_from_leaves (bt_insert key ?l (as_leaves st))) = Ok r"
    using trie_root_Ok [OF assms(1) trie_ok_insert [OF t(1)], of key "digest H i"] assms(3)
    by (simp add: store_trie_insert keys_store_trie)
  have "insert_root H (as_root st) key (digest H i) pf = Ok r"
    using pf r by (simp add: insert_root_def)
  then show ?thesis
    using assms(4) pf(1) store_ok_insert [OF assms(2,1,3) _ r]
    by (simp add: insert_remaining_def Let_def map_of_bt_insert)
qed


text \<open>A store of three leaves.\<close>

definition leaf_for :: "aleph_intention \<Rightarrow> stored_intent_leaf" where
  "leaf_for i = \<lparr> canonical_order_id = go_id (sample_order Native), sl_intent = i,
     sl_digest = digest toy_hash i, sl_status = Pending \<rparr>"

definition store_of :: "bytes list \<Rightarrow> account_store" where
  "store_of ks = (let m = map (\<lambda>k. (k, leaf_for (sample_intention Current 0))) ks in
    \<lparr> as_root = rt toy_hash (mpf_leaves toy_hash (trie_from_leaves m)) 0, as_leaves = m \<rparr>)"

lemma store_of_ok: "bt_ok (map (\<lambda>k. (k, ())) ks) \<Longrightarrow> inj_on toy_hash (set ks) \<Longrightarrow> store_ok toy_hash (store_of ks)"
proof -
  assume a: "bt_ok (map (\<lambda>k. (k, ())) ks)" "inj_on toy_hash (set ks)"
  have "trie_ok toy_hash (store_trie (store_of ks))"
    using a by (simp add: trie_ok_def keys_store_trie bt_ok_store_trie store_of_def Let_def image_image)
      (simp add: bt_ok_def comp_def)
  moreover from trie_root_Ok [OF hash32_toy this]
  have "trie_root toy_hash (store_trie (store_of ks)) = Ok (as_root (store_of ks))" by (simp add: store_of_def Let_def)
  ultimately show ?thesis by (auto simp: store_ok_def store_of_def Let_def leaf_for_def)
qed

definition three_store :: account_store where
  "three_store = store_of [[0], [1], [0x20]]"

lemma three_store_facts:
  "store_ok toy_hash three_store" "inj_on toy_hash (insert [2] (fst ` set (as_leaves three_store)))"
  "map_of (as_leaves three_store) [2] = None" "follows (toy_hash [2]) (mpf_leaves toy_hash (store_trie three_store))"
proof -
  show "store_ok toy_hash three_store"
    unfolding three_store_def by (rule store_of_ok) (simp_all add: bt_ok_def toy_hash_def inj_on_def)
  show "inj_on toy_hash (insert [2] (fst ` set (as_leaves three_store)))" "map_of (as_leaves three_store) [2] = None"
    by (simp_all add: three_store_def store_of_def Let_def toy_hash_def inj_on_def)
  have "map lf_path (mpf_leaves toy_hash (store_trie three_store)) = map lf_path (mpf_leaves toy_hash sample_trie)"
    by (simp add: mpf_leaves_eq three_store_def store_of_def leaves_store_trie sample_trie_def from_leaves_def Let_def)
  then show "follows (toy_hash [2]) (mpf_leaves toy_hash (store_trie three_store))"
    using sample_follows follows_paths by blast
qed

text \<open>
  C7. Storing the remainder of a partially filled order.  On a key the store does not hold, whose
  path follows the stored paths, \<open>insert_remaining\<close> succeeds: it adds a pending leaf with the intent
  and its digest, moves the root from the old to the new root of the trie, and keeps the
  invariant.
\<close>

theorem insert_remaining_correct:
  assumes "hash32 H" "store_ok H st" "inj_on H (insert key (fst ` set (as_leaves st)))"
    and "map_of (as_leaves st) key = None" "follows (H key) (mpf_leaves H (store_trie st))"
  shows "\<exists>st' d. insert_remaining H cbor st key oid i = (st', Ok d) \<and>
    map_of (as_leaves st') = (map_of (as_leaves st))(key \<mapsto>
      \<lparr> canonical_order_id = oid, sl_intent = i, sl_digest = digest H i, sl_status = Pending \<rparr>) \<and>
    md_old_root d = as_root st \<and> md_new_root d = as_root st' \<and> store_ok H st'"
  using assms by (rule insert_remaining_ok)

theorem insert_remaining_correct_witness:
  "\<exists>st' d. insert_remaining toy_hash (\<lambda>_. []) three_store [2] (go_id (sample_order Native))
      (sample_intention Current 0) = (st', Ok d) \<and>
    map_of (as_leaves st') = (map_of (as_leaves three_store))([2] \<mapsto> leaf_for (sample_intention Current 0)) \<and>
    md_old_root d = as_root three_store \<and> md_new_root d = as_root st' \<and> store_ok toy_hash st'"
  unfolding leaf_for_def by (rule insert_remaining_correct [OF hash32_toy three_store_facts])

definition sample_store :: account_store where
  "sample_store = fst (insert_remaining toy_hash (\<lambda>_. []) store_empty [1]
     (go_id (sample_order Native)) (sample_intention Current 0))"

definition sample_leaf :: stored_intent_leaf where
  "sample_leaf = \<lparr> canonical_order_id = go_id (sample_order Native), sl_intent = sample_intention Current 0,
     sl_digest = digest toy_hash (sample_intention Current 0), sl_status = Pending \<rparr>"

lemma sample_store_facts:
  "store_ok toy_hash sample_store" "pending_leaf sample_store [1] = Some sample_leaf"
  "map_of (as_leaves sample_store) [1] = Some sample_leaf"
proof -
  have "\<exists>st' d. insert_remaining toy_hash (\<lambda>_. []) store_empty [1] (go_id (sample_order Native))
      (sample_intention Current 0) = (st', Ok d) \<and>
    map_of (as_leaves st') = (map_of (as_leaves store_empty))([1] \<mapsto> sample_leaf) \<and>
    md_old_root d = as_root store_empty \<and> md_new_root d = as_root st' \<and> store_ok toy_hash st'"
    unfolding sample_leaf_def
    by (rule insert_remaining_ok [OF hash32_toy store_empty_ok])
      (simp_all add: store_empty_def trie_from_leaves_def from_leaves_def mpf_leaves_def follows_def)
  then show "store_ok toy_hash sample_store" "map_of (as_leaves sample_store) [1] = Some sample_leaf"
    by (auto simp: sample_store_def)
  then show "pending_leaf sample_store [1] = Some sample_leaf"
    by (simp add: pending_leaf_def sample_leaf_def)
qed

lemma update_remaining_ok:
  assumes "hash32 H" "store_ok H st" "pending_leaf st key = Some l"
  shows "\<exists>st' d. update_remaining H cbor st key (sl_digest l) i = (st', Ok d) \<and>
    map_of (as_leaves st') = (map_of (as_leaves st))(key \<mapsto> l\<lparr> sl_intent := i, sl_digest := digest H i \<rparr>) \<and>
    md_old_root d = as_root st \<and> md_new_root d = as_root st' \<and> store_ok H st'"
proof -
  let ?l = "l\<lparr> sl_intent := i, sl_digest := digest H i \<rparr>"
  have l: "map_of (as_leaves st) key = Some l" "sl_status l = Pending"
    using assms(3) by (auto simp: pending_leaf_def split: option.splits if_splits)
  from stored_leaf_proof [OF assms(1,2) l(1), of ?l] obtain pf r where
    pf: "proof_for_present H (store_trie st) key = Ok pf"
      "trie_root H (trie_from_leaves (bt_insert key ?l (as_leaves st))) = Ok r"
      "update_root H (as_root st) key pf (sl_digest l) (sl_digest ?l) = Ok r" .
  then show ?thesis
    using l store_ok_insert [OF assms(2,1) present_keys_inj [OF assms(2) l(1)] _ pf(2)]
    by (simp add: update_remaining_def checked_pending_def Let_def map_of_bt_insert)
qed

text \<open>
  C8. Updating a stored remainder.  On a pending leaf with the given digest \<open>update_remaining\<close>
  succeeds, replaces the intent and its digest, keeps order id and status, moves the root and
  keeps the invariant.
\<close>

theorem update_remaining_correct:
  assumes "hash32 H" "store_ok H st" "pending_leaf st key = Some l"
  shows "\<exists>st' d. update_remaining H cbor st key (sl_digest l) i = (st', Ok d) \<and>
    map_of (as_leaves st') = (map_of (as_leaves st))(key \<mapsto> l\<lparr> sl_intent := i, sl_digest := digest H i \<rparr>) \<and>
    md_old_root d = as_root st \<and> md_new_root d = as_root st' \<and> store_ok H st'"
  using assms by (rule update_remaining_ok)

theorem update_remaining_correct_witness:
  "\<exists>st' d. update_remaining toy_hash (\<lambda>_. []) sample_store [1] (sl_digest sample_leaf) (sample_intention Current 3) = (st', Ok d) \<and>
    map_of (as_leaves st') = (map_of (as_leaves sample_store))([1] \<mapsto>
      sample_leaf\<lparr> sl_intent := sample_intention Current 3, sl_digest := digest toy_hash (sample_intention Current 3) \<rparr>) \<and>
    md_old_root d = as_root sample_store \<and> md_new_root d = as_root st' \<and> store_ok toy_hash st'"
  by (rule update_remaining_correct [OF hash32_toy sample_store_facts(1,2)])

text \<open>
  Completing a stored remainder.  On a pending leaf with the given digest \<open>mark_completed\<close>
  succeeds, marks exactly this leaf, leaves the root as it is and keeps the invariant, and
  \<open>path_proof\<close> of the leaf was available before and is refused afterwards.
\<close>

theorem mark_completed_correct:
  assumes "hash32 H" "store_ok H st" "pending_leaf st key = Some l"
  shows "\<exists>st' c pf. mark_completed H cbor st key (sl_digest l) = (st', Ok c) \<and>
    map_of (as_leaves st') = (map_of (as_leaves st))(key \<mapsto> l\<lparr> sl_status := Completed \<rparr>) \<and>
    as_root st' = as_root st \<and> mc_root c = as_root st \<and> store_ok H st' \<and>
    has H (as_root st) key (sl_digest l) pf \<and> path_proof H cbor st key = Ok (proof_to_cbor cbor pf) \<and>
    mc_proof c = proof_to_cbor cbor pf \<and> path_proof H cbor st' key = Err MissingPendingIntent"
proof -
  let ?l = "l\<lparr> sl_status := Completed \<rparr>"
  have l: "map_of (as_leaves st) key = Some l" "sl_status l = Pending"
    using assms(3) by (auto simp: pending_leaf_def split: option.splits if_splits)
  have dg: "sl_digest l = digest H (sl_intent l)"
    using assms(2) map_of_SomeD [OF l(1)] by (force simp: store_ok_def)
  from stored_leaf_proof [OF assms(1,2) l(1), of ?l] obtain pf r where
    pf: "proof_for_present H (store_trie st) key = Ok pf" "has H (as_root st) key (sl_digest l) pf"
      "trie_root H (trie_from_leaves (bt_insert key ?l (as_leaves st))) = Ok r"
      "update_root H (as_root st) key pf (sl_digest l) (sl_digest ?l) = Ok r" .
  then have r: "r = as_root st" by (simp add: has_def update_root_def)
  have "store_ok H \<lparr> as_root = r, as_leaves = bt_insert key ?l (as_leaves st) \<rparr>"
    using store_ok_insert [OF assms(2,1) present_keys_inj [OF assms(2) l(1)] _ pf(3)] dg by simp
  then have "store_ok H (st\<lparr> as_leaves := bt_insert key ?l (as_leaves st) \<rparr>)"
    by (simp add: store_ok_def r)
  then show ?thesis
    using l pf by (simp add: mark_completed_def checked_pending_def has_or_mismatch_def path_proof_def
        Let_def map_of_bt_insert) blast
qed

theorem mark_completed_correct_witness:
  "\<exists>st' c pf. mark_completed toy_hash (\<lambda>_. []) sample_store [1] (sl_digest sample_leaf) = (st', Ok c) \<and>
    map_of (as_leaves st') = (map_of (as_leaves sample_store))([1] \<mapsto> sample_leaf\<lparr> sl_status := Completed \<rparr>) \<and>
    as_root st' = as_root sample_store \<and> mc_root c = as_root sample_store \<and> store_ok toy_hash st' \<and>
    has toy_hash (as_root sample_store) [1] (sl_digest sample_leaf) pf \<and>
    path_proof toy_hash (\<lambda>_. []) sample_store [1] = Ok (proof_to_cbor (\<lambda>_. []) pf) \<and>
    mc_proof c = proof_to_cbor (\<lambda>_. []) pf \<and> path_proof toy_hash (\<lambda>_. []) st' [1] = Err MissingPendingIntent"
  by (rule mark_completed_correct [OF hash32_toy sample_store_facts(1,2)])

lemma insert_absent:
  assumes "hash32 H" "store_ok H st" "inj_on H (insert key (fst ` set (as_leaves st)))" "map_of (as_leaves st) key = None"
  shows "case proof_for_missing H (store_trie st) key of
      Ok pf \<Rightarrow> (if miss H (as_root st) key pf
        then \<exists>r. insert_remaining H cbor st key oid i =
          (\<lparr> as_root = r, as_leaves = bt_insert key \<lparr> canonical_order_id = oid, sl_intent = i, sl_digest = digest H i, sl_status = Pending \<rparr> (as_leaves st) \<rparr>,
           Ok \<lparr> md_old_root = as_root st, md_new_root = r, md_proof = proof_to_cbor cbor pf \<rparr>) \<and>
          insert_root H (as_root st) key (digest H i) pf = Ok r
        else insert_remaining H cbor st key oid i = (st, Err Unsupported))
    | Err e \<Rightarrow> insert_remaining H cbor st key oid i = (st, Err Unsupported)
    | Panic \<Rightarrow> False"
proof -
  let ?t = "store_trie st"
  have t: "trie_ok H ?t" using assms(2) by (simp add: store_ok_def)
  have no: "map_of (leaves ?t) key = None" using assms(4) by (simp add: map_of_store_trie)
  have np: "H key \<notin> lf_path ` set (mpf_leaves H ?t)"
    by (rule trie_unstored [OF _ no]) (use assms(3) in \<open>simp add: keys_store_trie\<close>)
  have "case proof_for_missing H ?t key of
      Ok pf \<Rightarrow> (\<exists>r. excluding_root H (H key) 0 pf = Ok r \<and> length r = 32) \<and> (\<exists>r. including_root H (H key) vh 0 pf = Ok r) \<and> (pf = [] \<longleftrightarrow> mpf_leaves H ?t = [])
    | Err e \<Rightarrow> e = PathExhausted | Panic \<Rightarrow> False" for vh
    using unstored_proof [OF assms(1) cluster_trie [OF assms(1) t] _ np, of vh] no by (simp add: proof_for_missing_def)
  from this [of "H (digest H i)"] show ?thesis
    using assms(4) by (cases "proof_for_missing H ?t key") (auto simp: insert_remaining_def insert_root_def miss_def)
qed

text \<open>
  C9. When each operation of the store refuses, and that a refused call changes nothing.  A key that is present is refused by \<open>insert_remaining\<close>
  (\<open>ExistingPendingIntent\<close>), and an absent one (\<open>Unsupported\<close>) exactly when the trie generates no proof that the verifier accepts as
  showing it missing, which is what happens to a key that leaves the common prefix of the stored paths.  \<open>update_remaining\<close> and \<open>mark_completed\<close>
  refuse a leaf that is missing (\<open>Unsupported\<close>, since its proof is asked for first), completed (\<open>MissingPendingIntent\<close>)
  or has another digest (\<open>DigestMismatch\<close>), and accept every other one; \<open>path_proof\<close> refuses a missing or completed leaf and proves every pending one.
\<close>

theorem store_refusals:
  assumes "hash32 H" "store_ok H st" "inj_on H (insert key (fst ` set (as_leaves st)))"
  shows "case map_of (as_leaves st) key of
      None \<Rightarrow> update_remaining H cbor st key d i = (st, Err Unsupported) \<and>
        mark_completed H cbor st key d = (st, Err Unsupported) \<and>
        path_proof H cbor st key = Err MissingPendingIntent \<and>
        (if \<exists>pf. proof_for_missing H (store_trie st) key = Ok pf \<and> miss H (as_root st) key pf
         then \<exists>st' x. insert_remaining H cbor st key oid i = (st', Ok x)
         else insert_remaining H cbor st key oid i = (st, Err Unsupported))
    | Some l \<Rightarrow> insert_remaining H cbor st key oid i = (st, Err ExistingPendingIntent) \<and>
        (if sl_status l = Completed then
           update_remaining H cbor st key d i = (st, Err MissingPendingIntent) \<and>
           mark_completed H cbor st key d = (st, Err MissingPendingIntent) \<and>
           path_proof H cbor st key = Err MissingPendingIntent
         else (\<exists>pf. path_proof H cbor st key = Ok (proof_to_cbor cbor pf) \<and> has H (as_root st) key (sl_digest l) pf) \<and>
           (if d = sl_digest l then
              (\<exists>st' x. update_remaining H cbor st key d i = (st', Ok x)) \<and> (\<exists>st' x. mark_completed H cbor st key d = (st', Ok x))
            else update_remaining H cbor st key d i = (st, Err DigestMismatch) \<and>
              mark_completed H cbor st key d = (st, Err DigestMismatch)))"
proof (cases "map_of (as_leaves st) key")
  case None
  then have "proof_for_present H (store_trie st) key = Err MissingKey"
    by (simp add: proof_for_present_def map_of_store_trie)
  moreover note insert_absent [OF assms None, of cbor oid i]
  ultimately show ?thesis
    using None by (auto simp: update_remaining_def mark_completed_def checked_pending_def path_proof_def split: res.splits)
next
  case (Some l)
  obtain pf r where pf: "proof_for_present H (store_trie st) key = Ok pf" "has H (as_root st) key (sl_digest l) pf"
    using stored_leaf_proof [OF assms(1,2) Some] by metis
  have u: "\<exists>st' x. update_remaining H cbor st key (sl_digest l) i = (st', Ok x)" if "sl_status l = Pending"
    using update_remaining_ok [OF assms(1,2), of key l cbor i] Some that by (auto simp: pending_leaf_def)
  show ?thesis
    using Some pf u by (cases "sl_status l")
      (auto simp: insert_remaining_def update_remaining_def mark_completed_def checked_pending_def path_proof_def has_or_mismatch_def)
qed

definition diverging_store :: account_store where
  "diverging_store = store_of [[0], [1]]"

lemma diverging_store_ok: "store_ok toy_hash diverging_store"
  unfolding diverging_store_def by (rule store_of_ok) (simp_all add: bt_ok_def toy_hash_def inj_on_def)

lemma diverging_store_unproved:
  "\<not> (\<exists>pf. proof_for_missing toy_hash (store_trie diverging_store) [0x10, 0xff] = Ok pf \<and>
     miss toy_hash (as_root diverging_store) [0x10, 0xff] pf)"
proof -
  let ?k = "[0x10, 0xff] :: bytes" let ?t = "store_trie diverging_store"
  have t: "trie_ok toy_hash ?t" "trie_root toy_hash ?t = Ok (as_root diverging_store)"
    using diverging_store_ok by (simp_all add: store_ok_def)
  obtain s m where s: "s < 64" "length m = 32" "differ_at (mpf_leaves toy_hash ?t) s"
    "trie_root toy_hash ?t = Ok (toy_hash (nbs (toy_hash [0]) 0 s @ m))"
    "case proof_for_missing toy_hash ?t ?k of
       Ok pf \<Rightarrow> \<exists>m'. length m' = 32 \<and> excluding_root toy_hash (toy_hash ?k) 0 pf = Ok (toy_hash (nbs (toy_hash ?k) 0 s @ m'))
     | Err e \<Rightarrow> e = PathExhausted | Panic \<Rightarrow> False"
    by (rule diverging_nodes [OF hash32_toy t(1), of ?k "[0]"])
      (simp_all add: keys_store_trie map_of_store_trie leaves_store_trie diverging_store_def store_of_def Let_def toy_hash_def inj_on_def)
  have s0: "0 < s"
  proof (rule ccontr)
    assume "\<not> 0 < s"
    then show False using s(3)
      by (simp add: mpf_leaves_eq leaves_store_trie diverging_store_def store_of_def Let_def differ_at_def nib_def toy_hash_def)
  qed
  have "toy_hash (nbs (toy_hash ?k) 0 s @ m') ! 0 \<noteq> toy_hash (nbs (toy_hash [0]) 0 s @ m) ! 0" for m'
    using s0 by (simp add: toy_hash_def nth_append nbs_def nib_def)
  then show ?thesis using s(4,5) t(2) by (auto simp: miss_def) metis
qed

theorem store_refusals_witness:
  "insert_remaining toy_hash (\<lambda>_. []) diverging_store [1] (go_id (sample_order Native)) (sample_intention Current 0) =
     (diverging_store, Err ExistingPendingIntent) \<and>
   insert_remaining toy_hash (\<lambda>_. []) diverging_store [0x10, 0xff] (go_id (sample_order Native)) (sample_intention Current 0) =
     (diverging_store, Err Unsupported)"
proof -
  let ?k = "[0x10, 0xff] :: bytes"
  note ok = diverging_store_ok
  have inj: "inj_on toy_hash (insert k (fst ` set (as_leaves diverging_store)))" if "k = [1] \<or> k = ?k" for k
    using that by (auto simp: diverging_store_def store_of_def Let_def toy_hash_def inj_on_def)
  have m: "map_of (as_leaves diverging_store) ?k = None" "map_of (as_leaves diverging_store) [1] = Some (leaf_for (sample_intention Current 0))"
    by (simp_all add: diverging_store_def store_of_def Let_def)
  have "\<not> (\<exists>pf. proof_for_missing toy_hash (store_trie diverging_store) ?k = Ok pf \<and> miss toy_hash (as_root diverging_store) ?k pf)"
    by (rule diverging_store_unproved)
  then show ?thesis
    using store_refusals [OF hash32_toy ok inj [of ?k], where cbor = "\<lambda>_. []" and oid = "go_id (sample_order Native)" and i = "sample_intention Current 0"]
      store_refusals [OF hash32_toy ok inj [of "[1]"], where cbor = "\<lambda>_. []" and oid = "go_id (sample_order Native)" and i = "sample_intention Current 0"]
    by (simp add: m)
qed

lemma snapshot_entry_leaves: "map snapshot_entry (snapshot_leaves st) = as_leaves st"
  by (auto simp: snapshot_leaves_def snapshot_entry_def intro!: map_idI)

lemma bt_insert_last:
  "bt_ok (m @ [(k, v)]) \<Longrightarrow> bt_insert k v m = m @ [(k, v)]"
  by (induction m) (auto simp: bt_ok_Cons)

lemma fold_bt_insert:
  "bt_ok (acc @ m) \<Longrightarrow> fold (\<lambda>e acc. bt_insert (fst e) (snd e) acc) m acc = acc @ m"
proof (induction m arbitrary: acc)
  case (Cons e m)
  have "bt_ok (acc @ [e])" using Cons.prems by (simp add: bt_ok_def sorted_wrt_append)
  then have "bt_insert (fst e) (snd e) acc = acc @ [e]" using bt_insert_last [of acc "fst e" "snd e"] by simp
  then show ?case using Cons by simp
qed simp

lemma from_snapshot_leaves:
  assumes "store_ok H st"
  shows "from_snapshot H r (snapshot_leaves st) =
    (if as_root st \<noteq> r then Err (RootMismatch (as_root st) r) else Ok st)"
proof -
  have "fold (\<lambda>s acc. bt_insert (fst (snapshot_entry s)) (snd (snapshot_entry s)) acc) (snapshot_leaves st) [] =
      fold (\<lambda>e acc. bt_insert (fst e) (snd e) acc) (map snapshot_entry (snapshot_leaves st)) []"
    by (simp add: fold_map comp_def)
  also have "\<dots> = as_leaves st"
    using assms fold_bt_insert [of "[]" "as_leaves st"]
    by (simp add: snapshot_entry_leaves store_ok_def trie_ok_def bt_ok_store_trie)
  finally show ?thesis using assms by (simp add: from_snapshot_def store_ok_def)
qed

text \<open>
  C10. A store that satisfies the invariant is restored from its snapshot: \<open>from_snapshot\<close> of its
  root and \<open>snapshot_leaves\<close> gives the store back, and a root that is not the root of the leaves is
  refused with both roots.
\<close>

theorem snapshot_roundtrip:
  assumes "store_ok H st"
  shows "from_snapshot H (as_root st) (snapshot_leaves st) = Ok st \<and>
    (if r = as_root st then True
     else from_snapshot H r (snapshot_leaves st) = Err (RootMismatch (as_root st) r))"
  using assms by (simp add: from_snapshot_leaves)

theorem snapshot_roundtrip_witness:
  "from_snapshot toy_hash (as_root sample_store) (snapshot_leaves sample_store) = Ok sample_store"
  using snapshot_roundtrip [OF sample_store_facts(1)] by simp


section \<open>Histories\<close>

inductive store_step :: "(bytes \<Rightarrow> bytes) \<Rightarrow> (plutus_data \<Rightarrow> bytes) \<Rightarrow> account_store \<Rightarrow> account_store \<Rightarrow> bool"
  for H cbor where
  inserted: "insert_remaining H cbor st key oid i = (st', Ok d) \<Longrightarrow> store_step H cbor st st'"
| updated: "update_remaining H cbor st key od i = (st', Ok d) \<Longrightarrow> store_step H cbor st st'"
| completed: "mark_completed H cbor st key od = (st', Ok c) \<Longrightarrow> store_step H cbor st st'"

text \<open>What any sequence of operations keeps of a leaf.\<close>

definition leaf_evolves :: "stored_intent_leaf \<Rightarrow> stored_intent_leaf \<Rightarrow> bool" where
  "leaf_evolves l l' \<longleftrightarrow> canonical_order_id l' = canonical_order_id l \<and> (sl_status l = Completed \<longrightarrow> l' = l)"

lemma checked_pending_Ok:
  "checked_pending H st key od = Ok (pf, l) \<Longrightarrow> map_of (as_leaves st) key = Some l \<and> sl_status l = Pending"
  by (auto simp: checked_pending_def res_simps split: if_splits)

lemma store_step_leaf:
  assumes "store_step H cbor st st'" "map_of (as_leaves st) k = Some l"
  shows "\<exists>l'. map_of (as_leaves st') k = Some l' \<and> leaf_evolves l l'"
  using assms
proof cases
  case (inserted key oid i d)
  then show ?thesis
    using assms(2)
    by (auto simp: insert_remaining_def Let_def leaf_evolves_def map_of_bt_insert split: if_splits res.splits)
next
  case (updated key od i d)
  then obtain pf l0 where "checked_pending H st key od = Ok (pf, l0)"
    "as_leaves st' = bt_insert key (l0\<lparr> sl_intent := i, sl_digest := digest H i \<rparr>) (as_leaves st)"
    by (auto simp: update_remaining_def Let_def res_simps split: res.splits prod.splits)
  then show ?thesis
    using assms(2) checked_pending_Ok by (fastforce simp: leaf_evolves_def map_of_bt_insert)
next
  case (completed key od c)
  then obtain pf l0 where "checked_pending H st key od = Ok (pf, l0)"
    "as_leaves st' = bt_insert key (l0\<lparr> sl_status := Completed \<rparr>) (as_leaves st)"
    by (auto simp: mark_completed_def Let_def res_simps split: res.splits prod.splits)
  then show ?thesis
    using assms(2) checked_pending_Ok by (fastforce simp: leaf_evolves_def map_of_bt_insert)
qed

text \<open>
  C11. Over any sequence of successful operations no leaf disappears, the order id of a leaf never
  changes, and a completed leaf stays exactly as it is.
\<close>

theorem completed_leaves_are_final:
  assumes "(store_step H cbor)\<^sup>*\<^sup>* st st'" "map_of (as_leaves st) k = Some l"
  shows "\<exists>l'. map_of (as_leaves st') k = Some l' \<and> canonical_order_id l' = canonical_order_id l \<and>
    (if sl_status l = Completed then l' = l else True)"
proof -
  have "\<exists>l'. map_of (as_leaves st') k = Some l' \<and> leaf_evolves l l'"
    using assms
  proof (induction rule: rtranclp_induct)
    case base
    then show ?case by (auto simp: leaf_evolves_def)
  next
    case (step y z)
    then obtain l1 where "map_of (as_leaves y) k = Some l1" "leaf_evolves l l1" by blast
    then show ?case
      using store_step_leaf [OF step.hyps(2)] by (fastforce simp: leaf_evolves_def)
  qed
  then show ?thesis by (auto simp: leaf_evolves_def)
qed

theorem completed_leaves_are_final_witness:
  "\<exists>st'. (store_step toy_hash (\<lambda>_. []))\<^sup>*\<^sup>* sample_store st' \<and> st' \<noteq> sample_store \<and>
    (\<exists>l'. map_of (as_leaves st') [1] = Some l' \<and> canonical_order_id l' = canonical_order_id sample_leaf \<and>
      (if sl_status sample_leaf = Completed then l' = sample_leaf else True))"
proof -
  let ?i = "sample_intention Current 3"
  obtain st' d where u: "update_remaining toy_hash (\<lambda>_. []) sample_store [1] (sl_digest sample_leaf) ?i = (st', Ok d)"
    "map_of (as_leaves st') [1] = Some (sample_leaf\<lparr> sl_intent := ?i, sl_digest := digest toy_hash ?i \<rparr>)"
    using update_remaining_ok [OF hash32_toy sample_store_facts(1,2), of "\<lambda>_. []" ?i] by auto
  have "st' \<noteq> sample_store"
    using u(2) sample_store_facts(3) by (auto simp: sample_leaf_def sample_intention_def)
  moreover have "(store_step toy_hash (\<lambda>_. []))\<^sup>*\<^sup>* sample_store st'"
    using store_step.updated [OF u(1)] by blast
  ultimately show ?thesis
    using completed_leaves_are_final [OF _ sample_store_facts(3)] by blast
qed

end
