(* ===== verification/Account_Index.thy ===== *)
theory Account_Index
  imports Account_Store
begin

text \<open>
  The index of Aleph accounts (\<open>green-order-cardano-agent/src/account_index.rs\<close>) and the ledger events
  that drive it (\<open>account_events.rs\<close>).

  \<open>TransactionOutput\<close> is the type variable \<open>'o\<close>; \<open>FinalizedTxOut\<close> is an output with its reference.
  \<open>persist_account_stores\<close> is a state change like any other: the field \<open>disk\<close> holds the content of the
  snapshot file, \<open>None\<close> when no path is configured (\<open>Some None\<close> before the first write).  A failed
  write is only logged by the code; the model is of the writes that succeed.  JSON and the file
  system are outside the sources; reading the file back is assumed to give what was written.
\<close>

section \<open>State\<close>

type_synonym account_id = bytes
type_synonym store_snapshot_id = u64
type_synonym 'o finalized_tx_out = "'o \<times> output_ref"

definition reference :: "'o finalized_tx_out \<Rightarrow> output_ref" where
  "reference t = snd t"

record 'o aleph_account_utxo =
  au_output_ref :: output_ref
  au_output :: 'o
  au_state :: aleph_account_state

datatype credential = PubKey bytes | Script bytes
datatype datum_option = Datum plutus_data | DatumHash bytes

text \<open>
  What the parser reads of an output through the ledger library, the integer conversion it uses and
  the script hash of the deployed account validator.
\<close>

record 'o account_ctx =
  payment_cred :: "'o \<Rightarrow> credential option"
  into_datum :: "'o \<Rightarrow> datum_option option"
  as_int_of :: "int \<Rightarrow> int option"
  validator_hash :: bytes

fun datum_into_pd :: "datum_option \<Rightarrow> plutus_data option" where
  "datum_into_pd (Datum d) = Some d"
| "datum_into_pd (DatumHash _) = None"

definition test_address :: "credential option \<Rightarrow> bytes \<Rightarrow> bool" where
  "test_address cred h = (case cred of Some (Script this_hash) \<Rightarrow> this_hash = h | _ \<Rightarrow> False)"

definition try_parse :: "'o account_ctx \<Rightarrow> output_ref \<Rightarrow> 'o \<Rightarrow> 'o aleph_account_utxo option" where
  "try_parse ctx r out =
    (if \<not> test_address (payment_cred ctx out) (validator_hash ctx) then None
     else
       Option.bind (into_datum ctx out) (\<lambda>d.
       Option.bind (datum_into_pd d) (\<lambda>pd.
       Option.bind (account_state_try_from_pd (as_int_of ctx) pd) (\<lambda>st.
         Some \<lparr> au_output_ref = r, au_output = out, au_state = st \<rparr>))))"

record 'o indexed_account =
  ia_utxo :: "'o finalized_tx_out"
  ia_store :: account_store

record account_status =
  current_flag :: bool
  persisted_flag :: bool
  pending_flag :: bool
  unbound_flag :: bool
  predicted_flag :: bool

datatype account_binding_error =
    AlreadyBound
  | OutputAlreadyBound
  | OutputNotObserved
  | NonEmptyUnplannedRoot

record persisted_account_store =
  pas_account_id :: account_id
  pas_output_ref :: output_ref
  pas_root :: bytes
  pas_leaves :: "stored_intent_leaf_snapshot list"

record persisted_pending_store =
  pps_snapshot_id :: store_snapshot_id
  pps_account_id :: account_id
  pps_old_ref :: output_ref
  pps_root :: bytes
  pps_leaves :: "stored_intent_leaf_snapshot list"

record persisted_account_stores =
  stores :: "persisted_account_store list"
  pending :: "persisted_pending_store list"
  file_next_snapshot_id :: u64

record 'o account_index =
  by_account_id :: "(account_id, 'o indexed_account) hash_map"
  by_output_ref :: "(output_ref, account_id) hash_map"
  predicted_by_output_ref :: "(output_ref, account_id \<times> 'o) hash_map"
  unbound_by_output_ref :: "(output_ref, 'o aleph_account_utxo) hash_map"
  persisted_by_output_ref :: "(output_ref, account_id \<times> account_store) hash_map"
  pending_by_account_id :: "account_id set"
  rollback_by_spent_ref :: "(output_ref, account_id \<times> 'o indexed_account) hash_map"
  pending_store_by_snapshot_id :: "(store_snapshot_id, account_id \<times> output_ref \<times> account_store) hash_map"
  pending_snapshot_by_output_ref :: "(output_ref, store_snapshot_id) hash_map"
  disk :: "persisted_account_stores option option"
  next_snapshot_id :: u64

text \<open>\<open>HashMap::retain\<close>.\<close>

definition hm_retain :: "('k \<Rightarrow> 'v \<Rightarrow> bool) \<Rightarrow> ('k, 'v) hash_map \<Rightarrow> ('k, 'v) hash_map" where
  "hm_retain p m = filter (\<lambda>(k, v). p k v) m"


section \<open>Persistence\<close>

definition from_parts :: "account_id \<Rightarrow> output_ref \<Rightarrow> account_store \<Rightarrow> persisted_account_store" where
  "from_parts acc r st = \<lparr> pas_account_id = acc, pas_output_ref = r, pas_root = as_root st,
     pas_leaves = snapshot_leaves st \<rparr>"

definition from_indexed :: "account_id \<Rightarrow> 'o indexed_account \<Rightarrow> persisted_account_store" where
  "from_indexed acc ind = from_parts acc (reference (ia_utxo ind)) (ia_store ind)"

definition into_store ::
  "(bytes \<Rightarrow> bytes) \<Rightarrow> persisted_account_store \<Rightarrow>
   (green_store_planning_error, output_ref \<times> account_id \<times> account_store) res" where
  "into_store H p = and_then (from_snapshot H (pas_root p) (pas_leaves p)) (\<lambda>st.
     Ok (pas_output_ref p, pas_account_id p, st))"

definition from_pending ::
  "store_snapshot_id \<Rightarrow> account_id \<Rightarrow> output_ref \<Rightarrow> account_store \<Rightarrow> persisted_pending_store" where
  "from_pending sid acc r st = \<lparr> pps_snapshot_id = sid, pps_account_id = acc, pps_old_ref = r,
     pps_root = as_root st, pps_leaves = snapshot_leaves st \<rparr>"

definition into_pending ::
  "(bytes \<Rightarrow> bytes) \<Rightarrow> persisted_pending_store \<Rightarrow>
   (green_store_planning_error, store_snapshot_id \<times> account_id \<times> output_ref \<times> account_store) res" where
  "into_pending H p = and_then (from_snapshot H (pps_root p) (pps_leaves p)) (\<lambda>st.
     Ok (pps_snapshot_id p, pps_account_id p, pps_old_ref p, st))"

definition persist_account_stores :: "'o account_index \<Rightarrow> 'o account_index" where
  "persist_account_stores ix =
    (case disk ix of
       None \<Rightarrow> ix
     | Some _ \<Rightarrow> ix\<lparr> disk := Some (Some
         \<lparr> stores = map (\<lambda>(acc, ind). from_indexed acc ind) (by_account_id ix) @
             map (\<lambda>(r, acc, st). from_parts acc r st) (persisted_by_output_ref ix),
           pending = map (\<lambda>(sid, acc, r, st). from_pending sid acc r st) (pending_store_by_snapshot_id ix),
           file_next_snapshot_id = next_snapshot_id ix \<rparr>) \<rparr>)"

definition default_index :: "persisted_account_stores option option \<Rightarrow> 'o account_index" where
  "default_index d = \<lparr> by_account_id = [], by_output_ref = [], predicted_by_output_ref = [],
     unbound_by_output_ref = [], persisted_by_output_ref = [], pending_by_account_id = {},
     rollback_by_spent_ref = [], pending_store_by_snapshot_id = [], pending_snapshot_by_output_ref = [],
     disk = d, next_snapshot_id = 0 \<rparr>"

text \<open>\<open>load_persisted_stores\<close>: a missing file is an empty state; one bad entry refuses the whole file.\<close>

definition load_persisted_stores ::
  "(bytes \<Rightarrow> bytes) \<Rightarrow> persisted_account_stores option \<Rightarrow>
   (green_store_planning_error,
    (output_ref \<times> account_id \<times> account_store) list \<times>
    (store_snapshot_id \<times> account_id \<times> output_ref \<times> account_store) list \<times> u64) res" where
  "load_persisted_stores H file =
    (case file of
       None \<Rightarrow> Ok ([], [], 0)
     | Some f \<Rightarrow>
         and_then (traverse (into_store H) (stores f)) (\<lambda>ss.
         and_then (traverse (into_pending H) (pending f)) (\<lambda>ps.
           Ok (ss, ps, file_next_snapshot_id f))))"

text \<open>\<open>collect\<close> into a \<open>HashMap\<close>: later entries replace earlier ones.\<close>

definition hm_collect :: "('k \<times> 'v) list \<Rightarrow> ('k, 'v) hash_map" where
  "hm_collect es = fold (\<lambda>(k, v) m. hm_insert k v m) es []"

definition with_persistence_path ::
  "(bytes \<Rightarrow> bytes) \<Rightarrow> persisted_account_stores option \<Rightarrow> 'o account_index" where
  "with_persistence_path H file =
    (let ix = default_index (Some file) in
     case load_persisted_stores H file of
       Ok (ss, ps, next) \<Rightarrow>
         let pend = hm_collect ps in
         ix\<lparr> persisted_by_output_ref := hm_collect ss,
             pending_store_by_snapshot_id := pend,
             next_snapshot_id := max next (foldr max (map (\<lambda>(sid, _). saturating_add sid 1) pend) 0) \<rparr>
     | _ \<Rightarrow> ix)"


section \<open>Queries\<close>

definition current :: "'o account_index \<Rightarrow> account_id \<Rightarrow> 'o finalized_tx_out option" where
  "current ix acc = map_option ia_utxo (map_of (by_account_id ix) acc)"

definition current_or_pending_base :: "'o account_index \<Rightarrow> account_id \<Rightarrow> 'o finalized_tx_out option" where
  "current_or_pending_base ix acc =
    (case current ix acc of
       Some u \<Rightarrow> Some u
     | None \<Rightarrow>
         if acc \<notin> pending_by_account_id ix then None
         else
           (case List.map_filter (\<lambda>(_, _, old_ref, _). map_of (rollback_by_spent_ref ix) old_ref)
               (filter (\<lambda>(_, a, _, _). a = acc) (pending_store_by_snapshot_id ix)) of
              [] \<Rightarrow> None
            | (_, ind) # _ \<Rightarrow> Some (ia_utxo ind)))"

definition current_store_root :: "'o account_index \<Rightarrow> account_id \<Rightarrow> bytes option" where
  "current_store_root ix acc = map_option (\<lambda>ind. as_root (ia_store ind)) (map_of (by_account_id ix) acc)"

definition get_account_status :: "'o account_index \<Rightarrow> account_id \<Rightarrow> output_ref \<Rightarrow> account_status" where
  "get_account_status ix acc r =
    \<lparr> current_flag = (case map_of (by_account_id ix) acc of None \<Rightarrow> False | Some ind \<Rightarrow> reference (ia_utxo ind) = r),
      persisted_flag = (case map_of (persisted_by_output_ref ix) r of None \<Rightarrow> False | Some (a, _) \<Rightarrow> a = acc),
      pending_flag = (acc \<in> pending_by_account_id ix),
      unbound_flag = (map_of (unbound_by_output_ref ix) r \<noteq> None),
      predicted_flag = (case map_of (predicted_by_output_ref ix) r of None \<Rightarrow> False | Some (a, _) \<Rightarrow> a = acc) \<rparr>"

definition pending_snapshot :: "'o account_index \<Rightarrow> store_snapshot_id \<Rightarrow> account_store option" where
  "pending_snapshot ix sid = map_option (\<lambda>(_, _, st). st) (map_of (pending_store_by_snapshot_id ix) sid)"

definition continuation_order :: "account_id \<Rightarrow> stored_intent_leaf \<Rightarrow> bytes \<Rightarrow> green_order" where
  "continuation_order acc l pf = (let i = sl_intent l in
    \<lparr> go_id = canonical_order_id l,
      go_account_id = acc,
      intention = \<lparr> input_asset = leaving_asset i, output_asset = arriving_asset i,
        gi_leaving_amount = leaving_amount i, gi_expected_arriving_amount = expected_arriving_amount i,
        gi_fee_lovelace = fee_lovelace i, target_nonce_slot = target_nonce_index i,
        gi_target_nonce_value = target_nonce_value i, operator_key_hash = operator i \<rparr>,
      accumulated_output = 0,
      current_remainder = leaving_amount i,
      go_auth = Path pf \<rparr>)"

text \<open>
  A leaf whose proof fails is skipped.  So is one whose proof would panic, where the source panics; on a store that satisfies its invariant every pending leaf has its proof.
\<close>

definition account_continuations ::
  "(bytes \<Rightarrow> bytes) \<Rightarrow> (plutus_data \<Rightarrow> bytes) \<Rightarrow> account_id \<Rightarrow> 'o indexed_account \<Rightarrow>
   (green_order \<times> 'o finalized_tx_out) list" where
  "account_continuations H cbor acc ind =
    List.map_filter (\<lambda>(key, l).
      (case path_proof H cbor (ia_store ind) key of
         Ok pf \<Rightarrow> Some (continuation_order acc l pf, ia_utxo ind)
       | _ \<Rightarrow> None)) (pending_leaves (ia_store ind))"

definition pending_continuations ::
  "(bytes \<Rightarrow> bytes) \<Rightarrow> (plutus_data \<Rightarrow> bytes) \<Rightarrow> 'o account_index \<Rightarrow> (green_order \<times> 'o finalized_tx_out) list" where
  "pending_continuations H cbor ix =
    concat (map (\<lambda>(acc, ind). account_continuations H cbor acc ind) (by_account_id ix))"


section \<open>Binding\<close>

definition remove_bound_output :: "'o account_index \<Rightarrow> output_ref \<Rightarrow> 'o account_index \<times> account_id option" where
  "remove_bound_output ix r =
    (ix\<lparr> by_output_ref := hm_remove r (by_output_ref ix) \<rparr>, map_of (by_output_ref ix) r)"

definition bind_indexed :: "'o account_index \<Rightarrow> account_id \<Rightarrow> 'o indexed_account \<Rightarrow> 'o account_index" where
  "bind_indexed ix acc ind =
    (let r = reference (ia_utxo ind);
         ix1 = (case map_of (by_account_id ix) acc of
                  Some previous \<Rightarrow> ix\<lparr> by_account_id := hm_remove acc (by_account_id ix),
                    by_output_ref := hm_remove (reference (ia_utxo previous)) (by_output_ref ix) \<rparr>
                | None \<Rightarrow> ix);
         ix2 = ix1\<lparr> by_output_ref := hm_insert r acc (by_output_ref ix1),
                    by_account_id := hm_insert acc ind (by_account_id ix1),
                    pending_by_account_id := pending_by_account_id ix1 - {acc},
                    unbound_by_output_ref := hm_remove r (unbound_by_output_ref ix1) \<rparr>
     in persist_account_stores ix2)"

definition indexed_of :: "'o aleph_account_utxo \<Rightarrow> account_store \<Rightarrow> 'o indexed_account" where
  "indexed_of a st = \<lparr> ia_utxo = (au_output a, au_output_ref a), ia_store = st \<rparr>"

definition bind_observed :: "'o account_index \<Rightarrow> account_id \<Rightarrow> 'o aleph_account_utxo \<Rightarrow> 'o account_index" where
  "bind_observed ix acc a =
    (case from_observed_root (store_root (au_state a)) of
       None \<Rightarrow> ix\<lparr> unbound_by_output_ref := hm_insert (au_output_ref a) a (unbound_by_output_ref ix) \<rparr>
     | Some st \<Rightarrow> bind_indexed ix acc (indexed_of a st))"

definition bind_external_account_id ::
  "'o account_index \<Rightarrow> account_id \<Rightarrow> output_ref \<Rightarrow> 'o account_index \<times> 'o finalized_tx_out option" where
  "bind_external_account_id ix acc r =
    (case map_of (unbound_by_output_ref ix) r of
       None \<Rightarrow> (ix, None)
     | Some a \<Rightarrow>
         let ix' = bind_observed (ix\<lparr> unbound_by_output_ref := hm_remove r (unbound_by_output_ref ix) \<rparr>) acc a
         in (ix', current ix' acc))"

definition bind_external_account_id_once ::
  "'o account_index \<Rightarrow> account_id \<Rightarrow> output_ref \<Rightarrow>
   'o account_index \<times> (account_binding_error, 'o finalized_tx_out) res" where
  "bind_external_account_id_once ix acc r =
    (if map_of (by_account_id ix) acc \<noteq> None \<or> acc \<in> pending_by_account_id ix \<or>
        list_ex (\<lambda>(_, a, _). a = acc) (persisted_by_output_ref ix) then (ix, Err AlreadyBound)
     else if map_of (by_output_ref ix) r \<noteq> None \<or> map_of (persisted_by_output_ref ix) r \<noteq> None
     then (ix, Err OutputAlreadyBound)
     else
       (case map_of (unbound_by_output_ref ix) r of
          None \<Rightarrow> (ix, Err OutputNotObserved)
        | Some a \<Rightarrow>
            let ix1 = ix\<lparr> unbound_by_output_ref := hm_remove r (unbound_by_output_ref ix) \<rparr> in
            (case from_observed_root (store_root (au_state a)) of
               None \<Rightarrow> (ix1\<lparr> unbound_by_output_ref := hm_insert r a (unbound_by_output_ref ix1) \<rparr>,
                        Err NonEmptyUnplannedRoot)
             | Some st \<Rightarrow>
                 let ix2 = bind_indexed ix1 acc (indexed_of a st)
                 in (ix2, ok_or (current ix2 acc) OutputNotObserved))))"


section \<open>Planning\<close>

definition store_for_planning :: "'o account_index \<Rightarrow> account_id \<Rightarrow> output_ref \<Rightarrow> account_store option" where
  "store_for_planning ix acc old_ref =
    (case map_of (by_account_id ix) acc of
       Some ind \<Rightarrow> if reference (ia_utxo ind) \<noteq> old_ref then None else Some (ia_store ind)
     | None \<Rightarrow>
         if acc \<notin> pending_by_account_id ix \<or> map_of (rollback_by_spent_ref ix) old_ref = None then None
         else if \<not> list_ex (\<lambda>(_, a, o', _). a = acc \<and> o' = old_ref) (pending_store_by_snapshot_id ix) then None
         else map_option (\<lambda>(_, ind). ia_store ind) (map_of (rollback_by_spent_ref ix) old_ref))"

definition remove_pending_snapshots_for :: "'o account_index \<Rightarrow> account_id \<Rightarrow> output_ref \<Rightarrow> 'o account_index" where
  "remove_pending_snapshots_for ix acc old_ref =
    (let removed = map fst (filter (\<lambda>(_, a, o', _). a = acc \<and> o' = old_ref) (pending_store_by_snapshot_id ix)) in
     if removed = [] then ix
     else ix\<lparr> pending_store_by_snapshot_id :=
                hm_retain (\<lambda>sid _. sid \<notin> set removed) (pending_store_by_snapshot_id ix),
              pending_snapshot_by_output_ref :=
                hm_retain (\<lambda>_ sid. sid \<notin> set removed) (pending_snapshot_by_output_ref ix) \<rparr>)"

definition reserve_predicted_store_snapshot ::
  "'o account_index \<Rightarrow> account_id \<Rightarrow> output_ref \<Rightarrow> account_store \<Rightarrow> 'o account_index \<times> store_snapshot_id" where
  "reserve_predicted_store_snapshot ix acc old_ref predicted_store =
    (let sid = next_snapshot_id ix;
         ix1 = ix\<lparr> next_snapshot_id := next_snapshot_id ix + 1 \<rparr>;
         ix2 = fst (remove_bound_output ix1 old_ref);
         ix3 = (case map_of (by_account_id ix2) acc of
                  Some output \<Rightarrow> ix2\<lparr> by_account_id := hm_remove acc (by_account_id ix2),
                    rollback_by_spent_ref := hm_insert old_ref (acc, output) (rollback_by_spent_ref ix2) \<rparr>
                | None \<Rightarrow> ix2);
         ix4 = ix3\<lparr> pending_by_account_id := insert acc (pending_by_account_id ix3),
                    pending_store_by_snapshot_id :=
                      hm_insert sid (acc, old_ref, predicted_store) (pending_store_by_snapshot_id ix3) \<rparr>
     in (persist_account_stores ix4, sid))"

text \<open>The planning operations share everything but the change of the cloned store.\<close>

definition plan_with ::
  "'o account_index \<Rightarrow> account_id \<Rightarrow> output_ref \<Rightarrow>
   (account_store \<Rightarrow> account_store \<times> (green_store_planning_error, 'd) res) \<Rightarrow> ('d \<Rightarrow> store_snapshot_id \<Rightarrow> 'p) \<Rightarrow>
   'o account_index \<times> (green_store_planning_error, 'p) res" where
  "plan_with ix acc old_ref change planned =
    (case store_for_planning ix acc old_ref of
       None \<Rightarrow> (ix, Err MissingAccount)
     | Some base_store \<Rightarrow>
         (case change base_store of
            (_, Err e) \<Rightarrow> (ix, Err e)
          | (_, Panic) \<Rightarrow> (ix, Panic)
          | (predicted, Ok delta) \<Rightarrow>
              let ix1 = remove_pending_snapshots_for ix acc old_ref;
                  (ix2, sid) = reserve_predicted_store_snapshot ix1 acc old_ref predicted
              in (ix2, Ok (planned delta sid))))"

definition plan_sig_insert ::
  "(bytes \<Rightarrow> bytes) \<Rightarrow> (plutus_data \<Rightarrow> bytes) \<Rightarrow> 'o account_index \<Rightarrow> account_id \<Rightarrow> output_ref \<Rightarrow>
   green_order_id \<Rightarrow> bytes \<Rightarrow> aleph_intention \<Rightarrow>
   'o account_index \<times> (green_store_planning_error, planned_store_delta) res" where
  "plan_sig_insert H cbor ix acc old_ref order_id key updated_intent =
    plan_with ix acc old_ref (\<lambda>st. insert_remaining H cbor st key order_id updated_intent) planned_delta"

definition plan_path_update ::
  "(bytes \<Rightarrow> bytes) \<Rightarrow> (plutus_data \<Rightarrow> bytes) \<Rightarrow> 'o account_index \<Rightarrow> account_id \<Rightarrow> output_ref \<Rightarrow>
   bytes \<Rightarrow> bytes \<Rightarrow> aleph_intention \<Rightarrow>
   'o account_index \<times> (green_store_planning_error, planned_store_delta) res" where
  "plan_path_update H cbor ix acc old_ref key old_digest updated_intent =
    plan_with ix acc old_ref (\<lambda>st. update_remaining H cbor st key old_digest updated_intent) planned_delta"

definition plan_path_completion ::
  "(bytes \<Rightarrow> bytes) \<Rightarrow> (plutus_data \<Rightarrow> bytes) \<Rightarrow> 'o account_index \<Rightarrow> account_id \<Rightarrow> output_ref \<Rightarrow>
   bytes \<Rightarrow> bytes \<Rightarrow>
   'o account_index \<times> (green_store_planning_error, planned_store_completion) res" where
  "plan_path_completion H cbor ix acc old_ref key old_digest =
    plan_with ix acc old_ref (\<lambda>st. mark_completed H cbor st key old_digest) planned_completion"

definition attach_predicted_output_ref ::
  "'o account_index \<Rightarrow> store_snapshot_id \<Rightarrow> output_ref \<Rightarrow>
   'o account_index \<times> (green_store_planning_error, unit) res" where
  "attach_predicted_output_ref ix sid r =
    (if map_of (pending_store_by_snapshot_id ix) sid = None then (ix, Err MissingStore)
     else (persist_account_stores (ix\<lparr> pending_snapshot_by_output_ref :=
             hm_insert r sid (pending_snapshot_by_output_ref ix) \<rparr>), Ok ()))"

definition mark_pending_update ::
  "'o account_index \<Rightarrow> account_id \<Rightarrow> output_ref \<Rightarrow> output_ref \<Rightarrow> 'o \<Rightarrow> 'o account_index" where
  "mark_pending_update ix acc old_ref new_ref new_output =
    (let ix1 = fst (remove_bound_output ix old_ref) in
     ix1\<lparr> by_account_id := hm_remove acc (by_account_id ix1),
          pending_by_account_id := insert acc (pending_by_account_id ix1),
          predicted_by_output_ref := hm_insert new_ref (acc, new_output) (predicted_by_output_ref ix1) \<rparr>)"


section \<open>Ledger observations\<close>

definition observe_consumed :: "'o account_index \<Rightarrow> output_ref \<Rightarrow> 'o account_index" where
  "observe_consumed ix r =
    (let (ix1, bound) = remove_bound_output ix r;
         ix2 = (case bound of
                  None \<Rightarrow> ix1
                | Some acc \<Rightarrow>
                    let ix' = (case map_of (by_account_id ix1) acc of
                          Some output \<Rightarrow> ix1\<lparr> by_account_id := hm_remove acc (by_account_id ix1),
                            rollback_by_spent_ref := hm_insert r (acc, output) (rollback_by_spent_ref ix1) \<rparr>
                        | None \<Rightarrow> ix1)
                    in ix'\<lparr> pending_by_account_id := insert acc (pending_by_account_id ix') \<rparr>)
     in persist_account_stores
       (ix2\<lparr> predicted_by_output_ref := hm_remove r (predicted_by_output_ref ix2),
             unbound_by_output_ref := hm_remove r (unbound_by_output_ref ix2) \<rparr>))"

definition observe_rollback_consumed :: "'o account_index \<Rightarrow> output_ref \<Rightarrow> 'o account_index" where
  "observe_rollback_consumed ix r =
    (let ix1 = (case map_of (rollback_by_spent_ref ix) r of
                  None \<Rightarrow> ix
                | Some (acc, ind) \<Rightarrow>
                    bind_indexed (ix\<lparr> rollback_by_spent_ref := hm_remove r (rollback_by_spent_ref ix) \<rparr>) acc ind);
         ix2 = ix1\<lparr> pending_store_by_snapshot_id :=
                      hm_retain (\<lambda>_ (_, old_ref, _). old_ref \<noteq> r) (pending_store_by_snapshot_id ix1) \<rparr>
     in persist_account_stores
       (ix2\<lparr> pending_snapshot_by_output_ref :=
               hm_retain (\<lambda>_ sid. map_of (pending_store_by_snapshot_id ix2) sid \<noteq> None)
                 (pending_snapshot_by_output_ref ix2) \<rparr>))"

definition observe_removed_output :: "'o account_index \<Rightarrow> output_ref \<Rightarrow> 'o account_index" where
  "observe_removed_output ix r =
    (let ix1 = (case map_of (by_output_ref ix) r of
                  None \<Rightarrow> ix
                | Some acc \<Rightarrow> ix\<lparr> by_output_ref := hm_remove r (by_output_ref ix),
                    by_account_id := hm_remove acc (by_account_id ix),
                    pending_by_account_id := insert acc (pending_by_account_id ix) \<rparr>)
     in persist_account_stores
       (ix1\<lparr> predicted_by_output_ref := hm_remove r (predicted_by_output_ref ix1),
             unbound_by_output_ref := hm_remove r (unbound_by_output_ref ix1) \<rparr>))"

definition bind_confirmed_predicted_store ::
  "'o account_index \<Rightarrow> output_ref \<Rightarrow> 'o aleph_account_utxo \<Rightarrow>
   'o account_index \<times> (green_store_planning_error, unit) res" where
  "bind_confirmed_predicted_store ix predicted_ref a =
    (case map_of (pending_snapshot_by_output_ref ix) predicted_ref of
       None \<Rightarrow> (ix, Err MissingStore)
     | Some sid \<Rightarrow>
         (case map_of (pending_store_by_snapshot_id ix) sid of
            None \<Rightarrow> (ix, Err MissingStore)
          | Some (acc, _, st) \<Rightarrow>
              if store_root (au_state a) \<noteq> as_root st
              then (ix, Err (RootMismatch (as_root st) (store_root (au_state a))))
              else
                let ix1 = ix\<lparr> pending_store_by_snapshot_id := hm_remove sid (pending_store_by_snapshot_id ix),
                              pending_snapshot_by_output_ref :=
                                hm_remove predicted_ref (pending_snapshot_by_output_ref ix) \<rparr>
                in (persist_account_stores (bind_indexed ix1 acc (indexed_of a st)), Ok ())))"

definition bind_confirmed_store_for_consumed_refs ::
  "'o account_index \<Rightarrow> output_ref set \<Rightarrow> 'o aleph_account_utxo \<Rightarrow>
   'o account_index \<times> (green_store_planning_error, unit) res" where
  "bind_confirmed_store_for_consumed_refs ix consumed_refs a =
    (let matching = filter (\<lambda>(_, _, old_ref, st). old_ref \<in> consumed_refs \<and> as_root st = store_root (au_state a))
           (pending_store_by_snapshot_id ix) in
     case matching of
       [] \<Rightarrow> (ix, Err MissingStore)
     | (_, acc, _, st) # _ \<Rightarrow>
         if list_ex (\<lambda>(_, acc', _, st'). acc' \<noteq> acc \<or> st' \<noteq> st) matching then (ix, Err MissingStore)
         else
           let ids = map fst matching;
               ix1 = ix\<lparr> pending_store_by_snapshot_id :=
                           hm_retain (\<lambda>sid _. sid \<notin> set ids) (pending_store_by_snapshot_id ix),
                         pending_snapshot_by_output_ref :=
                           hm_retain (\<lambda>_ sid. sid \<notin> set ids) (pending_snapshot_by_output_ref ix) \<rparr>
           in (persist_account_stores (bind_indexed ix1 acc (indexed_of a st)), Ok ()))"

definition bind_empty_successor_for_consumed_account ::
  "'o account_index \<Rightarrow> account_id set \<Rightarrow> 'o aleph_account_utxo \<Rightarrow> 'o account_index \<times> bool" where
  "bind_empty_successor_for_consumed_account ix consumed_ids a =
    (if card consumed_ids \<noteq> 1 then (ix, False)
     else
       (case from_observed_root (store_root (au_state a)) of
          None \<Rightarrow> (ix, False)
        | Some st \<Rightarrow>
            let acc = the_elem consumed_ids in
            if acc \<notin> pending_by_account_id ix then (ix, False)
            else (bind_indexed ix acc (indexed_of a st), True)))"

definition observe_created_or_updated :: "'o account_index \<Rightarrow> 'o aleph_account_utxo \<Rightarrow> 'o account_index" where
  "observe_created_or_updated ix a =
    (let r = au_output_ref a in
     case map_of (predicted_by_output_ref ix) r of
       Some (acc, _) \<Rightarrow>
         let ix1 = ix\<lparr> predicted_by_output_ref := hm_remove r (predicted_by_output_ref ix) \<rparr> in
         (case bind_confirmed_predicted_store ix1 r a of
            (ix2, Ok _) \<Rightarrow> ix2
          | (ix2, _) \<Rightarrow> bind_observed ix2 acc a)
     | None \<Rightarrow>
         if map_of (pending_snapshot_by_output_ref ix) r \<noteq> None
         then fst (bind_confirmed_predicted_store ix r a)
         else
           (case map_of (persisted_by_output_ref ix) r of
              Some (acc, st) \<Rightarrow>
                if as_root st = store_root (au_state a)
                then bind_indexed (ix\<lparr> persisted_by_output_ref := hm_remove r (persisted_by_output_ref ix) \<rparr>)
                       acc (indexed_of a st)
                else ix\<lparr> unbound_by_output_ref := hm_insert r a (unbound_by_output_ref ix) \<rparr>
            | None \<Rightarrow> ix\<lparr> unbound_by_output_ref := hm_insert r a (unbound_by_output_ref ix) \<rparr>))"

definition observe_produced ::
  "output_ref set \<Rightarrow> account_id set \<Rightarrow> 'o aleph_account_utxo \<Rightarrow> 'o account_index \<Rightarrow> 'o account_index" where
  "observe_produced consumed_refs consumed_ids a ix =
    (case bind_confirmed_store_for_consumed_refs ix consumed_refs a of
       (ix1, Ok _) \<Rightarrow> ix1
     | (ix1, _) \<Rightarrow>
         (case bind_empty_successor_for_consumed_account ix1 consumed_ids a of
            (ix2, True) \<Rightarrow> ix2
          | (ix2, False) \<Rightarrow> observe_created_or_updated ix2 a))"

text \<open>
  The consumed references are collected into a \<open>HashSet\<close>, whose iteration order is not specified:
  \<open>remdups\<close> of the inputs is one such order.
\<close>

definition observe_transaction ::
  "'o account_index \<Rightarrow> output_ref list \<Rightarrow> 'o aleph_account_utxo list \<Rightarrow> 'o account_index" where
  "observe_transaction ix consumed produced =
    (let consumed_ids = set (remdups (List.map_filter (map_of (by_output_ref ix)) consumed));
         ix1 = fold (\<lambda>r ix. observe_consumed ix r) (remdups consumed) ix
     in fold (observe_produced (set consumed) consumed_ids) produced ix1)"


section \<open>Account events\<close>

datatype 'o account_event = Consumed output_ref | Produced "'o aleph_account_utxo"

record 'o tx_view =
  tv_hash :: bytes
  tv_inputs :: "output_ref list"
  tv_outputs :: "(nat \<times> 'o) list"

definition scan_account_events ::
  "'o account_ctx \<Rightarrow> 'o tx_view \<Rightarrow> 'o account_event list" where
  "scan_account_events ctx tx =
    map Consumed (tv_inputs tx) @
    List.map_filter (\<lambda>(index, output). map_option Produced (try_parse ctx (tv_hash tx, of_nat index) output))
      (tv_outputs tx)"

fun consumed_of :: "'o account_event list \<Rightarrow> output_ref list" where
  "consumed_of [] = []"
| "consumed_of (Consumed r # es) = r # consumed_of es"
| "consumed_of (Produced _ # es) = consumed_of es"

fun produced_of :: "'o account_event list \<Rightarrow> 'o aleph_account_utxo list" where
  "produced_of [] = []"
| "produced_of (Consumed _ # es) = produced_of es"
| "produced_of (Produced a # es) = a # produced_of es"

definition apply_account_events :: "'o account_index \<Rightarrow> 'o account_event list \<Rightarrow> 'o account_index" where
  "apply_account_events ix events = observe_transaction ix (consumed_of events) (produced_of events)"

fun revert_account_events :: "'o account_index \<Rightarrow> 'o account_event list \<Rightarrow> 'o account_index" where
  "revert_account_events ix [] = ix"
| "revert_account_events ix (Produced a # es) =
    revert_account_events (observe_removed_output ix (au_output_ref a)) es"
| "revert_account_events ix (Consumed r # es) =
    revert_account_events (observe_rollback_consumed ix r) es"

datatype 'o ledger_tx_event = TxApplied "'o tx_view" | TxUnapplied "'o tx_view"

fun handle_ledger_event ::
  "'o account_ctx \<Rightarrow> 'o account_index \<Rightarrow> 'o ledger_tx_event \<Rightarrow> 'o account_index" where
  "handle_ledger_event ctx ix (TxApplied tx) = apply_account_events ix (scan_account_events ctx tx)"
| "handle_ledger_event ctx ix (TxUnapplied tx) = revert_account_events ix (scan_account_events ctx tx)"

end
