(* ===== verification/Account_Index_Inv.thy ===== *)
theory Account_Index_Inv
  imports Account_Index
begin

text \<open>
  The invariant of the account index and that every operation keeps it.  Each operation is read
  through its effect on the maps of the index (\<open>*_sel\<close>); the invariant itself is proved on abstract
  maps (\<open>tables_ok\<close>).
\<close>

section \<open>The index as maps\<close>

abbreviation acct :: "'o account_index \<Rightarrow> account_id \<Rightarrow> 'o indexed_account option" where
  "acct ix \<equiv> map_of (by_account_id ix)"

abbreviation bound :: "'o account_index \<Rightarrow> output_ref \<Rightarrow> account_id option" where
  "bound ix \<equiv> map_of (by_output_ref ix)"

abbreviation unb :: "'o account_index \<Rightarrow> output_ref \<Rightarrow> 'o aleph_account_utxo option" where
  "unb ix \<equiv> map_of (unbound_by_output_ref ix)"

abbreviation rolled :: "'o account_index \<Rightarrow> output_ref \<Rightarrow> (account_id \<times> 'o indexed_account) option" where
  "rolled ix \<equiv> map_of (rollback_by_spent_ref ix)"

abbreviation pend :: "'o account_index \<Rightarrow> account_id set" where
  "pend ix \<equiv> pending_by_account_id ix"

abbreviation acct_ref :: "'o indexed_account \<Rightarrow> output_ref" where
  "acct_ref ind \<equiv> reference (ia_utxo ind)"

lemma hm_ok_retain: "hm_ok m \<Longrightarrow> hm_ok (hm_retain p m)"
  by (simp add: hm_ok_def hm_retain_def distinct_map_filter)

lemma map_of_hm_retain:
  "hm_ok m \<Longrightarrow> map_of (hm_retain p m) k = (case map_of m k of Some v \<Rightarrow> if p k v then Some v else None | None \<Rightarrow> None)"
  by (induction m) (force simp: hm_ok_def hm_retain_def split: option.splits dest: map_of_SomeD)+

lemma persist_sel [simp]:
  "by_account_id (persist_account_stores ix) = by_account_id ix"
  "by_output_ref (persist_account_stores ix) = by_output_ref ix"
  "predicted_by_output_ref (persist_account_stores ix) = predicted_by_output_ref ix"
  "unbound_by_output_ref (persist_account_stores ix) = unbound_by_output_ref ix"
  "persisted_by_output_ref (persist_account_stores ix) = persisted_by_output_ref ix"
  "pending_by_account_id (persist_account_stores ix) = pending_by_account_id ix"
  "rollback_by_spent_ref (persist_account_stores ix) = rollback_by_spent_ref ix"
  "pending_store_by_snapshot_id (persist_account_stores ix) = pending_store_by_snapshot_id ix"
  "pending_snapshot_by_output_ref (persist_account_stores ix) = pending_snapshot_by_output_ref ix"
  "next_snapshot_id (persist_account_stores ix) = next_snapshot_id ix"
  by (simp_all add: persist_account_stores_def split: option.split)

lemma indexed_of_sel [simp]:
  "ia_utxo (indexed_of a st) = (au_output a, au_output_ref a)" "ia_store (indexed_of a st) = st"
  "reference (out, r) = r"
  by (simp_all add: indexed_of_def reference_def)

text \<open>What \<open>bind_indexed\<close> does to each map.\<close>

lemma bind_indexed_sel:
  "acct (bind_indexed ix acc ind) = (acct ix)(acc \<mapsto> ind)"
  "bound (bind_indexed ix acc ind) =
     (case acct ix acc of Some p \<Rightarrow> (bound ix)(acct_ref p := None) | None \<Rightarrow> bound ix)(acct_ref ind \<mapsto> acc)"
  "unb (bind_indexed ix acc ind) = (unb ix)(acct_ref ind := None)"
  "pend (bind_indexed ix acc ind) = pend ix - {acc}"
  "rollback_by_spent_ref (bind_indexed ix acc ind) = rollback_by_spent_ref ix"
  "predicted_by_output_ref (bind_indexed ix acc ind) = predicted_by_output_ref ix"
  "persisted_by_output_ref (bind_indexed ix acc ind) = persisted_by_output_ref ix"
  "pending_store_by_snapshot_id (bind_indexed ix acc ind) = pending_store_by_snapshot_id ix"
  "pending_snapshot_by_output_ref (bind_indexed ix acc ind) = pending_snapshot_by_output_ref ix"
  "next_snapshot_id (bind_indexed ix acc ind) = next_snapshot_id ix"
  by (auto simp: bind_indexed_def Let_def map_of_hm_insert map_of_hm_remove split: option.split)

lemma observe_consumed_sel:
  "acct (observe_consumed ix r) = (case bound ix r of Some acc \<Rightarrow> (acct ix)(acc := None) | None \<Rightarrow> acct ix)"
  "bound (observe_consumed ix r) = (bound ix)(r := None)"
  "unb (observe_consumed ix r) = (unb ix)(r := None)"
  "pend (observe_consumed ix r) = (case bound ix r of Some acc \<Rightarrow> insert acc (pend ix) | None \<Rightarrow> pend ix)"
  "rolled (observe_consumed ix r) = (case bound ix r of
       Some acc \<Rightarrow> (case acct ix acc of Some ind \<Rightarrow> (rolled ix)(r \<mapsto> (acc, ind)) | None \<Rightarrow> rolled ix)
     | None \<Rightarrow> rolled ix)"
  "persisted_by_output_ref (observe_consumed ix r) = persisted_by_output_ref ix"
  "pending_store_by_snapshot_id (observe_consumed ix r) = pending_store_by_snapshot_id ix"
  "pending_snapshot_by_output_ref (observe_consumed ix r) = pending_snapshot_by_output_ref ix"
  "map_of (predicted_by_output_ref (observe_consumed ix r)) = (map_of (predicted_by_output_ref ix))(r := None)"
  by (auto simp: observe_consumed_def remove_bound_output_def Let_def map_of_hm_insert map_of_hm_remove
      split: option.split)

lemma observe_removed_sel:
  "acct (observe_removed_output ix r) = (case bound ix r of Some acc \<Rightarrow> (acct ix)(acc := None) | None \<Rightarrow> acct ix)"
  "bound (observe_removed_output ix r) = (bound ix)(r := None)"
  "unb (observe_removed_output ix r) = (unb ix)(r := None)"
  "pend (observe_removed_output ix r) = (case bound ix r of Some acc \<Rightarrow> insert acc (pend ix) | None \<Rightarrow> pend ix)"
  "rollback_by_spent_ref (observe_removed_output ix r) = rollback_by_spent_ref ix"
  "pending_store_by_snapshot_id (observe_removed_output ix r) = pending_store_by_snapshot_id ix"
  by (auto simp: observe_removed_output_def Let_def map_of_hm_remove fun_eq_iff split: option.split)

section \<open>The invariant\<close>

text \<open>
  The binding tables as abstract maps: accounts and outputs are in bijection, spent outputs waiting
  for a rollback and unbound outputs are not bound, a pending account has no current output.
\<close>

definition tables_ok ::
  "('i \<Rightarrow> 'r) \<Rightarrow> ('u \<Rightarrow> 'r) \<Rightarrow> ('a \<rightharpoonup> 'i) \<Rightarrow> ('r \<rightharpoonup> 'a) \<Rightarrow> ('r \<rightharpoonup> 'a \<times> 'i) \<Rightarrow> ('r \<rightharpoonup> 'u) \<Rightarrow> 'a set \<Rightarrow> bool" where
  "tables_ok ref uref A B R U P \<longleftrightarrow>
    (\<forall>acc r. B r = Some acc \<longleftrightarrow> (\<exists>ind. A acc = Some ind \<and> ref ind = r)) \<and>
    (\<forall>r acc ind. R r = Some (acc, ind) \<longrightarrow> ref ind = r \<and> B r = None) \<and>
    (\<forall>r a. U r = Some a \<longrightarrow> uref a = r \<and> B r = None \<and> R r = None) \<and>
    (\<forall>acc \<in> P. A acc = None)"

lemma tables_ok_bind:
  assumes "tables_ok ref uref A B R U P" "B (ref ind) = None" "R (ref ind) = None"
  shows "tables_ok ref uref (A(acc \<mapsto> ind))
    ((case A acc of Some p \<Rightarrow> B(ref p := None) | None \<Rightarrow> B)(ref ind \<mapsto> acc)) R (U(ref ind := None)) (P - {acc})"
  using assms unfolding tables_ok_def
  by (auto split: option.splits) (metis option.inject option.distinct(1))+

lemma tables_ok_consume:
  assumes "tables_ok ref uref A B R U P"
  shows "tables_ok ref uref (case B r of Some acc \<Rightarrow> A(acc := None) | None \<Rightarrow> A) (B(r := None))
    (case B r of Some acc \<Rightarrow> (case A acc of Some ind \<Rightarrow> R(r \<mapsto> (acc, ind)) | None \<Rightarrow> R) | None \<Rightarrow> R)
    (U(r := None)) (case B r of Some acc \<Rightarrow> insert acc P | None \<Rightarrow> P)"
  using assms unfolding tables_ok_def
  by (auto split: option.splits) (metis option.inject option.distinct(1))+

lemma tables_ok_remove:
  assumes "tables_ok ref uref A B R U P"
  shows "tables_ok ref uref (case B r of Some acc \<Rightarrow> A(acc := None) | None \<Rightarrow> A) (B(r := None)) R
    (U(r := None)) (case B r of Some acc \<Rightarrow> insert acc P | None \<Rightarrow> P)"
  using assms unfolding tables_ok_def
  by (auto split: option.splits) (metis option.inject option.distinct(1))+

lemma tables_ok_unbound:
  assumes "tables_ok ref uref A B R U P" "B (uref a) = None" "R (uref a) = None"
  shows "tables_ok ref uref A B R (U(uref a \<mapsto> a)) P"
  using assms unfolding tables_ok_def by auto

lemma tables_ok_forget:
  assumes "tables_ok ref uref A B R U P"
  shows "tables_ok ref uref A B (R(r := None)) U P" "tables_ok ref uref A B R (U(r := None)) P"
  using assms unfolding tables_ok_def by auto

definition index_ok :: "'o account_index \<Rightarrow> bool" where
  "index_ok ix \<longleftrightarrow>
    tables_ok (\<lambda>ind. acct_ref ind) au_output_ref (acct ix) (bound ix) (rolled ix) (unb ix) (pend ix) \<and>
    hm_ok (pending_store_by_snapshot_id ix)"

definition fresh :: "'o account_index \<Rightarrow> output_ref \<Rightarrow> bool" where
  "fresh ix r \<longleftrightarrow> bound ix r = None \<and> rolled ix r = None"

lemma index_okD:
  assumes "index_ok ix"
  shows "acct ix acc = Some ind \<Longrightarrow> bound ix (acct_ref ind) = Some acc"
    "bound ix r = Some acc \<Longrightarrow> \<exists>ind. acct ix acc = Some ind \<and> acct_ref ind = r"
    "rolled ix r = Some (acc, ind) \<Longrightarrow> acct_ref ind = r \<and> bound ix r = None"
    "unb ix r = Some a \<Longrightarrow> au_output_ref a = r \<and> fresh ix r"
    "acc \<in> pend ix \<Longrightarrow> acct ix acc = None"
    "hm_ok (pending_store_by_snapshot_id ix)"
  using assms unfolding index_ok_def tables_ok_def fresh_def by blast+

lemma unb_bound: "index_ok ix \<Longrightarrow> bound ix r = Some acc \<Longrightarrow> (unb ix)(r := None) = unb ix"
  using index_okD(4) [of ix r] by (cases "unb ix r") (auto simp: fresh_def)

lemma index_ok_bind:
  assumes "index_ok ix" "fresh ix (acct_ref ind)"
  shows "index_ok (bind_indexed ix acc ind)"
  using assms tables_ok_bind [of "\<lambda>ind. acct_ref ind" au_output_ref "acct ix" "bound ix" "rolled ix" "unb ix" "pend ix" ind acc]
  by (simp add: index_ok_def fresh_def bind_indexed_sel)

lemma index_ok_consumed: "index_ok ix \<Longrightarrow> index_ok (observe_consumed ix r)"
  using tables_ok_consume [of "\<lambda>ind. acct_ref ind" au_output_ref "acct ix" "bound ix" "rolled ix" "unb ix" "pend ix" r]
  by (simp add: index_ok_def observe_consumed_sel)

lemma index_ok_removed: "index_ok ix \<Longrightarrow> index_ok (observe_removed_output ix r)"
  using tables_ok_remove [of "\<lambda>ind. acct_ref ind" au_output_ref "acct ix" "bound ix" "rolled ix" "unb ix" "pend ix" r]
  by (simp add: index_ok_def observe_removed_sel)

lemma index_ok_unbound:
  "index_ok ix \<Longrightarrow> fresh ix (au_output_ref a) \<Longrightarrow>
   index_ok (ix\<lparr> unbound_by_output_ref := hm_insert (au_output_ref a) a (unbound_by_output_ref ix) \<rparr>)"
  by (simp add: index_ok_def fresh_def map_of_hm_insert tables_ok_unbound)

text \<open>Fields the invariant does not read may change freely.\<close>

lemma index_ok_other [simp]:
  "index_ok (persist_account_stores ix) = index_ok ix"
  "index_ok (predicted_by_output_ref_update f ix) = index_ok ix"
  "index_ok (persisted_by_output_ref_update g ix) = index_ok ix"
  "index_ok (pending_snapshot_by_output_ref_update h ix) = index_ok ix"
  "index_ok (next_snapshot_id_update n ix) = index_ok ix"
  by (simp_all add: index_ok_def)

lemma index_ok_pending_stores:
  "index_ok ix \<Longrightarrow> hm_ok (f (pending_store_by_snapshot_id ix)) \<Longrightarrow> index_ok (pending_store_by_snapshot_id_update f ix)"
  by (simp add: index_ok_def)

lemma index_ok_rollback_consumed:
  assumes "index_ok ix"
  shows "index_ok (observe_rollback_consumed ix r)"
proof (cases "rolled ix r")
  case None
  then show ?thesis using assms
    by (simp add: observe_rollback_consumed_def Let_def index_ok_pending_stores hm_ok_retain index_okD(6))
next
  case (Some e)
  obtain acc ind where e: "e = (acc, ind)" by (cases e)
  let ?ix = "ix\<lparr> rollback_by_spent_ref := hm_remove r (rollback_by_spent_ref ix) \<rparr>"
  have "index_ok ?ix"
    using assms by (simp add: index_ok_def map_of_hm_remove tables_ok_forget)
  moreover have "fresh ?ix (acct_ref ind)"
    using index_okD(3) [OF assms] Some e by (auto simp: fresh_def map_of_hm_remove)
  ultimately have "index_ok (bind_indexed ?ix acc ind)" by (rule index_ok_bind)
  then show ?thesis using Some e
    by (simp add: observe_rollback_consumed_def Let_def index_ok_pending_stores hm_ok_retain index_okD(6))
qed

subsection \<open>Transactions\<close>

text \<open>What binding an observed output gives: the index stays well formed and other outputs stay fresh.\<close>

lemma fresh_bind: "fresh ix r \<Longrightarrow> r \<noteq> acct_ref ind \<Longrightarrow> fresh (bind_indexed ix acc ind) r"
  by (simp add: fresh_def bind_indexed_sel split: option.split)

lemma fresh_other [simp]:
  "fresh (persist_account_stores ix) r = fresh ix r"
  "fresh (predicted_by_output_ref_update f ix) r = fresh ix r"
  "fresh (persisted_by_output_ref_update g ix) r = fresh ix r"
  "fresh (unbound_by_output_ref_update u ix) r = fresh ix r"
  "fresh (pending_snapshot_by_output_ref_update h ix) r = fresh ix r"
  "fresh (pending_store_by_snapshot_id_update p ix) r = fresh ix r"
  by (simp_all add: fresh_def)

definition keeps :: "output_ref \<Rightarrow> 'o account_index \<Rightarrow> 'o account_index \<Rightarrow> bool" where
  "keeps r ix ix' \<longleftrightarrow> index_ok ix' \<and> (\<forall>r'. r' \<noteq> r \<longrightarrow> fresh ix r' \<longrightarrow> fresh ix' r')"

lemma keeps_bind:
  "index_ok ix \<Longrightarrow> fresh ix (acct_ref ind) \<Longrightarrow> keeps (acct_ref ind) ix (bind_indexed ix acc ind)"
  by (simp add: keeps_def index_ok_bind fresh_bind)

lemma keeps_unbound:
  "index_ok ix \<Longrightarrow> fresh ix (au_output_ref a) \<Longrightarrow>
   keeps r ix (ix\<lparr> unbound_by_output_ref := hm_insert (au_output_ref a) a (unbound_by_output_ref ix) \<rparr>)"
  by (simp add: keeps_def index_ok_unbound)

lemma keeps_confirmed_predicted:
  assumes "index_ok ix" "fresh ix (au_output_ref a)" "bind_confirmed_predicted_store ix r a = (ix', res)"
  shows "keeps (au_output_ref a) ix ix' \<and> (res = Ok () \<or> ix' = ix)"
  using assms keeps_bind [of "ix\<lparr> pending_store_by_snapshot_id := p, pending_snapshot_by_output_ref := q \<rparr>" "indexed_of a st" for p q st]
  by (auto simp: bind_confirmed_predicted_store_def Let_def keeps_def index_ok_pending_stores hm_ok_remove index_okD(6)
      split: option.splits prod.splits if_splits)

lemma keeps_confirmed_consumed:
  assumes "index_ok ix" "fresh ix (au_output_ref a)" "bind_confirmed_store_for_consumed_refs ix refs a = (ix', res)"
  shows "keeps (au_output_ref a) ix ix' \<and> (res = Ok () \<or> ix' = ix)"
  using assms keeps_bind [of "ix\<lparr> pending_store_by_snapshot_id := p, pending_snapshot_by_output_ref := q \<rparr>" "indexed_of a st" for p q st]
  by (auto simp: bind_confirmed_store_for_consumed_refs_def Let_def keeps_def index_ok_pending_stores hm_ok_retain
      index_okD(6) split: list.splits prod.splits if_splits)

lemma keeps_observed:
  assumes "index_ok ix" "fresh ix (au_output_ref a)"
  shows "keeps (au_output_ref a) ix (bind_observed ix acc a)"
  using assms keeps_bind [of ix "indexed_of a st" for st] by (auto simp: bind_observed_def keeps_unbound split: option.split)

lemma keeps_created:
  assumes "index_ok ix" "fresh ix (au_output_ref a)"
  shows "keeps (au_output_ref a) ix (observe_created_or_updated ix a)"
proof -
  let ?ix = "ix\<lparr> predicted_by_output_ref := hm_remove (au_output_ref a) (predicted_by_output_ref ix) \<rparr>"
  have k: "keeps (au_output_ref a) ix ix' \<longleftrightarrow> keeps (au_output_ref a) ?ix ix'" for ix'
    by (simp add: keeps_def)
  have "keeps (au_output_ref a) ix
      (bind_indexed (ix\<lparr> persisted_by_output_ref := p \<rparr>) acc (indexed_of a st))" for p acc st
    using keeps_bind [of "ix\<lparr> persisted_by_output_ref := p \<rparr>" "indexed_of a st" acc] assms
    by (simp add: keeps_def)
  note bind = this
  show ?thesis
  proof (cases "map_of (predicted_by_output_ref ix) (au_output_ref a)")
    case (Some e)
    obtain acc out where e: "e = (acc, out)" by (cases e)
    obtain ix1 res where c: "bind_confirmed_predicted_store ?ix (au_output_ref a) a = (ix1, res)" by fastforce
    have "keeps (au_output_ref a) ?ix ix1" "res = Ok () \<or> ix1 = ?ix"
      using keeps_confirmed_predicted [OF _ _ c] assms by simp_all
    then show ?thesis
      using assms Some e c keeps_observed [of ?ix a acc]
      by (cases res) (auto simp: observe_created_or_updated_def Let_def k)
  next
    case None
    then show ?thesis
      using assms keeps_confirmed_predicted [of ix a "au_output_ref a"] bind keeps_unbound [OF assms]
      by (cases "bind_confirmed_predicted_store ix (au_output_ref a) a")
        (simp add: observe_created_or_updated_def Let_def split: option.split)
  qed
qed

lemma keeps_produced:
  assumes "index_ok ix" "fresh ix (au_output_ref a)"
  shows "keeps (au_output_ref a) ix (observe_produced refs ids a ix)"
proof -
  obtain ix1 res where c: "bind_confirmed_store_for_consumed_refs ix refs a = (ix1, res)" by fastforce
  note k = keeps_confirmed_consumed [OF assms c]
  show ?thesis
  proof (cases "res = Ok ()")
    case True
    then show ?thesis using k c by (simp add: observe_produced_def)
  next
    case False
    then have "ix1 = ix" using k by simp
    then show ?thesis
      using False c assms keeps_bind [of ix "indexed_of a st" for st] keeps_created [OF assms]
      by (auto simp: observe_produced_def bind_empty_successor_for_consumed_account_def Let_def
          split: res.splits option.splits prod.splits)
  qed
qed

lemma index_ok_produced:
  assumes "index_ok ix" "\<And>a. a \<in> set as \<Longrightarrow> fresh ix (au_output_ref a)" "distinct (map au_output_ref as)"
  shows "index_ok (fold (observe_produced refs ids) as ix)"
  using assms
proof (induction as arbitrary: ix)
  case (Cons a as)
  then have k: "keeps (au_output_ref a) ix (observe_produced refs ids a ix)" by (simp add: keeps_produced)
  moreover have "fresh (observe_produced refs ids a ix) (au_output_ref a')" if "a' \<in> set as" for a'
    using k Cons.prems(2) [of a'] Cons.prems(3) that unfolding keeps_def by (simp, metis image_eqI)
  ultimately show ?case using Cons.prems(3) by (simp add: keeps_def Cons.IH)
qed simp

lemma index_ok_consumed_all: "index_ok ix \<Longrightarrow> index_ok (fold (\<lambda>r ix. observe_consumed ix r) rs ix)"
  by (induction rs arbitrary: ix) (simp_all add: index_ok_consumed)

lemma fresh_consumed: "fresh ix r \<Longrightarrow> fresh (observe_consumed ix r') r"
  by (auto simp: fresh_def observe_consumed_sel split: option.split)

lemma fresh_consumed_all: "fresh ix r \<Longrightarrow> fresh (fold (\<lambda>r ix. observe_consumed ix r) rs ix) r"
  by (induction rs arbitrary: ix) (simp_all add: fresh_consumed)

lemma index_ok_transaction:
  assumes "index_ok ix" "\<And>a. a \<in> set as \<Longrightarrow> fresh ix (au_output_ref a)" "distinct (map au_output_ref as)"
  shows "index_ok (observe_transaction ix rs as)"
  using assms
  by (simp add: observe_transaction_def Let_def index_ok_produced index_ok_consumed_all fresh_consumed_all)

lemma index_ok_revert: "index_ok ix \<Longrightarrow> index_ok (revert_account_events ix es)"
  by (induction ix es rule: revert_account_events.induct)
    (simp_all add: index_ok_removed index_ok_rollback_consumed)

lemma reserve_sel:
  "acct (fst (reserve_predicted_store_snapshot ix acc r st)) = (acct ix)(acc := None)"
  "bound (fst (reserve_predicted_store_snapshot ix acc r st)) = (bound ix)(r := None)"
  "unb (fst (reserve_predicted_store_snapshot ix acc r st)) = unb ix"
  "pend (fst (reserve_predicted_store_snapshot ix acc r st)) = insert acc (pend ix)"
  "rolled (fst (reserve_predicted_store_snapshot ix acc r st)) =
     (case acct ix acc of Some ind \<Rightarrow> (rolled ix)(r \<mapsto> (acc, ind)) | None \<Rightarrow> rolled ix)"
  "pending_store_by_snapshot_id (fst (reserve_predicted_store_snapshot ix acc r st)) =
     hm_insert (next_snapshot_id ix) (acc, r, st) (pending_store_by_snapshot_id ix)"
  "pending_snapshot_by_output_ref (fst (reserve_predicted_store_snapshot ix acc r st)) = pending_snapshot_by_output_ref ix"
  "persisted_by_output_ref (fst (reserve_predicted_store_snapshot ix acc r st)) = persisted_by_output_ref ix"
  "next_snapshot_id (fst (reserve_predicted_store_snapshot ix acc r st)) = next_snapshot_id ix + 1"
  "snd (reserve_predicted_store_snapshot ix acc r st) = next_snapshot_id ix"
  by (auto simp: reserve_predicted_store_snapshot_def Let_def remove_bound_output_def
      map_of_hm_insert map_of_hm_remove split: option.split)

lemma index_ok_plan:
  assumes "index_ok ix" "plan_with ix acc old_ref change planned = (ix', res)"
  shows "index_ok ix'"
proof (cases "store_for_planning ix acc old_ref")
  case None
  then show ?thesis using assms by (simp add: plan_with_def)
next
  case (Some st)
  let ?ix = "remove_pending_snapshots_for ix acc old_ref"
  have s: "acct ?ix = acct ix" "bound ?ix = bound ix" "rolled ?ix = rolled ix" "unb ?ix = unb ix" "pend ?ix = pend ix"
    "hm_ok (pending_store_by_snapshot_id ?ix)"
    using index_okD(6) [OF assms(1)] by (simp_all add: remove_pending_snapshots_for_def Let_def hm_ok_retain)
  have "index_ok (fst (reserve_predicted_store_snapshot ?ix acc old_ref st'))" for st'
  proof (cases "acct ix acc")
    case None
    then have b: "bound ix old_ref = None"
      using Some index_okD(3) [OF assms(1)] by (auto simp: store_for_planning_def split: if_splits)
    then have "(bound ix)(old_ref := None) = bound ix" "(acct ix)(acc := None) = acct ix" using None by auto
    moreover have "tables_ok (\<lambda>ind. acct_ref ind) au_output_ref (acct ix) (bound ix) (rolled ix) (unb ix) (insert acc (pend ix))"
      using None assms(1) unfolding index_ok_def tables_ok_def by simp
    ultimately show ?thesis using None s(6)
      by (simp add: index_ok_def reserve_sel s(1-5) hm_ok_insert)
  next
    case (Some ind)
    then have "bound ix old_ref = Some acc"
      using \<open>store_for_planning ix acc old_ref = Some st\<close> index_okD(1) [OF assms(1)]
      by (auto simp: store_for_planning_def split: if_splits)
    then show ?thesis using Some s(6) assms(1)
        tables_ok_consume [of "\<lambda>ind. acct_ref ind" au_output_ref "acct ix" "bound ix" "rolled ix" "unb ix" "pend ix" old_ref]
      by (simp add: index_ok_def reserve_sel s(1-5) hm_ok_insert unb_bound [OF assms(1)])
  qed
  then show ?thesis using assms Some
    by (auto simp: plan_with_def Let_def split: prod.splits res.splits) (metis fst_conv)+
qed

end
