(* ===== verification/Account_Index_Correct.thy ===== *)
theory Account_Index_Correct
  imports Account_Index_Inv Account_Store_Correct
begin

text \<open>
  What holds of the account index: consistency in every reachable state, external bindings, the
  life of a planned fill, the continuations offered after a restart, the snapshot file, and
  transactions that are applied and rolled back.
\<close>

section \<open>Reachable indexes\<close>

lemma hm_ok_collect: "hm_ok (hm_collect es)"
proof -
  have "hm_ok m \<Longrightarrow> hm_ok (fold (\<lambda>(k, v) m. hm_insert k v m) es m)" for m
    by (induction es arbitrary: m) (auto simp: hm_ok_insert)
  then show ?thesis by (simp add: hm_collect_def)
qed

lemma index_ok_load: "index_ok (with_persistence_path H file)"
  by (auto simp: with_persistence_path_def default_index_def Let_def index_ok_def tables_ok_def hm_ok_collect
      split: res.split)

lemma index_ok_bind_once:
  assumes "index_ok ix"
  shows "index_ok (fst (bind_external_account_id_once ix acc r))"
proof -
  let ?ix = "ix\<lparr> unbound_by_output_ref := hm_remove r (unbound_by_output_ref ix) \<rparr>"
  have i: "index_ok ?ix" using assms by (simp add: index_ok_def map_of_hm_remove tables_ok_forget)
  have "index_ok (bind_indexed ?ix acc (indexed_of a st))" if "unb ix r = Some a" for a st
    using that index_okD(4) [OF assms that] by (intro index_ok_bind i) simp
  moreover have "index_ok (?ix\<lparr> unbound_by_output_ref := hm_insert r a (unbound_by_output_ref ?ix) \<rparr>)"
    if "unb ix r = Some a" for a
    using that index_okD(4) [OF assms that] index_ok_unbound [OF i, of a] by auto
  ultimately show ?thesis
    using assms by (auto simp: bind_external_account_id_once_def Let_def split: option.split)
qed

inductive index_step ::
  "(bytes \<Rightarrow> bytes) \<Rightarrow> (plutus_data \<Rightarrow> bytes) \<Rightarrow> 'o account_ctx \<Rightarrow> 'o account_index \<Rightarrow> 'o account_index \<Rightarrow> bool"
  for H cbor ctx where
  applied: "(\<And>a. a \<in> set (produced_of (scan_account_events ctx tx)) \<Longrightarrow> fresh ix (au_output_ref a)) \<Longrightarrow>
    distinct (map au_output_ref (produced_of (scan_account_events ctx tx))) \<Longrightarrow>
    index_step H cbor ctx ix (handle_ledger_event ctx ix (TxApplied tx))"
| unapplied: "index_step H cbor ctx ix (handle_ledger_event ctx ix (TxUnapplied tx))"
| sig_insert: "index_step H cbor ctx ix (fst (plan_sig_insert H cbor ix acc r oid key i))"
| path_update: "index_step H cbor ctx ix (fst (plan_path_update H cbor ix acc r key d i))"
| path_completion: "index_step H cbor ctx ix (fst (plan_path_completion H cbor ix acc r key d))"
| attach: "index_step H cbor ctx ix (fst (attach_predicted_output_ref ix sid r))"
| bind_once: "index_step H cbor ctx ix (fst (bind_external_account_id_once ix acc r))"

lemma index_ok_step: "index_step H cbor ctx ix ix' \<Longrightarrow> index_ok ix \<Longrightarrow> index_ok ix'"
proof (induction rule: index_step.induct)
  case (applied tx ix)
  then show ?case by (simp add: apply_account_events_def index_ok_transaction)
next
  case (unapplied ix tx)
  then show ?case by (simp add: index_ok_revert)
next
  case (attach ix sid r)
  then show ?case by (simp add: attach_predicted_output_ref_def)
qed (simp_all add: plan_sig_insert_def plan_path_update_def plan_path_completion_def index_ok_bind_once
    index_ok_plan [OF _ prod.collapse [symmetric]])

text \<open>
  C24. Consistency of the account index over histories without replayed outputs: starting from any
  snapshot file, over ledger transactions applied and unapplied, planned fills and external
  bindings, provided that the account outputs an applied transaction creates are distinct and neither bound nor kept for a rollback
  at that moment.  Accounts and bound outputs are then in bijection, a pending account has no current output, and an output is never both
  bound and unbound or spent.  (\<open>replayed_output_loses_binding\<close> below shows that the proviso is needed.)
\<close>

theorem reachable_index_consistent:
  assumes "(index_step H cbor ctx)\<^sup>*\<^sup>* (with_persistence_path H file) ix"
  shows "(\<forall>acc r. map_of (by_output_ref ix) r = Some acc \<longleftrightarrow>
      (\<exists>u. current ix acc = Some u \<and> reference u = r)) \<and>
    (\<forall>acc. acc \<in> pending_by_account_id ix \<longrightarrow> current ix acc = None) \<and>
    (\<forall>r. map_of (unbound_by_output_ref ix) r \<noteq> None \<longrightarrow> map_of (by_output_ref ix) r = None) \<and>
    (\<forall>r. map_of (rollback_by_spent_ref ix) r \<noteq> None \<longrightarrow> map_of (by_output_ref ix) r = None)"
proof -
  have "index_ok ix"
    using assms by (induction rule: rtranclp_induct) (simp_all add: index_ok_load index_ok_step)
  note ok = index_okD [OF this]
  have "map_of (by_output_ref ix) r = Some acc \<longleftrightarrow> (\<exists>u. current ix acc = Some u \<and> reference u = r)" for acc r
    using ok(1) [of acc] ok(2) [of r acc] by (auto simp: current_def simp del: split_paired_Ex)
  moreover have "map_of (by_output_ref ix) r = None" if "rolled ix r \<noteq> None" for r
    using that ok(3) [of r] by auto
  ultimately show ?thesis
    using ok(4,5) by (auto simp: current_def fresh_def simp del: split_paired_All)
qed

text \<open>A transaction that creates one account output with an empty store.\<close>

definition sample_datum :: plutus_data where
  "sample_datum = PConstr 0 [PBytes [1], PList [], PList [PInteger 7], PList [PBytes (replicate 33 3), PList []],
     PBytes (replicate 28 0), PBytes (replicate 32 0)]"

definition sample_ctx :: "unit account_ctx" where
  "sample_ctx = \<lparr> payment_cred = (\<lambda>_. Some (Script [])), into_datum = (\<lambda>_. Some (Datum sample_datum)),
     as_int_of = Some, validator_hash = [] \<rparr>"

definition sample_tx :: "byte \<Rightarrow> output_ref list \<Rightarrow> unit tx_view" where
  "sample_tx h ins = \<lparr> tv_hash = [h], tv_inputs = ins, tv_outputs = [(0, ())] \<rparr>"

definition sample_utxo :: "byte \<Rightarrow> unit aleph_account_utxo" where
  "sample_utxo h = \<lparr> au_output_ref = ([h], 0), au_output = (), au_state = sample_account Current \<rparr>"

lemma sample_scan:
  "scan_account_events sample_ctx (sample_tx h ins) = map Consumed ins @ [Produced (sample_utxo h)]"
  by (simp add: scan_account_events_def sample_tx_def sample_ctx_def try_parse_def test_address_def sample_datum_def
      List.map_filter_simps account_state_try_from_pd_def current_state_from_fields_def hot_cred_from_list_def
      co_key_from_pd_def field_bytes_def take_field_def fixed_def i64_try_from_def i64_max_def sample_utxo_def sample_account_def
      numeral_eq_Suc)

lemma produced_of_append [simp]: "produced_of (xs @ ys) = produced_of xs @ produced_of ys"
  by (induction xs rule: produced_of.induct) auto

lemma consumed_of_append [simp]: "consumed_of (xs @ ys) = consumed_of xs @ consumed_of ys"
  by (induction xs rule: consumed_of.induct) auto

lemma events_of_consumed [simp]: "produced_of (map Consumed rs) = []" "consumed_of (map Consumed rs) = rs"
  by (induction rs) simp_all

definition sample_index :: "unit account_index" where
  "sample_index = fst (bind_external_account_id_once
     (handle_ledger_event sample_ctx (with_persistence_path toy_hash None) (TxApplied (sample_tx 9 []))) [5] ([9], 0))"

lemma sample_index_reachable:
  "(index_step toy_hash (\<lambda>_. []) sample_ctx)\<^sup>*\<^sup>* (with_persistence_path toy_hash None) sample_index"
proof -
  have "index_step toy_hash (\<lambda>_. []) sample_ctx (with_persistence_path toy_hash None)
     (handle_ledger_event sample_ctx (with_persistence_path toy_hash None) (TxApplied (sample_tx 9 [])))"
    by (rule index_step.applied)
      (auto simp: sample_scan fresh_def with_persistence_path_def load_persisted_stores_def default_index_def hm_collect_def)
  moreover have "index_step toy_hash (\<lambda>_. []) sample_ctx
     (handle_ledger_event sample_ctx (with_persistence_path toy_hash None) (TxApplied (sample_tx 9 []))) sample_index"
    unfolding sample_index_def by (rule index_step.bind_once)
  ultimately show ?thesis by (meson converse_rtranclp_into_rtranclp r_into_rtranclp)
qed

lemma sample_index_value:
  "sample_index = \<lparr> by_account_id = [([5], indexed_of (sample_utxo 9) store_empty)], by_output_ref = [(([9], 0), [5])],
     predicted_by_output_ref = [], unbound_by_output_ref = [], persisted_by_output_ref = [],
     pending_by_account_id = {}, rollback_by_spent_ref = [], pending_store_by_snapshot_id = [],
     pending_snapshot_by_output_ref = [],
     disk = Some (Some \<lparr> stores = [from_parts [5] ([9], 0) store_empty], pending = [], file_next_snapshot_id = 0 \<rparr>),
     next_snapshot_id = 0 \<rparr>"
  by (simp add: sample_index_def sample_scan apply_account_events_def observe_transaction_def
      with_persistence_path_def load_persisted_stores_def default_index_def hm_collect_def
      observe_produced_def bind_confirmed_store_for_consumed_refs_def List.map_filter_simps
      bind_empty_successor_for_consumed_account_def observe_created_or_updated_def
      bind_external_account_id_once_def Let_def hm_remove_def current_def
      bind_indexed_def persist_account_stores_def sample_utxo_def sample_account_def from_observed_root_def
      EMPTY_ROOT_def indexed_of_def from_indexed_def reference_def)

theorem reachable_index_consistent_witness:
  "map_of (by_output_ref sample_index) ([9], 0) = Some [5] \<and>
   (\<exists>u. current sample_index [5] = Some u \<and> reference u = ([9], 0))"
proof -
  have "map_of (by_output_ref sample_index) ([9], 0) = Some [5]" by (simp add: sample_index_value)
  with reachable_index_consistent [OF sample_index_reachable] show ?thesis by blast
qed

definition replan :: "unit account_index \<Rightarrow> unit account_index" where
  "replan ix = fst (plan_sig_insert toy_hash (\<lambda>_. []) ix [5] ([9], 0) (go_id (sample_order Native)) [1] (sample_intention Current 0))"

text \<open>
  Why replayed outputs are excluded.  A fill is planned on the output of an account, the transaction that created the output is
  unapplied and applied again, and the output is bound to another account: the entry kept for the rollback is still there, and planning a
  fill for the first account again takes the output of the second one out of \<open>by_output_ref\<close> while it stays its current output.
\<close>

definition replayed_index :: "unit account_index" where
  "replayed_index =
    handle_ledger_event sample_ctx (handle_ledger_event sample_ctx (replan sample_index) (TxUnapplied (sample_tx 9 []))) (TxApplied (sample_tx 9 []))"

lemma replayed_output_loses_binding:
  "let ix = fst (bind_external_account_id_once replayed_index [6] ([9], 0)) in
   current ix [6] = Some ((), ([9], 0)) \<and> map_of (rollback_by_spent_ref ix) ([9], 0) \<noteq> None \<and>
   current (replan ix) [6] = Some ((), ([9], 0)) \<and> map_of (by_output_ref (replan ix)) ([9], 0) = None"
proof -
  obtain st d where i: "insert_remaining toy_hash (\<lambda>_. []) store_empty [1] (go_id (sample_order Native)) (sample_intention Current 0) = (st, Ok d)"
    using insert_remaining_ok [OF hash32_toy store_empty_ok, of "[1]" "\<lambda>_. []" "go_id (sample_order Native)" "sample_intention Current 0"]
    by (auto simp: store_empty_def trie_from_leaves_def from_leaves_def mpf_leaves_def follows_def)
  show ?thesis
    by (simp add: Let_def replayed_index_def replan_def plan_sig_insert_def plan_with_def i sample_index_value store_for_planning_def
      remove_pending_snapshots_for_def reserve_predicted_store_snapshot_def remove_bound_output_def hm_remove_def hm_retain_def sample_scan
      observe_removed_output_def apply_account_events_def observe_transaction_def persist_account_stores_def
      observe_produced_def bind_confirmed_store_for_consumed_refs_def List.map_filter_simps
      bind_empty_successor_for_consumed_account_def observe_created_or_updated_def
      bind_external_account_id_once_def current_def
      bind_indexed_def sample_utxo_def sample_account_def from_observed_root_def
      EMPTY_ROOT_def indexed_of_def reference_def)
qed

section \<open>External bindings\<close>

text \<open>The accounts of the snapshot file that have not been observed yet.\<close>

definition persisted_accounts :: "'o account_index \<Rightarrow> account_id set" where
  "persisted_accounts ix = (\<lambda>(_, acc, _). acc) ` set (persisted_by_output_ref ix)"

text \<open>
  C25. \<open>bind_external_account_id_once\<close> binds at most once.  When it succeeds the account had no
  current, pending or persisted output, the output was bound to no account and persisted for none, was observed as unbound and has an empty store;
  afterwards the account is current with that output and an empty store, the output is no longer unbound, and nothing else but the snapshot file changes.
  When it fails nothing changes, and the error names the condition that does not hold.
\<close>

theorem bind_once_safe:
  assumes "index_ok ix" "bind_external_account_id_once ix acc r = (ix', res)"
  shows "case res of
      Ok u \<Rightarrow> current ix acc = None \<and> acc \<notin> pending_by_account_id ix \<and>
        acc \<notin> persisted_accounts ix \<and>
        map_of (by_output_ref ix) r = None \<and> map_of (persisted_by_output_ref ix) r = None \<and>
        (\<exists>a. map_of (unbound_by_output_ref ix) r = Some a \<and> store_root (au_state a) = EMPTY_ROOT \<and>
          u = (au_output a, r) \<and>
          map_of (by_account_id ix') = (map_of (by_account_id ix))(acc \<mapsto> indexed_of a store_empty) \<and>
          map_of (by_output_ref ix') = (map_of (by_output_ref ix))(r \<mapsto> acc) \<and>
          map_of (unbound_by_output_ref ix') = (map_of (unbound_by_output_ref ix))(r := None) \<and>
          ix'\<lparr> by_account_id := by_account_id ix, by_output_ref := by_output_ref ix,
              unbound_by_output_ref := unbound_by_output_ref ix, disk := disk ix \<rparr> = ix)
    | Err e \<Rightarrow> ix'\<lparr> unbound_by_output_ref := unbound_by_output_ref ix \<rparr> = ix \<and>
        map_of (unbound_by_output_ref ix') = map_of (unbound_by_output_ref ix) \<and>
        (case e of
           AlreadyBound \<Rightarrow> current ix acc \<noteq> None \<or> acc \<in> pending_by_account_id ix \<or>
             acc \<in> persisted_accounts ix
         | OutputAlreadyBound \<Rightarrow> map_of (by_output_ref ix) r \<noteq> None \<or> map_of (persisted_by_output_ref ix) r \<noteq> None
         | OutputNotObserved \<Rightarrow> map_of (unbound_by_output_ref ix) r = None
         | NonEmptyUnplannedRoot \<Rightarrow> \<exists>a. map_of (unbound_by_output_ref ix) r = Some a \<and> store_root (au_state a) \<noteq> EMPTY_ROOT)
    | Panic \<Rightarrow> False"
proof -
  let ?held = "current ix acc \<noteq> None \<or> acc \<in> pending_by_account_id ix \<or> acc \<in> persisted_accounts ix"
  let ?taken = "map_of (by_output_ref ix) r \<noteq> None \<or> map_of (persisted_by_output_ref ix) r \<noteq> None"
  have h: "(map_of (by_account_id ix) acc \<noteq> None \<or> acc \<in> pending_by_account_id ix \<or>
      list_ex (\<lambda>(_, a, _). a = acc) (persisted_by_output_ref ix)) \<longleftrightarrow> ?held"
    by (force simp: current_def list_ex_iff persisted_accounts_def)
  show ?thesis
  proof (cases "?held \<or> ?taken \<or> unb ix r = None")
    case True
    then show ?thesis using assms(2) unfolding bind_external_account_id_once_def h by (auto split: if_splits)
  next
    case False
    then obtain a where a: "unb ix r = Some a" by auto
    have ref: "au_output_ref a = r" using index_okD(4) [OF assms(1) a] by simp
    let ?ix = "ix\<lparr> unbound_by_output_ref := hm_remove r (unbound_by_output_ref ix) \<rparr>"
    show ?thesis
    proof (cases "store_root (au_state a) = EMPTY_ROOT")
      case True
      let ?ix' = "bind_indexed ?ix acc (indexed_of a store_empty)"
      have n: "acct ix acc = None" "acc \<notin> pend ix" using False by (auto simp: current_def)
      then have "?ix'\<lparr> by_account_id := by_account_id ix, by_output_ref := by_output_ref ix,
          unbound_by_output_ref := unbound_by_output_ref ix, disk := disk ix \<rparr> = ix"
        by (simp add: bind_indexed_def persist_account_stores_def Let_def split: option.split)
      moreover have "ix' = ?ix'" "res = Ok (au_output a, r)"
        using assms(2) False a True ref unfolding bind_external_account_id_once_def h
        by (auto simp: Let_def from_observed_root_def current_def bind_indexed_sel)
      ultimately show ?thesis using False a True ref n by (simp add: bind_indexed_sel map_of_hm_remove del: not_None_eq)
    next
      case ne: False
      then show ?thesis using assms(2) False a unfolding bind_external_account_id_once_def h
        by (auto simp: Let_def from_observed_root_def map_of_hm_insert map_of_hm_remove fun_upd_idem)
    qed
  qed
qed

definition sample_unbound :: "unit account_index" where
  "sample_unbound = handle_ledger_event sample_ctx (with_persistence_path toy_hash None) (TxApplied (sample_tx 9 []))"

theorem bind_once_safe_witness:
  "bind_external_account_id_once sample_unbound [5] ([9], 0) = (sample_index, Ok ((), ([9], 0))) \<and>
   current sample_unbound [5] = None \<and> map_of (by_output_ref sample_index) ([9], 0) = Some [5]"
proof -
  have "index_step toy_hash (\<lambda>_. []) sample_ctx (with_persistence_path toy_hash None) sample_unbound"
    unfolding sample_unbound_def by (rule index_step.applied)
      (auto simp: sample_scan fresh_def with_persistence_path_def load_persisted_stores_def default_index_def hm_collect_def)
  then have ok: "index_ok sample_unbound" by (rule index_ok_step) (rule index_ok_load)
  have "snd (bind_external_account_id_once sample_unbound [5] ([9], 0)) = Ok ((), ([9], 0))"
    by (simp add: sample_unbound_def sample_scan apply_account_events_def observe_transaction_def
      with_persistence_path_def load_persisted_stores_def default_index_def hm_collect_def
      observe_produced_def bind_confirmed_store_for_consumed_refs_def List.map_filter_simps
      bind_empty_successor_for_consumed_account_def observe_created_or_updated_def
      bind_external_account_id_once_def Let_def hm_remove_def current_def
      bind_indexed_def persist_account_stores_def sample_utxo_def sample_account_def from_observed_root_def
      EMPTY_ROOT_def indexed_of_def from_indexed_def reference_def)
  then have bind: "bind_external_account_id_once sample_unbound [5] ([9], 0) = (sample_index, Ok ((), ([9], 0)))"
    by (simp add: sample_index_def sample_unbound_def prod_eq_iff)
  then show ?thesis using bind_once_safe [OF ok bind] by auto
qed

section \<open>Planned fills\<close>

lemma hm_insert_new: "map_of m k = None \<Longrightarrow> hm_insert k v m = m @ [(k, v)]"
  by (induction k v m rule: hm_insert.induct) (auto split: if_splits)

lemma remove_pending_sel:
  "by_account_id (remove_pending_snapshots_for ix acc r) = by_account_id ix"
  "by_output_ref (remove_pending_snapshots_for ix acc r) = by_output_ref ix"
  "rollback_by_spent_ref (remove_pending_snapshots_for ix acc r) = rollback_by_spent_ref ix"
  "unbound_by_output_ref (remove_pending_snapshots_for ix acc r) = unbound_by_output_ref ix"
  "next_snapshot_id (remove_pending_snapshots_for ix acc r) = next_snapshot_id ix"
  "pending_by_account_id (remove_pending_snapshots_for ix acc r) = pending_by_account_id ix"
  "set (pending_store_by_snapshot_id (remove_pending_snapshots_for ix acc r)) \<subseteq> set (pending_store_by_snapshot_id ix)"
  by (auto simp: remove_pending_snapshots_for_def Let_def hm_retain_def)

lemma remove_pending_gone:
  "(sid, acc, r, st) \<notin> set (pending_store_by_snapshot_id (remove_pending_snapshots_for ix acc r))"
proof
  let ?own = "\<lambda>(_, a, o', _). a = acc \<and> o' = r"
  assume in': "(sid, acc, r, st) \<in> set (pending_store_by_snapshot_id (remove_pending_snapshots_for ix acc r))"
  then have "(sid, acc, r, st) \<in> set (filter ?own (pending_store_by_snapshot_id ix))"
    using remove_pending_sel(7) [of ix acc r] by auto
  then have "sid \<in> fst ` set (filter ?own (pending_store_by_snapshot_id ix))" by force
  then have "map fst (filter ?own (pending_store_by_snapshot_id ix)) \<noteq> []" "sid \<in> set (map fst (filter ?own (pending_store_by_snapshot_id ix)))"
    by (force simp: filter_empty_conv)+
  then show False using in'
    unfolding remove_pending_snapshots_for_def Let_def hm_retain_def by (simp del: set_map)
qed

text \<open>What a successful plan leaves: the account is pending, its old output kept for a rollback, and one snapshot for it.\<close>

lemma plan_with_Ok:
  assumes "store_for_planning ix acc r = Some st" "change st = (st', Ok d)"
    and "map_of (pending_store_by_snapshot_id ix) (next_snapshot_id ix) = None"
  shows "\<exists>ix' ps. plan_with ix acc r change planned = (ix', Ok (planned d (next_snapshot_id ix))) \<and>
    pending_store_by_snapshot_id ix' = ps @ [(next_snapshot_id ix, acc, r, st')] \<and>
    set ps \<subseteq> set (pending_store_by_snapshot_id ix) \<and> (\<forall>sid st. (sid, acc, r, st) \<notin> set ps) \<and>
    next_snapshot_id ix \<notin> fst ` set ps \<and>
    acct ix' = (acct ix)(acc := None) \<and> bound ix' = (bound ix)(r := None) \<and> acc \<in> pend ix' \<and>
    rolled ix' = (case acct ix acc of Some ind \<Rightarrow> (rolled ix)(r \<mapsto> (acc, ind)) | None \<Rightarrow> rolled ix)"
proof -
  let ?ix = "remove_pending_snapshots_for ix acc r"
  let ?ps = "pending_store_by_snapshot_id ?ix"
  have n: "next_snapshot_id ix \<notin> fst ` set ?ps"
    using assms(3) remove_pending_sel(7) [of ix acc r] by (auto simp: map_of_eq_None_iff image_iff)
  then have "map_of ?ps (next_snapshot_id ix) = None" by (simp add: map_of_eq_None_iff)
  then have "plan_with ix acc r change planned = (fst (reserve_predicted_store_snapshot ?ix acc r st'), Ok (planned d (next_snapshot_id ix)))"
    "pending_store_by_snapshot_id (fst (reserve_predicted_store_snapshot ?ix acc r st')) = ?ps @ [(next_snapshot_id ix, acc, r, st')]"
    using assms(1,2) by (simp_all add: plan_with_def Let_def reserve_sel remove_pending_sel hm_insert_new split: prod.splits)
      (metis reserve_sel(10) remove_pending_sel(5) snd_conv)
  with n show ?thesis
    using remove_pending_sel(7) [of ix acc r] remove_pending_gone [of _ acc r _ ix]
    by (intro exI [of _ "fst (reserve_predicted_store_snapshot ?ix acc r st')"] exI [of _ ?ps])
      (simp add: reserve_sel remove_pending_sel split: option.split)
qed

lemma pending_consumed_all:
  "pending_store_by_snapshot_id (fold (\<lambda>r ix. observe_consumed ix r) rs ix) = pending_store_by_snapshot_id ix"
  by (induction rs arbitrary: ix) (simp_all add: observe_consumed_sel)

lemma confirm_planned:
  assumes "pending_store_by_snapshot_id ix = ps @ [(sid, acc, r, st)]" "r \<in> set rs"
    and "\<And>e. e \<in> set ps \<Longrightarrow> fst (snd (snd e)) \<notin> set rs" "store_root (au_state a) = as_root st"
  shows "acct (observe_transaction ix rs [a]) acc = Some (indexed_of a st)"
proof -
  let ?ix = "fold (\<lambda>r ix. observe_consumed ix r) (remdups rs) ix"
  have "filter (\<lambda>(_, _, old_ref, s). old_ref \<in> set rs \<and> as_root s = store_root (au_state a))
      (pending_store_by_snapshot_id ?ix) = [(sid, acc, r, st)]"
    using assms by (auto simp: pending_consumed_all filter_empty_conv)
  then show ?thesis
    by (simp add: observe_transaction_def Let_def observe_produced_def bind_confirmed_store_for_consumed_refs_def
        bind_indexed_sel)
qed

text \<open>
  A planned partial fill is confirmed.  Planning on the current account output succeeds and
  returns the root of the predicted store, which is kept under the returned snapshot id; the
  account is no longer current.  When a transaction that spends the output creates an account
  output with that root, the account becomes current again with that output and exactly the
  predicted store.
\<close>

lemma planned_insert_confirmed:
  assumes "hash32 H" "store_for_planning ix acc r = Some st" "store_ok H st"
    and "inj_on H (insert key (fst ` set (as_leaves st)))" "map_of (as_leaves st) key = None"
    and "follows (H key) (mpf_leaves H (store_trie st))"
    and "map_of (pending_store_by_snapshot_id ix) (next_snapshot_id ix) = None"
    and "r \<in> set rs"
    and "\<forall>(sid, acc', r', st') \<in> set (pending_store_by_snapshot_id ix). r' \<in> set rs \<longrightarrow> acc' = acc \<and> r' = r"
  shows "\<exists>ix' d st'. plan_sig_insert H cbor ix acc r oid key i = (ix', Ok d) \<and>
    current ix' acc = None \<and> pd_old_root d = as_root st \<and> pd_new_root d = as_root st' \<and>
    pending_snapshot ix' (pd_predicted_snapshot_id d) = Some st' \<and> store_ok H st' \<and>
    map_of (as_leaves st') = (map_of (as_leaves st))(key \<mapsto>
      \<lparr> canonical_order_id = oid, sl_intent = i, sl_digest = digest H i, sl_status = Pending \<rparr>) \<and>
    (\<forall>a. store_root (au_state a) = pd_new_root d \<longrightarrow>
      map_of (by_account_id (observe_transaction ix' rs [a])) acc = Some (indexed_of a st'))"
proof -
  obtain st' d where i: "insert_remaining H cbor st key oid i = (st', Ok d)"
    "map_of (as_leaves st') = (map_of (as_leaves st))(key \<mapsto>
      \<lparr> canonical_order_id = oid, sl_intent = i, sl_digest = digest H i, sl_status = Pending \<rparr>)"
    "md_old_root d = as_root st" "md_new_root d = as_root st'" "store_ok H st'"
    using insert_remaining_ok [OF assms(1,3-6)] by blast
  from plan_with_Ok [where change = "\<lambda>st. insert_remaining H cbor st key oid i" and planned = planned_delta,
      OF assms(2) i(1) assms(7)] obtain ix' ps where
    p: "plan_sig_insert H cbor ix acc r oid key i = (ix', Ok (planned_delta d (next_snapshot_id ix)))"
      "pending_store_by_snapshot_id ix' = ps @ [(next_snapshot_id ix, acc, r, st')]"
      "set ps \<subseteq> set (pending_store_by_snapshot_id ix)" "\<And>sid st. (sid, acc, r, st) \<notin> set ps"
      "next_snapshot_id ix \<notin> fst ` set ps" "acct ix' = (acct ix)(acc := None)"
    unfolding plan_sig_insert_def by blast
  have "fst (snd (snd e)) \<notin> set rs" if "e \<in> set ps" for e
    using assms(9) p(3,4) that by (cases e) fastforce
  then have "acct (observe_transaction ix' rs [a]) acc = Some (indexed_of a st')"
    if "store_root (au_state a) = as_root st'" for a
    using confirm_planned [OF p(2) assms(8)] that by blast
  moreover have "map_of (pending_store_by_snapshot_id ix') (next_snapshot_id ix) = Some (acc, r, st')"
    using p(2,5) by (simp add: map_of_append map_add_def split: option.split) (metis map_of_SomeD image_eqI fst_conv)
  ultimately show ?thesis
    using p(1,6) i by (intro exI [of _ ix'] exI [of _ "planned_delta d (next_snapshot_id ix)"] exI [of _ st'])
      (simp add: planned_delta_def current_def pending_snapshot_def)
qed

section \<open>Continuations\<close>

lemma set_map_filter: "y \<in> set (List.map_filter f xs) \<longleftrightarrow> (\<exists>x \<in> set xs. f x = Some y)"
  by (induction xs) (auto simp: List.map_filter_simps split: option.splits)

lemma mem_account_continuations:
  assumes "hash32 H" "store_ok H (ia_store ind)"
  shows "(ord, u) \<in> set (account_continuations H cbor acc ind) \<longleftrightarrow>
    (\<exists>key l pf. pending_leaf (ia_store ind) key = Some l \<and>
      proof_for_present H (store_trie (ia_store ind)) key = Ok pf \<and>
      has H (as_root (ia_store ind)) key (sl_digest l) pf \<and>
      ord = continuation_order acc l (proof_to_cbor cbor pf) \<and> u = ia_utxo ind)"
    (is "_ \<longleftrightarrow> (\<exists>key l pf. ?R key l pf)")
proof -
  let ?st = "ia_store ind"
  have "distinct (map fst (as_leaves ?st))"
    using assms(2) by (simp add: store_ok_def trie_ok_def bt_ok_store_trie bt_ok_distinct)
  then have "(key, l) \<in> set (as_leaves ?st) \<longleftrightarrow> map_of (as_leaves ?st) key = Some l" for key l by simp
  then have pl: "(key, l) \<in> set (pending_leaves ?st) \<longleftrightarrow> pending_leaf ?st key = Some l" for key l
    by (simp add: pending_leaves_def pending_leaf_def split: option.split) blast
  have pp: "\<exists>pf. path_proof H cbor ?st key = Ok (proof_to_cbor cbor pf) \<and>
      proof_for_present H (store_trie ?st) key = Ok pf \<and> has H (as_root ?st) key (sl_digest l) pf"
    if "pending_leaf ?st key = Some l" for key l
  proof -
    have l: "map_of (as_leaves ?st) key = Some l" "sl_status l = Pending"
      using that by (auto simp: pending_leaf_def split: option.splits if_splits)
    obtain pf where "proof_for_present H (store_trie ?st) key = Ok pf" "has H (as_root ?st) key (sl_digest l) pf"
      by (rule stored_leaf_proof [OF assms l(1), of l])
    then show ?thesis using l by (simp add: path_proof_def has_or_mismatch_def)
  qed
  show ?thesis
  proof
    assume "(ord, u) \<in> set (account_continuations H cbor acc ind)"
    then obtain key l p where "(key, l) \<in> set (pending_leaves ?st)" "path_proof H cbor ?st key = Ok p"
      "ord = continuation_order acc l p" "u = ia_utxo ind"
      by (auto simp: account_continuations_def set_map_filter split: res.splits)
    then show "\<exists>key l pf. ?R key l pf" using pp pl by (metis res.inject(1))
  next
    assume "\<exists>key l pf. ?R key l pf"
    then obtain key l pf where "?R key l pf" by blast
    moreover from this have "(key, l) \<in> set (pending_leaves ?st)" "path_proof H cbor ?st key = Ok (proof_to_cbor cbor pf)"
      using pp [of key l] pl [of key l] by auto
    ultimately show "(ord, u) \<in> set (account_continuations H cbor acc ind)"
      unfolding account_continuations_def set_map_filter by (intro bexI [of _ "(key, l)"]) simp_all
  qed
qed

text \<open>
  C26. After a restart exactly the pending remainders of the bound accounts are offered again: every
  continuation belongs to a pending leaf of a bound account, spends its current output and carries a
  proof that verifies against the recorded root, and every pending leaf has its continuation.
\<close>

theorem pending_continuations_exact:
  assumes "hash32 H" "hm_ok (by_account_id ix)"
    and "\<forall>acc ind. map_of (by_account_id ix) acc = Some ind \<longrightarrow> store_ok H (ia_store ind)"
  shows "(ord, u) \<in> set (pending_continuations H cbor ix) \<longleftrightarrow>
    (\<exists>acc ind key l pf. map_of (by_account_id ix) acc = Some ind \<and> u = ia_utxo ind \<and>
      pending_leaf (ia_store ind) key = Some l \<and>
      proof_for_present H (trie_from_leaves (as_leaves (ia_store ind))) key = Ok pf \<and>
      has H (as_root (ia_store ind)) key (sl_digest l) pf \<and>
      ord = continuation_order acc l (proof_to_cbor cbor pf))"
proof -
  have "(acc, ind) \<in> set (by_account_id ix) \<longleftrightarrow> acct ix acc = Some ind" for acc ind
    using assms(2) by (auto simp: hm_ok_def dest: map_of_SomeD)
  then have "(ord, u) \<in> set (pending_continuations H cbor ix) \<longleftrightarrow>
      (\<exists>acc ind. acct ix acc = Some ind \<and> (ord, u) \<in> set (account_continuations H cbor acc ind))"
    by (auto simp: pending_continuations_def simp del: split_paired_All)
  then show ?thesis
    using mem_account_continuations [OF assms(1)] assms(3) by blast
qed

definition sample_pending_index :: "unit account_index" where
  "sample_pending_index = sample_index\<lparr> by_account_id := [([5], indexed_of (sample_utxo 9) sample_store)] \<rparr>"

theorem pending_continuations_exact_witness:
  "\<exists>ord. (ord, ((), ([9], 0))) \<in> set (pending_continuations toy_hash (\<lambda>_. []) sample_pending_index)"
proof -
  have "hm_ok (by_account_id sample_pending_index)"
    "\<forall>acc ind. map_of (by_account_id sample_pending_index) acc = Some ind \<longrightarrow> store_ok toy_hash (ia_store ind)"
    by (simp_all add: sample_pending_index_def hm_ok_def sample_store_facts(1))
  note c = pending_continuations_exact [OF hash32_toy this]
  obtain pf where "proof_for_present toy_hash (store_trie sample_store) [1] = Ok pf"
    "has toy_hash (as_root sample_store) [1] (sl_digest sample_leaf) pf"
    using stored_leaf_proof [OF hash32_toy sample_store_facts(1,3), of sample_leaf] by metis
  then show ?thesis
    using sample_store_facts(2) unfolding c
    by (intro exI [of _ "continuation_order [5] sample_leaf (proof_to_cbor (\<lambda>_. []) pf)"] exI [of _ "[5]"]
        exI [of _ "indexed_of (sample_utxo 9) sample_store"] exI [of _ "[1]"] exI [of _ sample_leaf] exI [of _ pf])
      (simp add: sample_pending_index_def sample_utxo_def)
qed

section \<open>Restart\<close>





lemma store_empty_sel [simp]: "as_root store_empty = EMPTY_ROOT" "as_leaves store_empty = []"
  by (simp_all add: store_empty_def)




text \<open>
  One entry of the snapshot file that does not match its root discards all of them: the index
  starts without any store, and the first observed input overwrites the file with an empty one.
\<close>

theorem bad_entry_discards_file:
  fixes ix :: "'o account_index"
  assumes "s \<in> set (stores f)" "into_store H s = Err e" "ix = with_persistence_path H (Some f)"
  shows "persisted_by_output_ref ix = [] \<and> pending_store_by_snapshot_id ix = [] \<and>
    disk (observe_consumed ix r) = Some (Some \<lparr> stores = [], pending = [], file_next_snapshot_id = 0 \<rparr>)"
proof -
  have "traverse (into_store H) (stores f) \<noteq> Ok ss" for ss
    using assms(1,2) by (auto simp: traverse_eq_Ok in_set_conv_nth list_all2_conv_all_nth)
  then have "load_persisted_stores H (Some f) \<noteq> Ok x" for x
    by (simp add: load_persisted_stores_def res_simps)
  then have "ix = default_index (Some (Some f))"
    using assms(3) by (simp add: with_persistence_path_def Let_def split: res.split)
  then show ?thesis
    by (simp add: default_index_def observe_consumed_def remove_bound_output_def persist_account_stores_def hm_remove_def)
qed

theorem bad_entry_discards_file_witness:
  "let f = \<lparr> stores = [from_parts [5] ([9], 0) sample_store,
        \<lparr> pas_account_id = [6], pas_output_ref = ([8], 0), pas_root = [], pas_leaves = [] \<rparr>],
      pending = [], file_next_snapshot_id = 3 \<rparr>;
    ix = (with_persistence_path toy_hash (Some f) :: unit account_index) in
    persisted_by_output_ref ix = [] \<and> pending_store_by_snapshot_id ix = [] \<and>
    disk (observe_consumed ix ([7], 0)) = Some (Some \<lparr> stores = [], pending = [], file_next_snapshot_id = 0 \<rparr>)"
  unfolding Let_def
  by (rule bad_entry_discards_file
      [of "\<lparr> pas_account_id = [6], pas_output_ref = ([8], 0), pas_root = [], pas_leaves = [] \<rparr>" _ toy_hash
        "RootMismatch EMPTY_ROOT []"])
    (simp_all add: into_store_def from_snapshot_def trie_from_leaves_def from_leaves_def trie_root_def mpf_leaves_def
      EMPTY_ROOT_def)

section \<open>Batches and rollbacks\<close>

text \<open>An output the index has not met.\<close>

definition unseen :: "'o account_index \<Rightarrow> output_ref \<Rightarrow> bool" where
  "unseen ix r \<longleftrightarrow> fresh ix r \<and> unb ix r = None \<and> map_of (predicted_by_output_ref ix) r = None \<and>
    map_of (pending_snapshot_by_output_ref ix) r = None \<and> map_of (persisted_by_output_ref ix) r = None"

lemma observe_created_unseen:
  "unseen ix (au_output_ref a) \<Longrightarrow> observe_created_or_updated ix a =
   ix\<lparr> unbound_by_output_ref := hm_insert (au_output_ref a) a (unbound_by_output_ref ix) \<rparr>"
  by (simp add: observe_created_or_updated_def unseen_def)

lemma unseen_consumed: "unseen ix r \<Longrightarrow> unseen (observe_consumed ix r') r"
  by (auto simp: unseen_def fresh_def observe_consumed_sel split: option.split)

lemma unseen_consumed_all: "unseen ix r \<Longrightarrow> unseen (fold (\<lambda>r ix. observe_consumed ix r) rs ix) r"
  by (induction rs arbitrary: ix) (simp_all add: unseen_consumed)

lemma no_confirmation:
  assumes "\<And>e. e \<in> set (pending_store_by_snapshot_id ix) \<Longrightarrow> fst (snd (snd e)) \<notin> refs"
  shows "bind_confirmed_store_for_consumed_refs ix refs a = (ix, Err MissingStore)"
proof -
  have "filter (\<lambda>(_, _, old_ref, st). old_ref \<in> refs \<and> as_root st = store_root (au_state a))
      (pending_store_by_snapshot_id ix) = []"
    using assms by (force simp: filter_empty_conv)
  then show ?thesis by (simp add: bind_confirmed_store_for_consumed_refs_def)
qed

lemma produced_unbound_all:
  assumes "\<And>e. e \<in> set (pending_store_by_snapshot_id ix) \<Longrightarrow> fst (snd (snd e)) \<notin> refs" "card ids \<noteq> 1"
    and "\<And>a. a \<in> set as \<Longrightarrow> unseen ix (au_output_ref a)" "distinct (map au_output_ref as)"
  shows "fold (observe_produced refs ids) as ix =
    ix\<lparr> unbound_by_output_ref := fold (\<lambda>a m. hm_insert (au_output_ref a) a m) as (unbound_by_output_ref ix) \<rparr>"
  using assms
proof (induction as arbitrary: ix)
  case (Cons a as)
  let ?ix = "ix\<lparr> unbound_by_output_ref := hm_insert (au_output_ref a) a (unbound_by_output_ref ix) \<rparr>"
  have "bind_confirmed_store_for_consumed_refs ix refs a = (ix, Err MissingStore)"
    by (rule no_confirmation) (rule Cons.prems(1))
  then have "observe_produced refs ids a ix = ?ix"
    using Cons.prems(2,3)
    by (simp add: observe_produced_def bind_empty_successor_for_consumed_account_def observe_created_unseen)
  moreover have "unseen ?ix (au_output_ref a')" if "a' \<in> set as" for a'
    using Cons.prems(3) [of a'] Cons.prems(4) that
    by (auto simp: unseen_def map_of_hm_insert image_iff simp flip: not_None_eq)
  ultimately show ?case using Cons.prems Cons.IH [of ?ix] by simp
qed simp

lemma map_of_fold_insert:
  "distinct (map f as) \<Longrightarrow> a \<in> set as \<Longrightarrow> map_of (fold (\<lambda>a m. hm_insert (f a) a m) as m) (f a) = Some a"
proof (induction as arbitrary: m)
  case (Cons b as)
  have "map_of (fold (\<lambda>a m. hm_insert (f a) a m) as m) k = map_of m k" if "k \<notin> f ` set as" for k m
    using that by (induction as arbitrary: m) (auto simp: map_of_hm_insert)
  then show ?case using Cons by (auto simp: map_of_hm_insert)
qed simp

text \<open>What consuming a list of outputs does.\<close>

lemma consumed_all_bound: "bound (fold (\<lambda>r ix. observe_consumed ix r) rs ix) r = (if r \<in> set rs then None else bound ix r)"
  by (induction rs arbitrary: ix) (auto simp: observe_consumed_sel)

lemma consumed_all_held:
  "r \<in> set rs \<Longrightarrow> bound ix r = Some acc \<Longrightarrow>
   acct (fold (\<lambda>r ix. observe_consumed ix r) rs ix) acc = None \<and> acc \<in> pend (fold (\<lambda>r ix. observe_consumed ix r) rs ix)"
proof (induction rs arbitrary: ix)
  case (Cons q rs)
  have keep: "acct ix acc = None \<and> acc \<in> pend ix \<Longrightarrow>
      acct (fold (\<lambda>r ix. observe_consumed ix r) rs ix) acc = None \<and> acc \<in> pend (fold (\<lambda>r ix. observe_consumed ix r) rs ix)" for ix rs
    by (induction rs arbitrary: ix) (auto simp: observe_consumed_sel split: option.split)
  show ?case
  proof (cases "q = r")
    case True
    then have "acct (observe_consumed ix q) acc = None \<and> acc \<in> pend (observe_consumed ix q)"
      using Cons.prems(2) by (simp add: observe_consumed_sel)
    then show ?thesis using keep by simp
  next
    case False
    then show ?thesis using Cons.prems Cons.IH [of "observe_consumed ix q"] by (simp add: observe_consumed_sel)
  qed
qed simp

text \<open>
  C28. A transaction that spends the current outputs of two accounts, with any other inputs that are bound to no account (its funding and pools), and
  with no store planned on its inputs, loses both accounts: whatever new account
  outputs it creates stay unbound, neither account is current afterwards, both are pending, and because of that every later external
  binding of either account is refused.
\<close>

theorem two_account_batch_unbinds:
  assumes "index_ok ix" "acc1 \<noteq> acc2"
    and "current ix acc1 = Some u1" "current ix acc2 = Some u2"
    and "distinct rs" "reference u1 \<in> set rs" "reference u2 \<in> set rs"
    and "\<forall>r \<in> set rs. r = reference u1 \<or> r = reference u2 \<or> map_of (by_output_ref ix) r = None"
    and "\<forall>(sid, acc', r', st) \<in> set (pending_store_by_snapshot_id ix). r' \<notin> set rs"
    and "\<forall>a \<in> set as. unseen ix (au_output_ref a)" "distinct (map au_output_ref as)"
    and "ix' = observe_transaction ix rs as"
  shows "\<forall>acc \<in> {acc1, acc2}. current ix' acc = None \<and> acc \<in> pending_by_account_id ix' \<and>
    (\<forall>a \<in> set as. map_of (unbound_by_output_ref ix') (au_output_ref a) = Some a) \<and>
    (\<forall>r. bind_external_account_id_once ix' acc r = (ix', Err AlreadyBound))"
proof -
  obtain i1 i2 where i: "acct ix acc1 = Some i1" "acct ix acc2 = Some i2" "u1 = ia_utxo i1" "u2 = ia_utxo i2"
    using assms(3,4) by (auto simp: current_def)
  have b: "bound ix (reference u1) = Some acc1" "bound ix (reference u2) = Some acc2"
    using i index_okD(1) [OF assms(1)] by simp_all
  let ?ix = "fold (\<lambda>r ix. observe_consumed ix r) rs ix"
  have ids: "set (List.map_filter (bound ix) rs) = {acc1, acc2}"
    using assms(6-8) b by (auto simp: set_map_filter) (metis option.distinct(1) option.inject)+
  have "ix' = ?ix\<lparr> unbound_by_output_ref := fold (\<lambda>a m. hm_insert (au_output_ref a) a m) as (unbound_by_output_ref ?ix) \<rparr>"
  proof -
    have "fst (snd (snd e)) \<notin> set rs" if "e \<in> set (pending_store_by_snapshot_id ?ix)" for e
      using assms(9) that unfolding pending_consumed_all by (cases e) auto
    moreover have "unseen ?ix (au_output_ref a)" if "a \<in> set as" for a
      using assms(10) that unseen_consumed_all by blast
    ultimately show ?thesis
      using assms(2,5,11,12) ids produced_unbound_all [of ?ix "set rs" "{acc1, acc2}" as]
      by (simp add: observe_transaction_def Let_def distinct_remdups_id)
  qed
  moreover have "acct ?ix acc = None \<and> acc \<in> pend ?ix" if "acc \<in> {acc1, acc2}" for acc
    using that consumed_all_held [OF assms(6) b(1)] consumed_all_held [OF assms(7) b(2)] by auto
  ultimately show ?thesis
    using assms(11) by (auto simp: current_def bind_external_account_id_once_def map_of_fold_insert)
qed

definition sample_two :: "unit account_index" where
  "sample_two = bind_indexed sample_index [6] (indexed_of (sample_utxo 8) store_empty)"

lemma sample_two_ok: "index_ok sample_two"
  unfolding sample_two_def
  by (rule index_ok_bind) (auto simp: sample_index_value index_ok_def tables_ok_def fresh_def sample_utxo_def)

lemma sample_two_sel:
  "current sample_two [5] = Some ((), ([9], 0))" "current sample_two [6] = Some ((), ([8], 0))"
  "pending_store_by_snapshot_id sample_two = []" "rollback_by_spent_ref sample_two = []"
  "predicted_by_output_ref sample_two = []" "persisted_by_output_ref sample_two = []"
  "pending_snapshot_by_output_ref sample_two = []" "unb sample_two = Map.empty"
  "bound sample_two = [([9], 0) \<mapsto> [5], ([8], 0) \<mapsto> [6]]"
  by (simp_all add: sample_two_def bind_indexed_sel current_def sample_index_value sample_utxo_def)

theorem two_account_batch_unbinds_witness:
  "let ix' = observe_transaction sample_two [([7], 1), ([9], 0), ([8], 0)] [sample_utxo 3, sample_utxo 4] in
    current ix' [5] = None \<and> [5] \<in> pending_by_account_id ix' \<and> current ix' [6] = None \<and> [6] \<in> pending_by_account_id ix' \<and>
    (\<forall>r. bind_external_account_id_once ix' [5] r = (ix', Err AlreadyBound))"
  using two_account_batch_unbinds [OF sample_two_ok _ sample_two_sel(1,2), of "[([7], 1), ([9], 0), ([8], 0)]" "[sample_utxo 3, sample_utxo 4]", OF _ _ _ _ _ _ _ _ refl]
  by (simp add: sample_two_sel unseen_def fresh_def sample_utxo_def Let_def)

text \<open>The part of the index the ledger events determine.\<close>

definition view where
  "view ix = (acct ix, bound ix, unb ix, rolled ix, pend ix)"

lemma view_consumed_unseen: "unseen ix r \<Longrightarrow> view (observe_consumed ix r) = view ix"
  by (auto simp: view_def observe_consumed_sel unseen_def fresh_def)

lemma view_consumed_all:
  "(\<And>r. r \<in> set rs \<Longrightarrow> unseen ix r) \<Longrightarrow> view (fold (\<lambda>r ix. observe_consumed ix r) rs ix) = view ix"
proof (induction rs arbitrary: ix)
  case (Cons r rs)
  have "view (fold (\<lambda>r ix. observe_consumed ix r) rs (observe_consumed ix r)) = view (observe_consumed ix r)"
    by (rule Cons.IH) (simp add: Cons.prems unseen_consumed)
  then show ?case using Cons.prems by (simp add: view_consumed_unseen)
qed simp

lemma view_rollback_none:
  "rolled ix r = None \<Longrightarrow> view (observe_rollback_consumed ix r) = view ix"
  by (simp add: view_def observe_rollback_consumed_def Let_def)

lemma view_rollback:
  assumes "rolled ix r = Some (acc, ind)"
  shows "view (observe_rollback_consumed ix r) = ((acct ix)(acc \<mapsto> ind),
    (case acct ix acc of Some p \<Rightarrow> (bound ix)(acct_ref p := None) | None \<Rightarrow> bound ix)(acct_ref ind \<mapsto> acc),
    (unb ix)(acct_ref ind := None), (rolled ix)(r := None), pend ix - {acc})"
  using assms by (simp add: view_def observe_rollback_consumed_def Let_def bind_indexed_sel map_of_hm_remove split: option.split)

lemma revert_append: "revert_account_events ix (es @ es') = revert_account_events (revert_account_events ix es) es'"
  by (induction ix es rule: revert_account_events.induct) simp_all

lemma view_revert_unrolled:
  "(\<And>r. r \<in> set rs \<Longrightarrow> rolled ix r = None) \<Longrightarrow> view (revert_account_events ix (map Consumed rs)) = view ix"
proof (induction rs arbitrary: ix)
  case (Cons r rs)
  have "view (observe_rollback_consumed ix r) = view ix" using Cons.prems by (simp add: view_rollback_none)
  then show ?case using Cons.prems Cons.IH [of "observe_rollback_consumed ix r"] by (simp add: view_def)
qed simp

lemma view_revert_one:
  assumes "rolled ix r = Some (acc, ind)" "distinct rs" "r \<in> set rs"
    and "\<And>r'. r' \<in> set rs \<Longrightarrow> r' \<noteq> r \<Longrightarrow> rolled ix r' = None"
  shows "view (revert_account_events ix (map Consumed rs)) = ((acct ix)(acc \<mapsto> ind),
    (case acct ix acc of Some p \<Rightarrow> (bound ix)(acct_ref p := None) | None \<Rightarrow> bound ix)(acct_ref ind \<mapsto> acc),
    (unb ix)(acct_ref ind := None), (rolled ix)(r := None), pend ix - {acc})"
proof -
  obtain rs1 rs2 where rs: "rs = rs1 @ r # rs2" using assms(3) by (meson split_list)
  have n: "r \<notin> set rs1" "r \<notin> set rs2" using assms(2) rs by auto
  let ?ix1 = "revert_account_events ix (map Consumed rs1)"
  have u: "rolled ix r' = None" if "r' \<in> set rs1 \<or> r' \<in> set rs2" for r'
    using assms(4) [of r'] that n rs by auto
  then have v: "view ?ix1 = view ix" by (intro view_revert_unrolled) blast
  then have v1: "view (observe_rollback_consumed ?ix1 r) = ((acct ix)(acc \<mapsto> ind),
    (case acct ix acc of Some p \<Rightarrow> (bound ix)(acct_ref p := None) | None \<Rightarrow> bound ix)(acct_ref ind \<mapsto> acc),
    (unb ix)(acct_ref ind := None), (rolled ix)(r := None), pend ix - {acc})"
    using assms(1) by (subst view_rollback [of _ _ acc ind]) (simp_all add: view_def split: option.split)
  then have "rolled (observe_rollback_consumed ?ix1 r) = (rolled ix)(r := None)" by (simp add: view_def)
  then have "view (revert_account_events ix (map Consumed rs)) = view (observe_rollback_consumed ?ix1 r)"
    using u n unfolding rs map_append revert_append
    by (simp only: list.map revert_account_events.simps, intro view_revert_unrolled) (metis fun_upd_other)
  then show ?thesis using v1 by simp
qed

text \<open>The inputs of a transaction that spends one account.\<close>

lemma view_consume_one:
  assumes "index_ok ix" "acct ix acc = Some ind" "distinct rs" "acct_ref ind \<in> set rs"
    and "\<And>r. r \<in> set rs \<Longrightarrow> r \<noteq> acct_ref ind \<Longrightarrow> unseen ix r"
  shows "view (fold (\<lambda>r ix. observe_consumed ix r) rs ix) = ((acct ix)(acc := None), (bound ix)(acct_ref ind := None),
    unb ix, (rolled ix)(acct_ref ind \<mapsto> (acc, ind)), insert acc (pend ix))"
proof -
  obtain rs1 rs2 where rs: "rs = rs1 @ acct_ref ind # rs2" using assms(4) by (meson split_list)
  let ?ix1 = "fold (\<lambda>r ix. observe_consumed ix r) rs1 ix" and ?r = "acct_ref ind"
  have n: "?r \<notin> set rs1" "?r \<notin> set rs2" using assms(3) rs by auto
  have "unseen ix r" if "r \<in> set rs1" for r using assms(5) [of r] that n rs by auto
  then have v: "view ?ix1 = view ix" by (rule view_consumed_all)
  have "unseen (observe_consumed ?ix1 ?r) r" if "r \<in> set rs2" for r
    using assms(5) [of r] that n rs by (auto intro!: unseen_consumed unseen_consumed_all)
  then have "view (fold (\<lambda>r ix. observe_consumed ix r) rs ix) = view (observe_consumed ?ix1 ?r)"
    by (simp add: rs view_consumed_all)
  also have "\<dots> = ((acct ix)(acc := None), (bound ix)(?r := None), unb ix, (rolled ix)(?r \<mapsto> (acc, ind)), insert acc (pend ix))"
    using v index_okD(1) [OF assms(1,2)] unb_bound [OF assms(1)] assms(2)
    by (simp add: view_def observe_consumed_sel)
  finally show ?thesis .
qed

text \<open>What the produced account output becomes: the successor of the spent account, or unbound.\<close>

lemma view_produced:
  assumes "unseen ix (au_output_ref a)" "acct ix acc = None"
    and "\<And>sid acc' r' st. (sid, acc', r', st) \<in> set (pending_store_by_snapshot_id ix) \<Longrightarrow> r' \<in> refs \<Longrightarrow> acc' = acc"
  shows "(\<exists>st. view (observe_produced refs {acc} a ix) =
      ((acct ix)(acc \<mapsto> indexed_of a st), (bound ix)(au_output_ref a \<mapsto> acc), unb ix, rolled ix, pend ix - {acc})) \<or>
    view (observe_produced refs {acc} a ix) = (acct ix, bound ix, (unb ix)(au_output_ref a \<mapsto> a), rolled ix, pend ix)"
    (is "(\<exists>st. ?v = ?bind st) \<or> ?v = ?unb")
proof -
  have u: "(unb ix)(au_output_ref a := None) = unb ix" using assms(1) by (auto simp: unseen_def)
  let ?m = "filter (\<lambda>(_, _, old_ref, st). old_ref \<in> refs \<and> as_root st = store_root (au_state a))
      (pending_store_by_snapshot_id ix)"
  obtain ix1 res where c: "bind_confirmed_store_for_consumed_refs ix refs a = (ix1, res)" by fastforce
  show ?thesis
  proof (cases "res = Ok ()")
    case True
    then obtain sid acc' r' st m where m: "?m = (sid, acc', r', st) # m"
      using c by (cases ?m) (auto simp: bind_confirmed_store_for_consumed_refs_def)
    then have "(sid, acc', r', st) \<in> set ?m" by simp
    then have "acc' = acc" using assms(3) [of sid acc' r' st] by simp
    then have "view ix1 = ?bind st"
      using c m True assms(2) u
      by (auto simp: bind_confirmed_store_for_consumed_refs_def Let_def view_def bind_indexed_sel split: if_splits)
    then show ?thesis using c True by (auto simp: observe_produced_def)
  next
    case False
    then have i: "ix1 = ix" "bind_confirmed_store_for_consumed_refs ix refs a = (ix, res)"
      using c by (auto simp: bind_confirmed_store_for_consumed_refs_def Let_def split: list.splits prod.splits if_splits)
    then show ?thesis
      using False assms(1,2) u
      by (auto simp: observe_produced_def bind_empty_successor_for_consumed_account_def Let_def observe_created_unseen
          view_def bind_indexed_sel map_of_hm_insert split: res.split option.split)
  qed
qed

text \<open>
  C29. A rolled back transaction leaves no trace.  Let a transaction spend the current output of one account, other inputs the index has not met, and
  create one account output it has not met, with every store planned on its inputs being one of this account.  Applying and then unapplying it
  restores the bound accounts, the unbound outputs, the outputs kept for rollbacks and the pending accounts.
\<close>

theorem apply_then_revert_restores:
  assumes "index_ok ix" "current ix acc = Some u" "distinct rs" "reference u \<in> set rs"
    and "\<forall>r \<in> set rs. r \<noteq> reference u \<longrightarrow> unseen ix r" "unseen ix (au_output_ref a)"
    and "au_output_ref a \<notin> set rs"
    and "\<forall>(sid, acc', r', st) \<in> set (pending_store_by_snapshot_id ix). r' \<in> set rs \<longrightarrow> acc' = acc"
    and "es = map Consumed rs @ [Produced a]"
    and "ix' = revert_account_events (apply_account_events ix es) es"
  shows "map_of (by_account_id ix') = map_of (by_account_id ix) \<and>
    map_of (by_output_ref ix') = map_of (by_output_ref ix) \<and>
    map_of (unbound_by_output_ref ix') = map_of (unbound_by_output_ref ix) \<and>
    map_of (rollback_by_spent_ref ix') = map_of (rollback_by_spent_ref ix) \<and>
    pending_by_account_id ix' = pending_by_account_id ix"
proof -
  obtain ind where ind: "acct ix acc = Some ind" "u = ia_utxo ind" using assms(2) by (auto simp: current_def)
  let ?r = "acct_ref ind"
  have b: "bound ix ?r = Some acc" using ind index_okD(1) [OF assms(1)] by simp
  have r0: "rolled ix ?r = None" using index_okD(3) [OF assms(1), of ?r] b by (cases "rolled ix ?r") auto
  have p0: "acc \<notin> pend ix" using index_okD(5) [OF assms(1), of acc] ind by auto
  have ro: "rolled ix r = None" "bound ix r = None" if "r \<in> set rs" "r \<noteq> ?r" for r
    using assms(5) that ind by (auto simp: unseen_def fresh_def)
  let ?ix1 = "fold (\<lambda>r ix. observe_consumed ix r) rs ix"
  have v1: "view ?ix1 = ((acct ix)(acc := None), (bound ix)(?r := None), unb ix, (rolled ix)(?r \<mapsto> (acc, ind)), insert acc (pend ix))"
    using assms ind by (intro view_consume_one) auto
  have ids: "set (remdups (List.map_filter (bound ix) rs)) = {acc}"
    using assms(4) b ind ro(2) by (auto simp: set_map_filter) (metis option.distinct(1) option.inject)+
  let ?ix2 = "observe_produced (set rs) {acc} a ?ix1"
  have ap: "apply_account_events ix es = ?ix2"
    using assms(3) ids by (simp add: assms(9) apply_account_events_def observe_transaction_def Let_def distinct_remdups_id)
  have f: "au_output_ref a \<noteq> ?r" "bound ix (au_output_ref a) = None" "unb ix (au_output_ref a) = None"
    using assms(4,6,7) ind by (auto simp: unseen_def fresh_def)
  have u0: "unb ix ?r = None"
    using index_okD(4) [OF assms(1), of ?r] b by (cases "unb ix ?r") (auto simp: fresh_def)
  have "unseen ?ix1 (au_output_ref a)" using assms(6) by (rule unseen_consumed_all)
  moreover have "acc' = acc" if "(sid, acc', r', st) \<in> set (pending_store_by_snapshot_id ?ix1)" "r' \<in> set rs" for sid acc' r' st
    using assms(8) that unfolding pending_consumed_all by auto
  ultimately have cases: "(\<exists>st. view ?ix2 = ((acct ix)(acc \<mapsto> indexed_of a st), (bound ix)(?r := None, au_output_ref a \<mapsto> acc), unb ix,
      (rolled ix)(?r \<mapsto> (acc, ind)), pend ix)) \<or>
    view ?ix2 = ((acct ix)(acc := None), (bound ix)(?r := None), (unb ix)(au_output_ref a \<mapsto> a),
      (rolled ix)(?r \<mapsto> (acc, ind)), insert acc (pend ix))"
    using view_produced [of ?ix1 a acc "set rs"] v1 p0 by (simp add: view_def)
  then have R: "rolled ?ix2 = (rolled ix)(?r \<mapsto> (acc, ind))" by (auto simp: view_def)
  have "view (revert_account_events ?ix2 (map Consumed rs)) = ((acct ?ix2)(acc \<mapsto> ind),
      (case acct ?ix2 acc of Some p \<Rightarrow> (bound ?ix2)(acct_ref p := None) | None \<Rightarrow> bound ?ix2)(?r \<mapsto> acc),
      (unb ?ix2)(?r := None), (rolled ?ix2)(?r := None), pend ?ix2 - {acc})"
    using assms(3,4) ind(2) R ro(1) by (intro view_revert_one) auto
  then have "view (revert_account_events ?ix2 (map Consumed rs)) =
      (acct ix, bound ix, (unb ix)(au_output_ref a := unb ?ix2 (au_output_ref a)), rolled ix, pend ix)"
    using cases R ind(1) b f r0 p0 u0 by (auto simp: view_def fun_eq_iff)
  moreover have "ix' = observe_removed_output (revert_account_events ?ix2 (map Consumed rs)) (au_output_ref a)"
    using assms(10) ap by (simp add: assms(9) revert_append)
  ultimately show ?thesis
    using f by (simp add: view_def observe_removed_sel fun_upd_idem)
qed

theorem apply_then_revert_restores_witness:
  "let es = map Consumed [([7], 1), ([9], 0)] @ [Produced (sample_utxo 3)];
       ix' = revert_account_events (apply_account_events sample_two es) es in
    map_of (by_account_id ix') = map_of (by_account_id sample_two) \<and>
    map_of (by_output_ref ix') = map_of (by_output_ref sample_two)"
  using apply_then_revert_restores [OF sample_two_ok sample_two_sel(1), of "[([7], 1), ([9], 0)]" "sample_utxo 3", OF _ _ _ _ _ _ refl refl]
  by (simp add: sample_two_sel unseen_def fresh_def sample_utxo_def Let_def)

end
