(* ===== verification/Tx_Output.thy ===== *)
theory Tx_Output
  imports Account_Index
begin

text \<open>
  Transaction outputs as \<open>spectrum-cardano-lib/src/transaction.rs\<close> reads and changes them: the two
  formats of the ledger library with the fields the extension trait uses.  Addresses are the type
  variable \<open>'a\<close>; \<open>Address::payment_cred\<close> is a parameter.
\<close>

datatype 'a tx_out =
    AlonzoFormatTxOut (addr: 'a) (amount: val) (datum_hash: "bytes option")
  | ConwayFormatTxOut (addr: 'a) (amount: val) (datum_opt: "datum_option option")

fun address :: "'a tx_out \<Rightarrow> 'a" where
  "address (AlonzoFormatTxOut a _ _) = a"
| "address (ConwayFormatTxOut a _ _) = a"

fun value_of :: "'a tx_out \<Rightarrow> val" where
  "value_of (AlonzoFormatTxOut _ v _) = v"
| "value_of (ConwayFormatTxOut _ v _) = v"

fun update_value :: "val \<Rightarrow> 'a tx_out \<Rightarrow> 'a tx_out" where
  "update_value v (AlonzoFormatTxOut a _ d) = AlonzoFormatTxOut a v d"
| "update_value v (ConwayFormatTxOut a _ d) = ConwayFormatTxOut a v d"

fun txo_into_datum :: "'a tx_out \<Rightarrow> datum_option option" where
  "txo_into_datum (AlonzoFormatTxOut _ _ h) = map_option DatumHash h"
| "txo_into_datum (ConwayFormatTxOut _ _ d) = d"

text \<open>Writing through \<open>data_mut\<close>: only an inline datum can be replaced.\<close>

fun set_data :: "plutus_data \<Rightarrow> 'a tx_out \<Rightarrow> 'a tx_out option" where
  "set_data pd (ConwayFormatTxOut a v (Some (Datum _))) = Some (ConwayFormatTxOut a v (Some (Datum pd)))"
| "set_data pd _ = None"

fun null_datum :: "'a tx_out \<Rightarrow> 'a tx_out" where
  "null_datum (AlonzoFormatTxOut a v _) = AlonzoFormatTxOut a v None"
| "null_datum (ConwayFormatTxOut a v _) = ConwayFormatTxOut a v None"

fun update_address :: "'a \<Rightarrow> 'a tx_out \<Rightarrow> 'a tx_out" where
  "update_address a (AlonzoFormatTxOut _ v d) = AlonzoFormatTxOut a v d"
| "update_address a (ConwayFormatTxOut _ v d) = ConwayFormatTxOut a v d"

definition script_hash :: "('a \<Rightarrow> credential option) \<Rightarrow> 'a tx_out \<Rightarrow> bytes option" where
  "script_hash pc out = (case pc (address out) of Some (Script h) \<Rightarrow> Some h | _ \<Rightarrow> None)"

text \<open>The account parser on these outputs.\<close>

definition tx_ctx :: "('a \<Rightarrow> credential option) \<Rightarrow> (int \<Rightarrow> int option) \<Rightarrow> bytes \<Rightarrow> 'a tx_out account_ctx" where
  "tx_ctx pc as_int h = \<lparr> payment_cred = (\<lambda>out. pc (address out)), into_datum = txo_into_datum,
     as_int_of = as_int, validator_hash = h \<rparr>"

lemma update_value_sel [simp]:
  "address (update_value v out) = address out" "value_of (update_value v out) = v"
  "txo_into_datum (update_value v out) = txo_into_datum out"
  by (cases out; simp)+

lemma set_data_Some:
  "set_data pd out = Some out' \<Longrightarrow>
   address out' = address out \<and> value_of out' = value_of out \<and> txo_into_datum out' = Some (Datum pd)"
  by (induction pd out rule: set_data.induct) auto

lemma set_data_inline: "txo_into_datum out = Some (Datum d) \<Longrightarrow> \<exists>out'. set_data pd out = Some out'"
  by (cases "(pd, out)" rule: set_data.cases) auto

end
