(* ===== verification/Book_Core.thy ===== *)
theory Book_Core
  imports Cardano_Base
begin

text \<open>
  State transitions of takers (\<open>bloom-offchain/src/execution_engine/liquidity_book/core.rs\<close>), the
  taker interface (\<open>market_taker.rs\<close>) and time bounds (\<open>time.rs\<close>).

  The traits \<open>MarketTaker\<close> and \<open>TakerBehaviour\<close> are the record \<open>taker\<close> of their operations, passed to
  the generic functions as Rust passes the implementation.  \<open>i64\<close> results are wrapped by \<open>wrap_i64\<close>.
\<close>

definition wrap_i64 :: "int \<Rightarrow> i64" where
  "wrap_i64 n = sint (word_of_int n :: u64)"

definition saturating_mul :: "'a::len word \<Rightarrow> 'a word \<Rightarrow> 'a word" where
  "saturating_mul a b = (if unat a * unat b < 2 ^ LENGTH('a) then a * b else - 1)"

definition checked_div :: "'a::len word \<Rightarrow> 'a word \<Rightarrow> 'a word option" where
  "checked_div a b = (if b = 0 then None else Some (a div b))"

section \<open>Terminal states and transitions\<close>

record terminal_take =
  remaining_input :: u64
  tt_accumulated_output :: u64
  remaining_budget :: u64
  remaining_fee :: u64

definition tt_with_budget_corrected :: "terminal_take \<Rightarrow> i64 \<Rightarrow> i64 \<times> terminal_take" where
  "tt_with_budget_corrected t delta =
    (let budget_remainder = sint (remaining_budget t);
         corrected_remainder = wrap_i64 (budget_remainder + delta);
         updated_budget_remainder = max corrected_remainder 0;
         real_delta = wrap_i64 (updated_budget_remainder - budget_remainder)
     in (real_delta, t\<lparr> remaining_budget := word_of_int updated_budget_remainder \<rparr>))"

definition tt_with_output_added :: "terminal_take \<Rightarrow> u64 \<Rightarrow> terminal_take" where
  "tt_with_output_added t n = t\<lparr> tt_accumulated_output := tt_accumulated_output t + n \<rparr>"

definition tt_with_fee_charged :: "terminal_take \<Rightarrow> u64 \<Rightarrow> terminal_take" where
  "tt_with_fee_charged t fee = t\<lparr> remaining_fee := remaining_fee t - fee \<rparr>"

datatype ('s, 't) nxt = Succ 's | Term 't

fun map_succ :: "('s \<Rightarrow> 'r) \<Rightarrow> ('s, 't) nxt \<Rightarrow> ('r, 't) nxt" where
  "map_succ f (Succ s) = Succ (f s)"
| "map_succ f (Term t) = Term t"

record ('i, 'c, 't) trans =
  target :: 'i
  result :: "('c, 't) nxt"

definition trans_combine :: "('i, 'c, 't) trans \<Rightarrow> ('i, 'c, 't) trans \<Rightarrow> ('i, 'c, 't) trans" where
  "trans_combine a b = \<lparr> target = target a, result = result b \<rparr>"

type_synonym 't take_in_progress = "('t, 't, terminal_take) trans"
type_synonym ('t, 'b) take = "('t \<times> 'b, 't, terminal_take) trans"


section \<open>Time bounds\<close>

datatype 't time_bounds = Until 't | After 't | Within 't 't | NoBounds

fun contain :: "'t::linorder time_bounds \<Rightarrow> 't \<Rightarrow> bool" where
  "contain (Until t) time_slot = (time_slot \<le> t)"
| "contain (After t) time_slot = (t \<ge> time_slot)"
| "contain (Within t0 t1) time_slot = (t0 \<ge> time_slot \<and> time_slot \<le> t1)"
| "contain NoBounds time_slot = True"

fun lower_bound :: "'t time_bounds \<Rightarrow> 't option" where
  "lower_bound (After t) = Some t"
| "lower_bound (Within t0 _) = Some t0"
| "lower_bound (Until _) = None"
| "lower_bound NoBounds = None"


section \<open>The taker interface\<close>

record 't taker =
  t_side :: "'t \<Rightarrow> side"
  t_input :: "'t \<Rightarrow> u64"
  t_output :: "'t \<Rightarrow> u64"
  t_operator_fee :: "'t \<Rightarrow> u64 \<Rightarrow> u64"
  t_fee :: "'t \<Rightarrow> u64"
  t_budget :: "'t \<Rightarrow> u64"
  t_consumable_budget :: "'t \<Rightarrow> u64"
  t_min_marginal_output :: "'t \<Rightarrow> u64"
  t_time_bounds :: "'t \<Rightarrow> u64 time_bounds"
  t_with_updated_time :: "'t \<Rightarrow> u64 \<Rightarrow> ('t, unit) nxt"
  t_with_applied_trade :: "'t \<Rightarrow> u64 \<Rightarrow> u64 \<Rightarrow> ('t, terminal_take) nxt"
  t_with_budget_corrected :: "'t \<Rightarrow> i64 \<Rightarrow> i64 \<times> 't"
  t_with_fee_charged :: "'t \<Rightarrow> u64 \<Rightarrow> 't"
  t_with_output_added :: "'t \<Rightarrow> u64 \<Rightarrow> 't"
  t_try_terminate :: "'t \<Rightarrow> ('t, terminal_take) nxt"

text \<open>The remaining amounts of a result.\<close>

fun res_input :: "'t taker \<Rightarrow> ('t, terminal_take) nxt \<Rightarrow> u64" where
  "res_input T (Succ s) = t_input T s"
| "res_input T (Term t) = remaining_input t"

fun res_output :: "'t taker \<Rightarrow> ('t, terminal_take) nxt \<Rightarrow> u64" where
  "res_output T (Succ s) = t_output T s"
| "res_output T (Term t) = tt_accumulated_output t"

fun res_fee :: "'t taker \<Rightarrow> ('t, terminal_take) nxt \<Rightarrow> u64" where
  "res_fee T (Succ s) = t_fee T s"
| "res_fee T (Term t) = remaining_fee t"

fun res_budget :: "'t taker \<Rightarrow> ('t, terminal_take) nxt \<Rightarrow> u64" where
  "res_budget T (Succ s) = t_budget T s"
| "res_budget T (Term t) = remaining_budget t"

text \<open>The accounting of a \<open>Take\<close>; \<open>expect\<close> panics when the difference is negative.\<close>

definition added_output :: "'t taker \<Rightarrow> ('t, 'b) take \<Rightarrow> (unit, u64) res" where
  "added_output T tr = unwrap (checked_sub (res_output T (result tr)) (t_output T (fst (target tr))))"

definition removed_input :: "'t taker \<Rightarrow> ('t, 'b) take \<Rightarrow> (unit, u64) res" where
  "removed_input T tr = unwrap (checked_sub (t_input T (fst (target tr))) (res_input T (result tr)))"

definition consumed_fee :: "'t taker \<Rightarrow> ('t, 'b) take \<Rightarrow> (unit, u64) res" where
  "consumed_fee T tr = unwrap (checked_sub (t_fee T (fst (target tr))) (res_fee T (result tr)))"

definition consumed_budget :: "'t taker \<Rightarrow> ('t, 'b) take \<Rightarrow> (unit, u64) res" where
  "consumed_budget T tr = unwrap (checked_sub (t_budget T (fst (target tr))) (res_budget T (result tr)))"

definition correct_result :: "'t taker \<Rightarrow> ('t, terminal_take) nxt \<Rightarrow> i64 \<Rightarrow> i64 \<times> ('t, terminal_take) nxt" where
  "correct_result T r delta =
    (case r of
       Succ s \<Rightarrow> let (d, s') = t_with_budget_corrected T s delta in (wrap_i64 (- d), Succ s')
     | Term t \<Rightarrow> let (d, t') = tt_with_budget_corrected t delta in (wrap_i64 (- d), Term t'))"

definition correct_consumed_budget :: "'t taker \<Rightarrow> ('t, 'b) take \<Rightarrow> i64 \<Rightarrow> ('t, 'b) take \<times> i64" where
  "correct_consumed_budget T tr delta =
    (let (d, r) = correct_result T (result tr) (wrap_i64 (- delta)) in (tr\<lparr> result := r \<rparr>, d))"

text \<open>\<open>scale.numer()\<close> and \<open>scale.denom()\<close>; a zero denominator panics in the division.\<close>

definition scale_consumed_budget ::
  "'t taker \<Rightarrow> ('t, 'b) take \<Rightarrow> u64 \<times> u64 \<Rightarrow> (unit, ('t, 'b) take \<times> i64) res" where
  "scale_consumed_budget T tr scale =
    and_then (consumed_budget T tr) (\<lambda>old_val.
    and_then (unwrap (checked_div (old_val * fst scale) (snd scale))) (\<lambda>new_val.
      let delta = wrap_i64 (sint new_val - sint old_val);
          (d, r) = correct_result T (result tr) (wrap_i64 (- delta))
      in Ok (tr\<lparr> result := r \<rparr>, d)))"


section \<open>Takes in progress\<close>

definition tip_removed_input :: "'t taker \<Rightarrow> 't take_in_progress \<Rightarrow> (unit, u64) res" where
  "tip_removed_input T tr = unwrap (checked_sub (t_input T (target tr)) (res_input T (result tr)))"

definition tip_added_output :: "'t taker \<Rightarrow> 't take_in_progress \<Rightarrow> (unit, u64) res" where
  "tip_added_output T tr = unwrap (checked_sub (res_output T (result tr)) (t_output T (target tr)))"

definition finalized :: "'t taker \<Rightarrow> 't take_in_progress \<Rightarrow> u64 \<Rightarrow> (unit, 't take_in_progress) res" where
  "finalized T tr excess =
    and_then (tip_removed_input T tr) (\<lambda>removed.
      let fee = t_operator_fee T (target tr) removed;
          budget = sint (t_consumable_budget T (target tr));
          r = (case result tr of
                 Succ s \<Rightarrow> t_try_terminate T (snd (t_with_budget_corrected T
                   (t_with_fee_charged T (t_with_output_added T s excess) fee) (wrap_i64 (- budget))))
               | Term t \<Rightarrow> Term (snd (tt_with_budget_corrected
                   (tt_with_fee_charged (tt_with_output_added t excess) fee) (wrap_i64 (- budget)))))
      in Ok \<lparr> target = target tr, result = r \<rparr>)"

text \<open>\<open>FinalRecipe::link\<close> bundles the target of a final take with its bearer.\<close>

definition bundle_take :: "'t take_in_progress \<Rightarrow> 'b \<Rightarrow> ('t, 'b) take" where
  "bundle_take tr bearer = \<lparr> target = (target tr, bearer), result = result tr \<rparr>"

end
