(* ===== verification/Green_Exec.thy ===== *)
theory Green_Exec
  imports Tx_Output Book_Core
begin

text \<open>
  Execution of a Green order: the order as a taker of the liquidity book
  (\<open>bloom-offchain-cardano/src/orders/green.rs\<close>), its batch execution
  (\<open>bloom-offchain-cardano/src/execution_engine/instances.rs\<close>) and the transaction blueprint with
  the projection that pays the operator and orders inputs and outputs
  (\<open>execution_engine/execution_state.rs\<close>).

  The account index behind its mutex is an argument and a result of \<open>exec_green\<close>.  Parameters:
  \<open>H\<close> and \<open>cbor\<close> as in the account store, \<open>vsub\<close> and \<open>vadd\<close> the checked arithmetic of ledger values,
  \<open>new_out\<close> the constructor \<open>TransactionOutput::new\<close> without datum and script.
\<close>

section \<open>The order as a taker\<close>

definition go_operator_fee :: "green_order \<Rightarrow> u64 \<Rightarrow> u64" where
  "go_operator_fee ord input_consumed =
    (case checked_div (saturating_mul (gi_fee_lovelace (intention ord)) input_consumed)
            (gi_leaving_amount (intention ord)) of
       Some f \<Rightarrow> f
     | None \<Rightarrow> 0)"

definition go_try_terminate :: "green_order \<Rightarrow> (green_order, terminal_take) nxt" where
  "go_try_terminate ord =
    (if current_remainder ord = 0
     then Term \<lparr> remaining_input = 0, tt_accumulated_output = accumulated_output ord,
                 remaining_budget = 0, remaining_fee = gi_fee_lovelace (intention ord) \<rparr>
     else Succ ord)"

definition go_with_applied_trade :: "green_order \<Rightarrow> u64 \<Rightarrow> u64 \<Rightarrow> (green_order, terminal_take) nxt" where
  "go_with_applied_trade ord removed added =
    go_try_terminate (ord\<lparr> current_remainder := saturating_sub (current_remainder ord) removed,
                           accumulated_output := saturating_add (accumulated_output ord) added \<rparr>)"

definition green_taker :: "green_order taker" where
  "green_taker = \<lparr>
     t_side = (\<lambda>ord. side_of (input_asset (intention ord)) (output_asset (intention ord))),
     t_input = current_remainder,
     t_output = accumulated_output,
     t_operator_fee = go_operator_fee,
     t_fee = (\<lambda>ord. gi_fee_lovelace (intention ord)),
     t_budget = (\<lambda>_. 0),
     t_consumable_budget = (\<lambda>ord. gi_fee_lovelace (intention ord)),
     t_min_marginal_output = (\<lambda>_. 1),
     t_time_bounds = (\<lambda>_. NoBounds),
     t_with_updated_time = (\<lambda>ord _. Succ ord),
     t_with_applied_trade = go_with_applied_trade,
     t_with_budget_corrected = (\<lambda>ord _. (0, ord)),
     t_with_fee_charged = (\<lambda>ord _. ord),
     t_with_output_added = (\<lambda>ord n. ord\<lparr> accumulated_output := saturating_add (accumulated_output ord) n \<rparr>),
     t_try_terminate = go_try_terminate \<rparr>"


section \<open>Blueprints\<close>

record ex_units =
  mem :: u64
  steps :: u64

definition ex_add :: "ex_units \<Rightarrow> ex_units \<Rightarrow> ex_units" where
  "ex_add a b = \<lparr> mem = mem a + mem b, steps = steps a + steps b \<rparr>"

definition ex_scale :: "ex_units \<Rightarrow> u64 \<Rightarrow> ex_units" where
  "ex_scale a k = \<lparr> mem = mem a * k, steps = steps a * k \<rparr>"

record 'a validator =
  reference_utxo :: "output_ref \<times> 'a tx_out"
  v_hash :: bytes
  ex_budget :: ex_units
  marginal_cost :: ex_units

text \<open>
  A script input; its cost depends on the index the input gets in the transaction, and its redeemer on
  the indices of the inputs.
\<close>

record 'a script_input =
  si_reference :: output_ref
  si_utxo :: "'a tx_out"
  si_script_hash :: bytes
  si_cost :: "u64 \<Rightarrow> ex_units"
  si_redeemer :: "(output_ref \<Rightarrow> u64) \<Rightarrow> plutus_data"
  required_signers :: "bytes list"

record 'a tx_blueprint =
  script_io :: "('a script_input \<times> 'a tx_out) list"
  account_script_refs :: "output_ref set"
  reference_inputs :: "(output_ref \<times> 'a tx_out) set"
  aleph_batch_witness :: "('a validator \<times> (output_ref \<times> aleph_authorized_intention) list) option"

record 'a execution_state =
  tx_blueprint_of :: "'a tx_blueprint"
  reserved_tx_fee :: u64
  operator_interest :: u64

definition new_state :: "'a execution_state" where
  "new_state = \<lparr> tx_blueprint_of = \<lparr> script_io = [], account_script_refs = {}, reference_inputs = {},
     aleph_batch_witness = None \<rparr>, reserved_tx_fee = 0, operator_interest = 0 \<rparr>"

definition add_account_io :: "'a script_input \<Rightarrow> 'a tx_out \<Rightarrow> 'a tx_blueprint \<Rightarrow> 'a tx_blueprint" where
  "add_account_io inp out b = b\<lparr> account_script_refs := insert (si_reference inp) (account_script_refs b),
     script_io := script_io b @ [(inp, out)] \<rparr>"

definition add_io :: "'a script_input \<Rightarrow> 'a tx_out \<Rightarrow> 'a tx_blueprint \<Rightarrow> 'a tx_blueprint" where
  "add_io inp out b = b\<lparr> script_io := script_io b @ [(inp, out)] \<rparr>"

definition add_ref_input :: "output_ref \<times> 'a tx_out \<Rightarrow> 'a tx_blueprint \<Rightarrow> 'a tx_blueprint" where
  "add_ref_input u b = b\<lparr> reference_inputs := insert u (reference_inputs b) \<rparr>"

text \<open>Validators are compared by their hash.\<close>

definition add_aleph_batch_intention ::
  "'a validator \<Rightarrow> output_ref \<Rightarrow> aleph_authorized_intention \<Rightarrow> 'a tx_blueprint \<Rightarrow> (unit, 'a tx_blueprint) res" where
  "add_aleph_batch_intention witness r i b =
    (case aleph_batch_witness b of
       Some (existing, is) \<Rightarrow>
         if v_hash existing = v_hash witness
         then Ok (b\<lparr> aleph_batch_witness := Some (existing, is @ [(r, i)]) \<rparr>)
         else Panic
     | None \<Rightarrow> Ok (b\<lparr> aleph_batch_witness := Some (witness, [(r, i)]) \<rparr>))"


section \<open>Batch execution of a Green order\<close>

datatype ('t, 'k) exec_eff = Updated 'k 't | Eliminated 'k

record 'a exec_env =
  operator_hash :: bytes
  account_validator :: "'a validator"
  batch_witness :: "'a validator"
  allow_green_partial :: bool
  account_ctx_of :: "'a tx_out account_ctx"

definition aleph_delegate_index_for_witness :: "bytes list \<Rightarrow> bytes \<Rightarrow> (unit, u64) res" where
  "aleph_delegate_index_for_witness al w =
    unwrap (map_option of_nat (find (\<lambda>i. al ! i = w) [0..<length al]))"

definition leaving_remainder_of :: "(green_order, terminal_take) nxt \<Rightarrow> u64" where
  "leaving_remainder_of r = (case r of Term _ \<Rightarrow> 0 | Succ s \<Rightarrow> current_remainder s)"

text \<open>The checks before the account is touched; each one that fails is a panic.\<close>

definition exec_checks :: "'a exec_env \<Rightarrow> green_order \<Rightarrow> u64 \<Rightarrow> u64 \<Rightarrow> u64 \<Rightarrow> u64 \<Rightarrow> bool" where
  "exec_checks env ord budget removed added rem_in \<longleftrightarrow>
    budget = 0 \<and> input_asset (intention ord) = Native \<and>
    operator_key_hash (intention ord) = operator_hash env \<and>
    removed \<le> gi_leaving_amount (intention ord) \<and>
    (rem_in \<noteq> 0 \<or> gi_expected_arriving_amount (intention ord) \<le> added) \<and>
    (rem_in = 0 \<or> allow_green_partial env)"

text \<open>
  The store planning of \<open>exec\<close>: the root for the next state and the authorisation to submit.  Every
  planning error panics (\<open>expect\<close>).
\<close>

definition exec_plan ::
  "(bytes \<Rightarrow> bytes) \<Rightarrow> (plutus_data \<Rightarrow> bytes) \<Rightarrow> 'o account_index \<Rightarrow> green_order \<Rightarrow> output_ref \<Rightarrow>
   aleph_intention \<Rightarrow> bytes \<Rightarrow> u64 \<Rightarrow> u64 \<Rightarrow> u64 \<Rightarrow> 'o account_index \<times> (unit, bytes \<times> green_auth) res" where
  "exec_plan H cbor ix ord account_ref i root removed added rem_in =
    (if rem_in > 0 then
       (case remaining_after_fill i removed added of
          None \<Rightarrow> (ix, Panic)
        | Some updated \<Rightarrow>
            (case go_auth ord of
               Sig prefix postfix signature _ \<Rightarrow>
                 let (ix', r) = plan_sig_insert H cbor ix (go_account_id ord) account_ref (go_id ord) (intent_key i) updated
                 in (ix', and_then (expect r) (\<lambda>p. Ok (pd_new_root p, Sig prefix postfix signature (pd_proof p))))
             | Path _ \<Rightarrow>
                 let (ix', r) = plan_path_update H cbor ix (go_account_id ord) account_ref (intent_key i) (digest H i) updated
                 in (ix', and_then (expect r) (\<lambda>p. Ok (pd_new_root p, Path (pd_proof p))))))
     else
       (case go_auth ord of
          Sig _ _ _ _ \<Rightarrow> (ix, Ok (root, go_auth ord))
        | Path _ \<Rightarrow>
            let (ix', r) = plan_path_completion H cbor ix (go_account_id ord) account_ref (intent_key i) (digest H i)
            in (ix', and_then (expect r) (\<lambda>p. Ok (pc_root p, Path (pc_proof p))))))"

text \<open>The state of the account after the fill, before its store root is set.\<close>

definition exec_next_state :: "green_order \<Rightarrow> aleph_account_state \<Rightarrow> (unit, aleph_account_state) res" where
  "exec_next_state ord st =
    (case go_auth ord of
       Sig _ _ _ _ \<Rightarrow> unwrap (with_sig_full_fill_nonce st (target_nonce_slot (intention ord)) (gi_target_nonce_value (intention ord)))
     | Path _ \<Rightarrow> Ok st)"

text \<open>The produced account output: the value after the fill and the datum of the next state.\<close>

definition exec_output ::
  "(val \<Rightarrow> val \<Rightarrow> val option) \<Rightarrow> (val \<Rightarrow> val \<Rightarrow> val option) \<Rightarrow> 'a tx_out \<Rightarrow> green_order \<Rightarrow> u64 \<Rightarrow> u64 \<Rightarrow> u64 \<Rightarrow>
   aleph_account_state \<Rightarrow> (unit, 'a tx_out) res" where
  "exec_output vsub vadd out ord removed added fee next_state =
    and_then (expect (apply_full_fill_to_account_output vsub vadd (value_of out) ord removed added fee)) (\<lambda>v.
    and_then (account_state_into_pd next_state) (\<lambda>pd.
      unwrap (set_data pd (update_value v out))))"

definition exec_account_input ::
  "'a exec_env \<Rightarrow> 'a tx_out aleph_account_utxo \<Rightarrow> u64 \<Rightarrow> 'a script_input" where
  "exec_account_input env account delegate_index = (let w = account_validator env in
    \<lparr> si_reference = au_output_ref account, si_utxo = au_output account, si_script_hash = v_hash w,
      si_cost = (\<lambda>i. ex_add (ex_budget w) (ex_scale (marginal_cost w) i)),
      si_redeemer = (\<lambda>_. account_action_into_pd
        (case st_abi (au_state account) of Legacy \<Rightarrow> Direct | Current \<Rightarrow> Delegate delegate_index)),
      required_signers = [operator_hash env] \<rparr>)"

definition exec_blueprint ::
  "'a exec_env \<Rightarrow> 'a execution_state \<Rightarrow> 'a tx_out aleph_account_utxo \<Rightarrow> 'a tx_out \<Rightarrow> u64 \<Rightarrow> u64 \<Rightarrow> u64 \<Rightarrow>
   aleph_authorized_intention \<Rightarrow> (unit, 'a execution_state) res" where
  "exec_blueprint env s account out delegate_index budget fee authorized =
    and_then (add_aleph_batch_intention (batch_witness env) (au_output_ref account) authorized
       (add_ref_input (reference_utxo (account_validator env))
         (add_account_io (exec_account_input env account delegate_index) out (tx_blueprint_of s)))) (\<lambda>b.
      Ok \<lparr> tx_blueprint_of = b, reserved_tx_fee = reserved_tx_fee s + budget,
           operator_interest = operator_interest s + fee \<rparr>)"

text \<open>\<open>exec\<close> after its checks, on the parsed account.\<close>

definition exec_account ::
  "(bytes \<Rightarrow> bytes) \<Rightarrow> (plutus_data \<Rightarrow> bytes) \<Rightarrow> (val \<Rightarrow> val \<Rightarrow> val option) \<Rightarrow> (val \<Rightarrow> val \<Rightarrow> val option) \<Rightarrow>
   'a exec_env \<Rightarrow> 'a tx_out account_index \<Rightarrow> 'a execution_state \<Rightarrow> green_order \<Rightarrow> 'a tx_out aleph_account_utxo \<Rightarrow>
   u64 \<Rightarrow> u64 \<Rightarrow> u64 \<Rightarrow> u64 \<Rightarrow> u64 \<Rightarrow>
   'a tx_out account_index \<times> (unit, 'a execution_state \<times> (green_order \<times> 'a tx_out, green_order \<times> 'a tx_out finalized_tx_out) exec_eff) res" where
  "exec_account H cbor vsub vadd env ix s ord account removed added budget fee rem_in =
    (case exec_next_state ord (au_state account) of
       Ok next_state \<Rightarrow>
         (case (if st_abi (au_state account) = Current
                then aleph_delegate_index_for_witness (allowlist (au_state account)) (v_hash (batch_witness env))
                else Ok 0) of
            Ok delegate_index \<Rightarrow>
              let i = (go_aleph_intention ord)\<lparr> abi := st_abi (au_state account) \<rparr>;
                  (ix', plan) = exec_plan H cbor ix ord (au_output_ref account) i (store_root next_state) removed added rem_in
              in (ix',
                and_then plan (\<lambda>(root, auth).
                and_then (exec_output vsub vadd (au_output account) ord removed added fee
                    (next_state\<lparr> store_root := root \<rparr>)) (\<lambda>out.
                and_then (exec_blueprint env s account out delegate_index budget fee
                    \<lparr> intent = i, remainder = rem_in, aai_auth = auth \<rparr>) (\<lambda>s'.
                  Ok (s', Eliminated (ord, (au_output account, au_output_ref account)))))))
          | _ \<Rightarrow> (ix, Panic))
     | _ \<Rightarrow> (ix, Panic))"

definition exec_green ::
  "(bytes \<Rightarrow> bytes) \<Rightarrow> (plutus_data \<Rightarrow> bytes) \<Rightarrow> (val \<Rightarrow> val \<Rightarrow> val option) \<Rightarrow> (val \<Rightarrow> val \<Rightarrow> val option) \<Rightarrow>
   'a exec_env \<Rightarrow> 'a tx_out account_index \<Rightarrow> 'a execution_state \<Rightarrow> (green_order, 'b) take \<Rightarrow>
   'a tx_out account_index \<times> (unit, 'a execution_state \<times> (green_order \<times> 'a tx_out, green_order \<times> 'a tx_out finalized_tx_out) exec_eff) res" where
  "exec_green H cbor vsub vadd env ix s tr =
    (case (removed_input green_taker tr, added_output green_taker tr, consumed_budget green_taker tr, consumed_fee green_taker tr) of
       (Ok removed, Ok added, Ok budget, Ok fee) \<Rightarrow>
         let ord = fst (target tr); rem_in = leaving_remainder_of (result tr) in
         if \<not> exec_checks env ord budget removed added rem_in then (ix, Panic)
         else
           (case current_or_pending_base ix (go_account_id ord) of
              None \<Rightarrow> (ix, Panic)
            | Some bearer \<Rightarrow>
                (case try_parse (account_ctx_of env) (reference bearer) (fst bearer) of
                   None \<Rightarrow> (ix, Panic)
                 | Some account \<Rightarrow>
                     exec_account H cbor vsub vadd env ix s ord account removed added budget fee rem_in))
     | _ \<Rightarrow> (ix, Panic))"


section \<open>Projection of the blueprint\<close>

definition MIN_SAFE_LOVELACE_VALUE :: u64 where
  "MIN_SAFE_LOVELACE_VALUE = 1000000"

datatype ('t, 'k) funding_io = Replaced 't 'k | Added 't 'k | NotUsed 't

text \<open>\<open>Either\<close>: a script input with its output, or an operator output with an optional funding input.\<close>

datatype 'a io = ScriptIO "'a script_input" "'a tx_out" | OperatorIO "'a tx_out finalized_tx_out option" "'a tx_out"

definition lovelace :: "u64 \<Rightarrow> val" where
  "lovelace n = \<lparr> coin = n, multiasset = [] \<rparr>"

text \<open>The operator inputs and outputs and what becomes of the funding output.\<close>

definition project_funding ::
  "('a \<Rightarrow> val \<Rightarrow> 'a tx_out) \<Rightarrow> bool \<Rightarrow> 'a \<Rightarrow> 'a tx_out finalized_tx_out \<Rightarrow> u64 \<Rightarrow> u64 \<Rightarrow>
   'a io list \<times> ('a tx_out finalized_tx_out, 'a tx_out) funding_io" where
  "project_funding new_out forced operator_address funding interest reserve =
    (let reserved = (if reserve > 0 then update_value (sub_unsafe (value_of (fst funding)) Native reserve) (fst funding)
                     else fst funding) in
     if interest > 0 then
       if interest \<ge> MIN_SAFE_LOVELACE_VALUE \<and> \<not> forced then
         let out = new_out operator_address (lovelace interest) in
         ([OperatorIO None out], if operator_address = address (fst funding) then Added funding out else NotUsed funding)
       else if forced then
         let out = (if interest < MIN_SAFE_LOVELACE_VALUE
                    then update_value (add_unsafe (value_of reserved) Native interest) reserved else reserved)
         in (OperatorIO (Some funding) out #
               (if interest \<ge> MIN_SAFE_LOVELACE_VALUE then [OperatorIO None (new_out operator_address (lovelace interest))] else []),
             Replaced funding out)
       else
         let out = new_out (address (fst funding)) (add_unsafe (value_of (fst funding)) Native interest)
         in ([OperatorIO (Some funding) out], Replaced funding out)
     else if forced then ([OperatorIO (Some funding) reserved], Replaced funding reserved)
     else ([], NotUsed funding))"

text \<open>
  The comparison of inputs and outputs: the rank first, then the reference.  Elements without a
  reference (a reward output) only meet their like in a rank.
\<close>

definition io_rank :: "bool \<Rightarrow> output_ref set \<Rightarrow> 'a io \<Rightarrow> nat" where
  "io_rank forced refs io =
    (if forced then
       (case io of
          ScriptIO i _ \<Rightarrow> if si_reference i \<in> refs then 0 else 2
        | OperatorIO (Some _) _ \<Rightarrow> 1
        | OperatorIO None _ \<Rightarrow> 3)
     else (case io of OperatorIO None _ \<Rightarrow> 0 | _ \<Rightarrow> 1))"

fun io_ref :: "'a io \<Rightarrow> output_ref option" where
  "io_ref (ScriptIO i _) = Some (si_reference i)"
| "io_ref (OperatorIO (Some f) _) = Some (reference f)"
| "io_ref (OperatorIO None _) = None"

definition io_key :: "bool \<Rightarrow> output_ref set \<Rightarrow> 'a io \<Rightarrow> nat \<times> output_ref" where
  "io_key forced refs io = (io_rank forced refs io, case io_ref io of Some r \<Rightarrow> r | None \<Rightarrow> ([], 0))"

text \<open>
  The sorted inputs and outputs, the canonical index of each input (of the last one, where a reference
  occurs twice), and the batch redeemer's intentions.
\<close>

definition input_index :: "'a io list \<Rightarrow> output_ref \<Rightarrow> (unit, usize) res" where
  "input_index ios r =
    (let refs = sort (List.map_filter io_ref ios) in
     unwrap (find (\<lambda>i. refs ! i = r) (rev [0..<length refs])))"

definition ordered_intentions ::
  "'a io list \<Rightarrow> (output_ref \<times> aleph_authorized_intention) list \<Rightarrow> (unit, aleph_authorized_intention list) res" where
  "ordered_intentions ios is =
    and_then (traverse (\<lambda>(r, i). and_then (input_index ios r) (\<lambda>k. Ok (k, i))) is) (\<lambda>ks.
      Ok (map snd (sort_key fst ks)))"

definition project_io ::
  "('a \<Rightarrow> val \<Rightarrow> 'a tx_out) \<Rightarrow> 'a \<Rightarrow> 'a tx_out finalized_tx_out \<Rightarrow> u64 \<Rightarrow> 'a execution_state \<Rightarrow>
   (unit, 'a io list \<times> ('a tx_out finalized_tx_out, 'a tx_out) funding_io \<times> aleph_authorized_intention list) res" where
  "project_io new_out operator_address funding reserve s =
    (let b = tx_blueprint_of s;
         forced = (aleph_batch_witness b \<noteq> None);
         (ops, fio) = project_funding new_out forced operator_address funding (operator_interest s) reserve;
         ios = sort_key (io_key forced (account_script_refs b)) (map (\<lambda>(i, out). ScriptIO i out) (script_io b) @ ops)
     in case aleph_batch_witness b of
          None \<Rightarrow> Ok (ios, fio, [])
        | Some (_, is) \<Rightarrow> and_then (ordered_intentions ios is) (\<lambda>auths. Ok (ios, fio, auths)))"

end
