(* ===== verification/Entity_Events.thy ===== *)
theory Entity_Events
  imports Account_Index
begin

text \<open>
  Entity transitions and the channels they arrive on (\<open>spectrum-offchain/src/domain/event.rs\<close>,
  \<open>data/ior.rs\<close>), partitions (\<open>partitioning.rs\<close>) and the entity of the agent
  (\<open>green-order-cardano-agent/src/entity.rs\<close>).
\<close>

datatype ('a, 'b) ior = IorLeft 'a | IorRight 'b | IorBoth 'a 'b

fun ior_swap :: "('a, 'b) ior \<Rightarrow> ('b, 'a) ior" where
  "ior_swap (IorLeft a) = IorRight a"
| "ior_swap (IorRight b) = IorLeft b"
| "ior_swap (IorBoth a b) = IorBoth b a"

fun ior_try_from :: "'a option \<times> 'b option \<Rightarrow> ('a, 'b) ior option" where
  "ior_try_from (Some l, Some r) = Some (IorBoth l r)"
| "ior_try_from (Some l, None) = Some (IorLeft l)"
| "ior_try_from (None, Some r) = Some (IorRight r)"
| "ior_try_from (None, None) = None"

datatype 'a transition = Forward "('a, 'a) ior" | Backward "('a, 'a) ior"

fun is_rollback :: "'a transition \<Rightarrow> bool" where
  "is_rollback (Backward _) = True"
| "is_rollback (Forward _) = False"

text \<open>The wrappers \<open>Confirmed\<close>, \<open>Unconfirmed\<close> and \<open>Predicted\<close> carry their content only.\<close>

datatype ('a, 'cx) chan = Ledger 'a 'cx | Mempool 'a | LocalTxSubmit 'a

fun chan_erased :: "('a, 'cx) chan \<Rightarrow> 'a" where
  "chan_erased (Ledger t _) = t"
| "chan_erased (Mempool t) = t"
| "chan_erased (LocalTxSubmit t) = t"

text \<open>\<open>Partitioned::get_mut\<close>: the partition of a key; \<open>h\<close> is the hash of the key.\<close>

definition partition_of :: "nat \<Rightarrow> ('k \<Rightarrow> u64) \<Rightarrow> 'k \<Rightarrow> usize" where
  "partition_of N h key = unat (h key mod of_nat N)"

text \<open>
  \<open>EvolvingCardanoEntity\<close>: an order or a pool with its version, and its output.  Pools are the type
  variable \<open>'p\<close>.
\<close>

type_synonym ('o, 'p) entity = "(green_order \<times> output_ref + 'p \<times> output_ref) \<times> 'o finalized_tx_out"

fun entity_version :: "('o, 'p) entity \<Rightarrow> output_ref" where
  "entity_version (Inl (_, v), _) = v"
| "entity_version (Inr (_, v), _) = v"

definition go_pair_id :: "green_order \<Rightarrow> pair_id" where
  "go_pair_id ord = canonical (input_asset (intention ord)) (output_asset (intention ord))"

end
