(* ===== verification/Intent_Source.thy ===== *)
theory Intent_Source
  imports Entity_Events
begin

text \<open>
  Intents of clients: the wire form and its parser, admission
  (\<open>green-order-cardano-agent/src/intent_source.rs\<close>), the HTTP handlers
  (\<open>http_intent_source.rs\<close>) and one round of the continuation scanner (\<open>continuation_scanner.rs\<close>).

  Parameters: \<open>hexd\<close> is \<open>hex::decode\<close>, \<open>value_of\<close> reads the value of an output, \<open>h\<close> hashes a pair id, and
  \<open>available\<close> says whether the event channel of a partition takes an event.  JSON decoding and the
  sockets are outside the model.
\<close>

section \<open>Wire format\<close>

record raw_green_intent =
  ri_account_id :: account_id
  ri_original_intent_digest :: bytes
  ri_intention :: green_intention
  ri_auth :: green_auth

datatype wire_green_auth =
    WireSig (wire_prefix: string) (wire_postfix: string) (wire_signature: string) (wire_update_proof: string)
  | WirePath (wire_proof: string)

record wire_green_intent =
  w_account_id :: string
  w_original_intent_digest :: string
  w_input_asset :: asset_class
  w_output_asset :: asset_class
  w_leaving_amount :: u64
  w_expected_arriving_amount :: u64
  w_fee_lovelace :: u64
  w_target_nonce_slot :: u16
  w_target_nonce_value :: u64
  w_operator_key_hash :: string
  w_auth :: wire_green_auth

definition decode_hex :: "(string \<Rightarrow> bytes option) \<Rightarrow> string \<Rightarrow> (unit, bytes) res" where
  "decode_hex hexd s = ok_or (hexd s) ()"

fun wire_auth_try_from :: "(string \<Rightarrow> bytes option) \<Rightarrow> wire_green_auth \<Rightarrow> (unit, green_auth) res" where
  "wire_auth_try_from hexd (WireSig prefix postfix sig upd) =
    and_then (decode_hex hexd prefix) (\<lambda>p.
    and_then (decode_hex hexd postfix) (\<lambda>q.
    and_then (decode_hex hexd sig) (\<lambda>s.
    and_then (decode_hex hexd upd) (\<lambda>u.
      map_err (\<lambda>_. ()) (new_sig p q s u)))))"
| "wire_auth_try_from hexd (WirePath pf) = and_then (decode_hex hexd pf) (\<lambda>p. Ok (Path p))"

definition parse_wire_intent ::
  "(string \<Rightarrow> bytes option) \<Rightarrow> wire_green_intent \<Rightarrow> (unit, raw_green_intent) res" where
  "parse_wire_intent hexd w =
    and_then (decode_hex hexd (w_account_id w)) (\<lambda>account_id_bytes.
    and_then (map_err (\<lambda>_. ()) (account_id_try_from_slice account_id_bytes)) (\<lambda>acc.
    and_then (decode_hex hexd (w_original_intent_digest w)) (\<lambda>d.
    and_then (ok_or (fixed 32 d) ()) (\<lambda>intent_digest.
    and_then (decode_hex hexd (w_operator_key_hash w)) (\<lambda>k.
    and_then (map_err (\<lambda>_. ()) (try_operator_key_hash k)) (\<lambda>operator_key.
    and_then (wire_auth_try_from hexd (w_auth w)) (\<lambda>auth.
      Ok \<lparr> ri_account_id = acc, ri_original_intent_digest = intent_digest,
           ri_intention = \<lparr> input_asset = w_input_asset w, output_asset = w_output_asset w,
             gi_leaving_amount = w_leaving_amount w,
             gi_expected_arriving_amount = w_expected_arriving_amount w,
             gi_fee_lovelace = w_fee_lovelace w, target_nonce_slot = w_target_nonce_slot w,
             gi_target_nonce_value = w_target_nonce_value w, operator_key_hash = operator_key \<rparr>,
           ri_auth = auth \<rparr>)))))))"


section \<open>Admission\<close>

record green_orders_config =
  allow_partial :: bool
  auto_submit_continuations :: bool

datatype admission_error =
    PartialNotAllowed
  | AdmMissingAccount
  | AccountParseFailed
  | StaleNonce
  | AdmNonAdaLeavingAsset
  | InsufficientAccountBalance

fun is_path :: "green_auth \<Rightarrow> bool" where
  "is_path (Path _) = True"
| "is_path _ = False"

definition admitted_order :: "raw_green_intent \<Rightarrow> green_order" where
  "admitted_order raw = (let i = ri_intention raw in
    \<lparr> go_id = \<lparr> goi_account_id = ri_account_id raw, goi_target_nonce_slot = target_nonce_slot i,
        goi_target_nonce_value = gi_target_nonce_value i,
        original_intent_digest = ri_original_intent_digest raw \<rparr>,
      go_account_id = ri_account_id raw,
      intention = i,
      accumulated_output = 0,
      current_remainder = gi_leaving_amount i,
      go_auth = ri_auth raw \<rparr>)"

definition admit_green_intent ::
  "('o \<Rightarrow> val) \<Rightarrow> 'o account_ctx \<Rightarrow> green_orders_config \<Rightarrow> 'o account_index \<Rightarrow> raw_green_intent \<Rightarrow>
   (admission_error, green_order \<times> 'o finalized_tx_out) res" where
  "admit_green_intent value_of ctx config ix raw = (let i = ri_intention raw in
    if is_path (ri_auth raw) \<and> \<not> allow_partial config then Err PartialNotAllowed
    else if input_asset i \<noteq> Native then Err AdmNonAdaLeavingAsset
    else
      and_then (ok_or (current ix (ri_account_id raw)) AdmMissingAccount) (\<lambda>account_bearer.
      and_then (ok_or (try_parse ctx (reference account_bearer) (fst account_bearer)) AccountParseFailed) (\<lambda>account.
        let ns = nonce (au_state account); slot = unat (target_nonce_slot i) in
        if \<not> slot < length ns then Err StaleNonce
        else if ns ! slot > sint (gi_target_nonce_value i) then Err StaleNonce
        else
          and_then (ok_or (checked_add (gi_leaving_amount i) (gi_fee_lovelace i)) InsufficientAccountBalance)
            (\<lambda>required_lovelace.
            let available_lovelace = (case amount_of (value_of (au_output account)) Native of Some v \<Rightarrow> v | None \<Rightarrow> 0) in
            if available_lovelace < required_lovelace then Err InsufficientAccountBalance
            else Ok (admitted_order raw, (au_output account, au_output_ref account))))))"

type_synonym ('o, 'p, 'cx) green_intent_event = "pair_id \<times> (('o, 'p) entity transition, 'cx) chan"

definition admitted_intent_to_event ::
  "green_order \<times> 'o finalized_tx_out \<Rightarrow> ('o, 'p, 'cx) green_intent_event" where
  "admitted_intent_to_event admitted =
    (go_pair_id (fst admitted),
     LocalTxSubmit (Forward (IorRight (Inl (fst admitted, reference (snd admitted)), snd admitted))))"


section \<open>HTTP handlers\<close>

datatype status_code =
  OK | ACCEPTED | BAD_REQUEST | NOT_FOUND | CONFLICT | UNPROCESSABLE_ENTITY | SERVICE_UNAVAILABLE

record response =
  code :: status_code
  status :: string
  reason :: "string option"

definition rejected :: "status_code \<Rightarrow> string \<Rightarrow> response" where
  "rejected c why = \<lparr> code = c, status = ''rejected'', reason = Some why \<rparr>"

fun status_for_admission_error :: "admission_error \<Rightarrow> status_code" where
  "status_for_admission_error AdmMissingAccount = CONFLICT"
| "status_for_admission_error StaleNonce = CONFLICT"
| "status_for_admission_error AccountParseFailed = CONFLICT"
| "status_for_admission_error PartialNotAllowed = UNPROCESSABLE_ENTITY"
| "status_for_admission_error AdmNonAdaLeavingAsset = UNPROCESSABLE_ENTITY"
| "status_for_admission_error InsufficientAccountBalance = UNPROCESSABLE_ENTITY"

fun reason_for_admission_error :: "admission_error \<Rightarrow> string" where
  "reason_for_admission_error PartialNotAllowed = ''partialNotAllowed''"
| "reason_for_admission_error AdmMissingAccount = ''missingAccount''"
| "reason_for_admission_error AccountParseFailed = ''accountParseFailed''"
| "reason_for_admission_error StaleNonce = ''staleNonce''"
| "reason_for_admission_error AdmNonAdaLeavingAsset = ''nonAdaLeavingAsset''"
| "reason_for_admission_error InsufficientAccountBalance = ''insufficientAccountBalance''"

fun status_for_binding_error :: "account_binding_error \<Rightarrow> status_code" where
  "status_for_binding_error AlreadyBound = CONFLICT"
| "status_for_binding_error OutputAlreadyBound = CONFLICT"
| "status_for_binding_error OutputNotObserved = NOT_FOUND"
| "status_for_binding_error NonEmptyUnplannedRoot = UNPROCESSABLE_ENTITY"

fun reason_for_binding_error :: "account_binding_error \<Rightarrow> string" where
  "reason_for_binding_error AlreadyBound = ''alreadyBound''"
| "reason_for_binding_error OutputAlreadyBound = ''outputAlreadyBound''"
| "reason_for_binding_error OutputNotObserved = ''outputNotObserved''"
| "reason_for_binding_error NonEmptyUnplannedRoot = ''nonEmptyUnplannedRoot''"

text \<open>\<open>POST /intents\<close>: the answer, and the event queued on a partition if there is one.\<close>

definition post_intent ::
  "(string \<Rightarrow> bytes option) \<Rightarrow> ('o \<Rightarrow> val) \<Rightarrow> 'o account_ctx \<Rightarrow> (pair_id \<Rightarrow> u64) \<Rightarrow> (usize \<Rightarrow> bool) \<Rightarrow>
   green_orders_config \<Rightarrow> 'o account_index \<Rightarrow> wire_green_intent \<Rightarrow>
   (unit, response \<times> (usize \<times> ('o, 'p, 'cx) green_intent_event) option) res" where
  "post_intent hexd value_of ctx h available config ix wire =
    (case parse_wire_intent hexd wire of
       Panic \<Rightarrow> Panic
     | Err _ \<Rightarrow> Ok (rejected BAD_REQUEST ''malformedIntent'', None)
     | Ok raw \<Rightarrow>
         (case admit_green_intent value_of ctx config ix raw of
            Panic \<Rightarrow> Panic
          | Err e \<Rightarrow> Ok (rejected (status_for_admission_error e) (reason_for_admission_error e), None)
          | Ok admitted \<Rightarrow>
              let event = admitted_intent_to_event admitted; p = partition_of 4 h (fst event) in
              if \<not> available p then Ok (rejected SERVICE_UNAVAILABLE ''eventChannelUnavailable'', None)
              else Ok (\<lparr> code = ACCEPTED, status = ''accepted'', reason = None \<rparr>, Some (p, event))))"

text \<open>\<open>TransactionHash::from_raw_bytes\<close> accepts exactly 32 bytes.\<close>

definition parse_account_ref ::
  "(string \<Rightarrow> bytes option) \<Rightarrow> string \<Rightarrow> string \<Rightarrow> u64 \<Rightarrow> (unit, account_id \<times> output_ref) res" where
  "parse_account_ref hexd acc tx_hash output_index =
    and_then (decode_hex hexd acc) (\<lambda>bs.
    and_then (map_err (\<lambda>_. ()) (account_id_try_from_slice bs)) (\<lambda>a.
    and_then (decode_hex hexd tx_hash) (\<lambda>t.
    and_then (ok_or (fixed 32 t) ()) (\<lambda>tx. Ok (a, (tx, output_index))))))"

definition post_bind_account ::
  "(string \<Rightarrow> bytes option) \<Rightarrow> 'o account_index \<Rightarrow> string \<Rightarrow> string \<Rightarrow> u64 \<Rightarrow>
   'o account_index \<times> (unit, response) res" where
  "post_bind_account hexd ix acc tx_hash output_index =
    (case parse_account_ref hexd acc tx_hash output_index of
       Panic \<Rightarrow> (ix, Panic)
     | Err _ \<Rightarrow> (ix, Ok (rejected BAD_REQUEST ''malformedBinding''))
     | Ok (a, r) \<Rightarrow>
         (case bind_external_account_id_once ix a r of
            (ix', Ok _) \<Rightarrow> (ix', Ok \<lparr> code = OK, status = ''bound'', reason = None \<rparr>)
          | (ix', Err e) \<Rightarrow> (ix', Ok (rejected (status_for_binding_error e) (reason_for_binding_error e)))
          | (ix', Panic) \<Rightarrow> (ix', Panic)))"

text \<open>\<open>GET /accounts/status\<close>: the flags of the account, or a rejection.\<close>

definition get_account_status_handler ::
  "(string \<Rightarrow> bytes option) \<Rightarrow> 'o account_index \<Rightarrow> string \<Rightarrow> string \<Rightarrow> u64 \<Rightarrow> response + account_status" where
  "get_account_status_handler hexd ix acc tx_hash output_index =
    (case parse_account_ref hexd acc tx_hash output_index of
       Ok (a, r) \<Rightarrow> Inr (get_account_status ix a r)
     | _ \<Rightarrow> Inl (rejected BAD_REQUEST ''malformedStatusQuery''))"


section \<open>The TCP source and the continuation scanner\<close>

text \<open>One line of a TCP connection, after JSON decoding: the event to send, or nothing.\<close>

definition tcp_line ::
  "(string \<Rightarrow> bytes option) \<Rightarrow> ('o \<Rightarrow> val) \<Rightarrow> 'o account_ctx \<Rightarrow> (pair_id \<Rightarrow> u64) \<Rightarrow> green_orders_config \<Rightarrow>
   'o account_index \<Rightarrow> wire_green_intent option \<Rightarrow> (usize \<times> ('o, 'p, 'cx) green_intent_event) option" where
  "tcp_line hexd value_of ctx h config ix line =
    (case line of
       None \<Rightarrow> None
     | Some wire \<Rightarrow>
         (case parse_wire_intent hexd wire of
            Ok raw \<Rightarrow>
              (case admit_green_intent value_of ctx config ix raw of
                 Ok admitted \<Rightarrow>
                   let event = admitted_intent_to_event admitted in Some (partition_of 4 h (fst event), event)
               | _ \<Rightarrow> None)
          | _ \<Rightarrow> None))"

text \<open>One tick of \<open>run_continuation_scanner\<close>: an event for every pending continuation.\<close>

definition scan_continuations ::
  "(bytes \<Rightarrow> bytes) \<Rightarrow> (plutus_data \<Rightarrow> bytes) \<Rightarrow> (pair_id \<Rightarrow> u64) \<Rightarrow> 'o account_index \<Rightarrow>
   (usize \<times> ('o, 'p, 'cx) green_intent_event) list" where
  "scan_continuations H cbor h ix =
    map (\<lambda>c. let event = admitted_intent_to_event c in (partition_of 4 h (fst event), event))
      (pending_continuations H cbor ix)"

end
