(* ===== verification/Green_Exec_Correct.thy ===== *)
theory Green_Exec_Correct
  imports Green_Exec Account_Index_Correct Intent_Source
begin

text \<open>
  Correctness of the execution of Green orders.  The contract \<open>taker_laws\<close> of the book with a taker and
  its interpretation for Green orders give the accounting of a fill; then complete fills, partial
  fills from the execution to the continuation offered after confirmation, histories of partial fills, and
  orders whose execution panics.
\<close>

section \<open>The accounting of a taker\<close>

locale taker_laws =
  fixes T :: "'t taker"
  assumes trade_input: "removed \<le> t_input T s \<Longrightarrow>
      res_input T (t_with_applied_trade T s removed added) = t_input T s - removed"
    and trade_output: "unat (t_output T s) + unat added < 2 ^ 64 \<Longrightarrow>
      res_output T (t_with_applied_trade T s removed added) = t_output T s + added"
begin

lemma trade_accounting:
  assumes "removed \<le> t_input T s" "unat (t_output T s) + unat added < 2 ^ 64"
  shows "tip_removed_input T \<lparr> target = s, result = t_with_applied_trade T s removed added \<rparr> = Ok removed"
    and "tip_added_output T \<lparr> target = s, result = t_with_applied_trade T s removed added \<rparr> = Ok added"
proof -
  have "checked_sub (t_input T s) (t_input T s - removed) = Some removed"
    using assms(1) by (simp add: checked_sub_eq_Some unat_sub word_le_nat_alt)
  then show "tip_removed_input T \<lparr> target = s, result = t_with_applied_trade T s removed added \<rparr> = Ok removed"
    using trade_input [OF assms(1)] by (simp add: tip_removed_input_def)
  have "checked_sub (t_output T s + added) (t_output T s) = Some added"
    using assms(2) by (simp add: checked_sub_eq_Some unat_add_small)
  then show "tip_added_output T \<lparr> target = s, result = t_with_applied_trade T s removed added \<rparr> = Ok added"
    using trade_output [OF assms(2)] by (simp add: tip_added_output_def)
qed

end

lemma green_taker_sel [simp]:
  "t_input green_taker = current_remainder" "t_output green_taker = accumulated_output"
  "t_operator_fee green_taker = go_operator_fee" "t_fee green_taker ord = gi_fee_lovelace (intention ord)"
  "t_budget green_taker ord = 0" "t_consumable_budget green_taker ord = gi_fee_lovelace (intention ord)"
  "t_with_applied_trade green_taker = go_with_applied_trade" "t_with_budget_corrected green_taker ord d = (0, ord)"
  "t_with_fee_charged green_taker ord n = ord"
  "t_with_output_added green_taker ord n = ord\<lparr> accumulated_output := saturating_add (accumulated_output ord) n \<rparr>"
  "t_try_terminate green_taker = go_try_terminate"
  by (simp_all add: green_taker_def)

lemma saturating_add_small: "unat a + unat b < 2 ^ LENGTH('a) \<Longrightarrow> saturating_add (a :: 'a::len word) b = a + b"
  by (simp add: saturating_add_def)

lemma res_try_terminate [simp]:
  "res_input green_taker (go_try_terminate ord) = current_remainder ord"
  "res_output green_taker (go_try_terminate ord) = accumulated_output ord"
  "res_fee green_taker (go_try_terminate ord) = gi_fee_lovelace (intention ord)"
  by (simp_all add: go_try_terminate_def)

interpretation green_takes: taker_laws green_taker
  by unfold_locales (simp_all add: go_with_applied_trade_def saturating_sub_def saturating_add_small)

lemma saturating_mul_le: "unat (saturating_mul a (b :: 'a::len word)) \<le> unat a * unat b"
proof (cases "unat a * unat b < 2 ^ LENGTH('a)")
  case True
  then show ?thesis by (simp add: saturating_mul_def unat_mul_small)
next
  case False
  then have "unat (- 1 :: 'a word) \<le> unat a * unat b"
    by (metis less_imp_le less_le_trans not_less unsigned_less)
  with False show ?thesis by (simp add: saturating_mul_def)
qed

lemma operator_fee_le:
  assumes "removed \<le> gi_leaving_amount (intention ord)"
  shows "go_operator_fee ord removed \<le> gi_fee_lovelace (intention ord)"
proof (cases "gi_leaving_amount (intention ord) = 0")
  case True
  then show ?thesis by (simp add: go_operator_fee_def checked_div_def)
next
  case False
  let ?L = "gi_leaving_amount (intention ord)" and ?F = "gi_fee_lovelace (intention ord)"
  have "unat (go_operator_fee ord removed) = unat (saturating_mul ?F removed) div unat ?L"
    using False by (simp add: go_operator_fee_def checked_div_def unat_div_distrib)
  also have "\<dots> \<le> (unat ?F * unat ?L) div unat ?L"
    using saturating_mul_le [of ?F removed] assms
    by (intro div_le_mono) (meson le_trans mult_le_mono2 word_le_nat_alt)
  also have "\<dots> = unat ?F" using False by (simp add: unat_eq_zero)
  finally show ?thesis by (simp add: word_le_nat_alt)
qed

lemma operator_fee_full:
  assumes "unat (gi_fee_lovelace (intention ord)) * unat (gi_leaving_amount (intention ord)) < 2 ^ 64"
    and "gi_leaving_amount (intention ord) \<noteq> 0"
  shows "go_operator_fee ord (gi_leaving_amount (intention ord)) = gi_fee_lovelace (intention ord)"
proof -
  have "unat (gi_leaving_amount (intention ord)) \<noteq> 0" using assms(2) by (simp add: unat_eq_zero)
  then have "unat (go_operator_fee ord (gi_leaving_amount (intention ord))) = unat (gi_fee_lovelace (intention ord))"
    using assms by (simp add: go_operator_fee_def checked_div_def saturating_mul_def unat_div_distrib unat_mul_small)
  then show ?thesis by (simp only: word_unat_eq_iff)
qed

text \<open>The transition the book builds for a Green order: a trade, then the finalisation with the excess output.\<close>

definition green_take :: "green_order \<Rightarrow> u64 \<Rightarrow> u64 \<Rightarrow> u64 \<Rightarrow> (unit, green_order take_in_progress) res" where
  "green_take ord removed added excess =
    finalized green_taker \<lparr> target = ord, result = go_with_applied_trade ord removed added \<rparr> excess"

lemma wrap_i64_id: "- (2 ^ 63) \<le> n \<Longrightarrow> n < 2 ^ 63 \<Longrightarrow> wrap_i64 n = n"
  by (simp add: wrap_i64_def signed_take_bit_int_eq_self_iff sint_sbintrunc')

lemma wrap_i64_neg: "n < 2 ^ 63 \<Longrightarrow> wrap_i64 (- int n) = - int n"
  by (intro wrap_i64_id) simp_all

lemma signed_take_bit_nat: "n < 2 ^ 63 \<Longrightarrow> signed_take_bit 63 (int n) = int n"
  by (intro signed_take_bit_int_eq_self) simp_all

lemma sint_u64_small: "unat (w :: u64) < 2 ^ 63 \<Longrightarrow> sint w = int (unat w)"
  using signed_take_bit_nat [of "unat w"] by (subst sint_uint) simp

lemma no_budget_to_correct:
  assumes "remaining_budget t = 0" "unat (f :: u64) < 2 ^ 63"
  shows "snd (tt_with_budget_corrected t (wrap_i64 (- sint f))) = t"
proof -
  have "wrap_i64 (- sint f) = - int (unat f)"
    unfolding sint_u64_small [OF assms(2)] by (rule wrap_i64_neg) fact
  then have "wrap_i64 (sint (remaining_budget t) + wrap_i64 (- sint f)) = - int (unat f)"
    using assms wrap_i64_neg [of "unat f"] by simp
  then show ?thesis using assms(1) by (simp add: tt_with_budget_corrected_def)
qed

lemma green_take_value:
  assumes "removed \<le> current_remainder ord"
    and "unat (accumulated_output ord) + unat added + unat excess < 2 ^ 64"
    and "unat (gi_fee_lovelace (intention ord)) < 2 ^ 63"
  shows "green_take ord removed added excess = Ok \<lparr> target = ord,
    result = (if removed = current_remainder ord
      then Term \<lparr> remaining_input = 0, tt_accumulated_output = accumulated_output ord + added + excess,
        remaining_budget = 0, remaining_fee = gi_fee_lovelace (intention ord) - go_operator_fee ord removed \<rparr>
      else Succ (ord\<lparr> current_remainder := current_remainder ord - removed,
        accumulated_output := accumulated_output ord + added + excess \<rparr>)) \<rparr>"
proof -
  have "saturating_sub (current_remainder ord) removed = current_remainder ord - removed"
    using assms(1) by (simp add: saturating_sub_def)
  moreover have sat: "saturating_add (accumulated_output ord) added = accumulated_output ord + added"
    "saturating_add (accumulated_output ord + added) excess = accumulated_output ord + added + excess"
    using assms(2) by (simp_all add: saturating_add_small unat_add_small)
  ultimately have g: "go_with_applied_trade ord removed added =
      go_try_terminate (ord\<lparr> current_remainder := current_remainder ord - removed,
        accumulated_output := accumulated_output ord + added \<rparr>)"
    by (simp add: go_with_applied_trade_def)
  have "tip_removed_input green_taker \<lparr> target = ord, result = go_with_applied_trade ord removed added \<rparr> = Ok removed"
    using green_takes.trade_accounting(1) [of removed ord added] assms by simp
  then have "green_take ord removed added excess = Ok \<lparr> target = ord, result =
      (case go_with_applied_trade ord removed added of
         Succ s \<Rightarrow> go_try_terminate (s\<lparr> accumulated_output := saturating_add (accumulated_output s) excess \<rparr>)
       | Term t \<Rightarrow> Term (snd (tt_with_budget_corrected (tt_with_fee_charged (tt_with_output_added t excess)
           (go_operator_fee ord removed)) (wrap_i64 (- sint (gi_fee_lovelace (intention ord)))))))  \<rparr>"
    by (simp add: green_take_def finalized_def cong: nxt.case_cong)
  moreover have "go_with_applied_trade ord removed added = (if removed = current_remainder ord
      then Term \<lparr> remaining_input = 0, tt_accumulated_output = accumulated_output ord + added,
        remaining_budget = 0, remaining_fee = gi_fee_lovelace (intention ord) \<rparr>
      else Succ (ord\<lparr> current_remainder := current_remainder ord - removed,
        accumulated_output := accumulated_output ord + added \<rparr>))"
    unfolding g by (cases "removed = current_remainder ord") (simp_all add: go_try_terminate_def)
  ultimately show ?thesis
    using no_budget_to_correct [OF _ assms(3)] sat(2)
    by (cases "removed = current_remainder ord")
      (simp_all add: tt_with_fee_charged_def tt_with_output_added_def go_try_terminate_def)
qed

lemma checked_sub_simps [simp]: "checked_sub a a = Some 0" "checked_sub a 0 = Some a"
  by (simp_all add: checked_sub_def)

text \<open>
  The accounting of a fill of a Green order: the finalised take removes exactly the traded input and adds
  the traded output and the excess.  The fee charged never exceeds the declared fee; a complete fill
  of the intention charges the declared fee as long as the product of fee and amount fits in 64
  bits, and a fill that leaves a remainder charges nothing.
\<close>

lemma green_take_accounting:
  assumes "removed \<le> current_remainder ord" "current_remainder ord \<le> gi_leaving_amount (intention ord)"
    and "unat (accumulated_output ord) + unat added + unat excess < 2 ^ 64"
    and "unat (gi_fee_lovelace (intention ord)) < 2 ^ 63"
  shows "\<exists>tip. green_take ord removed added excess = Ok tip \<and>
    removed_input green_taker (bundle_take tip b) = Ok removed \<and>
    added_output green_taker (bundle_take tip b) = Ok (added + excess) \<and>
    consumed_budget green_taker (bundle_take tip b) = Ok 0 \<and>
    leaving_remainder_of (result tip) = current_remainder ord - removed \<and>
    (\<exists>fee. consumed_fee green_taker (bundle_take tip b) = Ok fee \<and>
      fee \<le> gi_fee_lovelace (intention ord) \<and>
      (removed \<noteq> current_remainder ord \<longrightarrow> fee = 0) \<and>
      (removed = current_remainder ord \<longrightarrow> fee = go_operator_fee ord removed) \<and>
      (removed = gi_leaving_amount (intention ord) \<and> removed \<noteq> 0 \<and>
       unat (gi_fee_lovelace (intention ord)) * unat removed < 2 ^ 64 \<longrightarrow> fee = gi_fee_lovelace (intention ord)))"
proof -
  have "unat (added + excess) = unat added + unat excess"
    using assms(3) by (simp add: unat_add_small)
  then have out: "checked_sub (accumulated_output ord + added + excess) (accumulated_output ord) = Some (added + excess)"
    using assms(3) by (simp add: checked_sub_eq_Some unat_add_small)
  have le: "removed \<le> gi_leaving_amount (intention ord)" using assms(1,2) by (rule order_trans)
  have sub: "checked_sub a (a - c) = Some c" if "c \<le> a" for a c :: u64
    using that by (simp add: checked_sub_eq_Some unat_sub word_le_nat_alt)
  note v = green_take_value [OF assms(1,3,4)]
  show ?thesis
  proof (cases "removed = current_remainder ord")
    case True
    then have "removed = gi_leaving_amount (intention ord) \<Longrightarrow> removed \<noteq> 0 \<Longrightarrow>
       unat (gi_fee_lovelace (intention ord)) * unat removed < 2 ^ 64 \<Longrightarrow>
       go_operator_fee ord removed = gi_fee_lovelace (intention ord)"
      using operator_fee_full [of ord] by simp
    with True show ?thesis
      using v out sub [of removed removed] sub [OF operator_fee_le [OF le]] operator_fee_le [OF le]
      by (auto simp: bundle_take_def removed_input_def added_output_def consumed_budget_def consumed_fee_def
          leaving_remainder_of_def)
  next
    case False
    then have "removed \<noteq> gi_leaving_amount (intention ord)" using assms(1,2) by auto
    with False show ?thesis
      using v out sub [OF assms(1)]
      by (simp add: bundle_take_def removed_input_def added_output_def consumed_budget_def consumed_fee_def
          leaving_remainder_of_def)
  qed
qed

section \<open>Executed accounts\<close>

lemma try_parse_tx:
  "try_parse (tx_ctx pc ai h) r out = Some a \<longleftrightarrow>
   test_address (pc (address out)) h \<and> au_output_ref a = r \<and> au_output a = out \<and>
   (\<exists>d. txo_into_datum out = Some (Datum d) \<and> account_state_try_from_pd ai d = Some (au_state a))"
proof -
  have "datum_into_pd x = Some d \<longleftrightarrow> x = Datum d" for x d by (cases x) auto
  then show ?thesis
    by (cases a) (auto simp: try_parse_def tx_ctx_def Option.bind_eq_Some_conv)
qed

lemma reparse_output:
  assumes "as_int_exact ai" "try_parse (tx_ctx pc ai h) r out = Some a" "state_ok st"
  obtains pd out' where "(account_state_into_pd st :: (unit, plutus_data) res) = Ok pd"
    "set_data pd (update_value v out) = Some out'" "value_of out' = v" "address out' = address out"
    "\<And>r'. try_parse (tx_ctx pc ai h) r' out' = Some \<lparr> au_output_ref = r', au_output = out', au_state = st \<rparr>"
proof -
  obtain pd where pd: "(account_state_into_pd st :: (unit, plutus_data) res) = Ok pd"
    "account_state_try_from_pd ai pd = Some st"
    using account_state_print_parse [OF assms(1,3)] by blast
  from assms(2) obtain d where "txo_into_datum (update_value v out) = Some (Datum d)" "test_address (pc (address out)) h"
    by (auto simp: try_parse_tx)
  then obtain out' where "set_data pd (update_value v out) = Some out'"
    using set_data_inline by blast
  moreover from set_data_Some [OF this] \<open>test_address _ _\<close> pd(2)
  have "value_of out' = v" "address out' = address out"
    "\<And>r'. try_parse (tx_ctx pc ai h) r' out' = Some \<lparr> au_output_ref = r', au_output = out', au_state = st \<rparr>"
    by (simp_all add: try_parse_tx)
  ultimately show thesis using that pd(1) by blast
qed

lemma i64_ok_sint: "i64_ok (sint (w :: u64))"
  using sint_lt [of w] sint_ge [of w] by (simp add: i64_ok_def i64_max_def)

lemma state_ok_parsed:
  "as_int_exact ai \<Longrightarrow> try_parse (tx_ctx pc ai h) r out = Some a \<Longrightarrow> state_ok (au_state a)"
  using account_state_parse_print by (auto simp: try_parse_tx)

lemma state_ok_nonce:
  assumes "state_ok s" "with_sig_full_fill_nonce s ix v = Some s'"
  shows "state_ok s'"
proof (cases "st_abi s = Legacy")
  case True
  with assms(2) obtain n ns where "nonce s = n # ns" "n + 1 \<le> i64_max" "s' = s\<lparr> nonce := (n + 1) # ns \<rparr>"
    by (auto simp: with_sig_full_fill_nonce_def checked_add_i64_def split: if_splits list.splits option.splits)
  with assms(1) True show ?thesis by (auto simp: state_ok_def i64_ok_def)
next
  case False
  with assms(2) have "s' = s\<lparr> nonce := (nonce s)[unat ix := sint v] \<rparr>"
    by (auto simp: with_sig_full_fill_nonce_def split: if_splits)
  with assms(1) show ?thesis
    using i64_ok_sint set_update_subset_insert [of "nonce s" "unat ix" "sint v"]
    by (auto simp: state_ok_def split: aleph_account_abi.splits)
qed


lemma delegate_index_listed:
  assumes "w \<in> set al"
  obtains i where "i < length al" "al ! i = w" "aleph_delegate_index_for_witness al w = Ok (of_nat i)"
proof (cases "find (\<lambda>i. al ! i = w) [0..<length al]")
  case None
  with assms show thesis by (auto simp: find_None_iff in_set_conv_nth)
next
  case (Some i)
  then have "i < length al" "al ! i = w" by (auto simp: find_Some_iff)
  with Some that show thesis by (simp add: aleph_delegate_index_for_witness_def)
qed

text \<open>Who may execute: the batch witness is on the allowlist of a current account.\<close>

definition witness_allowed :: "'a exec_env \<Rightarrow> aleph_account_state \<Rightarrow> bool" where
  "witness_allowed env st \<longleftrightarrow> st_abi st = Current \<longrightarrow> v_hash (batch_witness env) \<in> set (allowlist st)"

text \<open>The blueprint has no batch witness yet, or the one of this environment.\<close>

definition same_witness :: "'a exec_env \<Rightarrow> 'a execution_state \<Rightarrow> bool" where
  "same_witness env s \<longleftrightarrow> (case aleph_batch_witness (tx_blueprint_of s) of
     None \<Rightarrow> True | Some (w, _) \<Rightarrow> v_hash w = v_hash (batch_witness env))"

definition batch_intentions :: "'a execution_state \<Rightarrow> (output_ref \<times> aleph_authorized_intention) list" where
  "batch_intentions s = (case aleph_batch_witness (tx_blueprint_of s) of None \<Rightarrow> [] | Some (_, is) \<Rightarrow> is)"

lemma exec_blueprint_ok:
  assumes "same_witness env s"
  obtains s' where "exec_blueprint env s account out di budget fee authorized = Ok s'"
    "script_io (tx_blueprint_of s') = script_io (tx_blueprint_of s) @ [(exec_account_input env account di, out)]"
    "account_script_refs (tx_blueprint_of s') = insert (au_output_ref account) (account_script_refs (tx_blueprint_of s))"
    "batch_intentions s' = batch_intentions s @ [(au_output_ref account, authorized)]"
    "same_witness env s'"
    "operator_interest s' = operator_interest s + fee" "reserved_tx_fee s' = reserved_tx_fee s + budget"
  using assms that
  by (auto simp: exec_blueprint_def add_aleph_batch_intention_def add_ref_input_def add_account_io_def
      same_witness_def batch_intentions_def exec_account_input_def Let_def split: option.splits)

lemma exec_account_ok:
  assumes ai: "as_int_exact ai" and parse: "try_parse (tx_ctx pc ai h) r out = Some account"
    and next_state: "exec_next_state ord (au_state account) = Ok st'" "state_ok (st'\<lparr> store_root := root \<rparr>)"
    and w: "witness_allowed env (au_state account)" "same_witness env s"
    and plan: "exec_plan H cbor ix ord r ((go_aleph_intention ord)\<lparr> abi := st_abi (au_state account) \<rparr>)
      (store_root st') removed added rem_in = (ix', Ok (root, auth))"
    and fill: "apply_full_fill_to_account_output vsub vadd (value_of out) ord removed added fee = Ok v"
  obtains s' inp out' where
    "exec_account H cbor vsub vadd env ix s ord account removed added budget fee rem_in =
      (ix', Ok (s', Eliminated (ord, (out, r))))"
    "script_io (tx_blueprint_of s') = script_io (tx_blueprint_of s) @ [(inp, out')]"
    "si_reference inp = r" "required_signers inp = [operator_hash env]"
    "batch_intentions s' = batch_intentions s @ [(r,
       \<lparr> intent = (go_aleph_intention ord)\<lparr> abi := st_abi (au_state account) \<rparr>, remainder = rem_in, aai_auth = auth \<rparr>)]"
    "operator_interest s' = operator_interest s + fee" "value_of out' = v" "address out' = address out"
    "\<And>r'. try_parse (tx_ctx pc ai h) r' out' =
       Some \<lparr> au_output_ref = r', au_output = out', au_state = st'\<lparr> store_root := root \<rparr> \<rparr>"
proof -
  let ?i = "(go_aleph_intention ord)\<lparr> abi := st_abi (au_state account) \<rparr>"
  have acc: "au_output account = out" "au_output_ref account = r" using parse by (auto simp: try_parse_tx)
  obtain pd out' where o: "(account_state_into_pd (st'\<lparr> store_root := root \<rparr>) :: (unit, plutus_data) res) = Ok pd"
    "set_data pd (update_value v out) = Some out'" "value_of out' = v" "address out' = address out"
    "\<And>r'. try_parse (tx_ctx pc ai h) r' out' =
       Some \<lparr> au_output_ref = r', au_output = out', au_state = st'\<lparr> store_root := root \<rparr> \<rparr>"
    using reparse_output [OF ai parse next_state(2), where v = v] by blast
  obtain di where di: "(if st_abi (au_state account) = Current
      then aleph_delegate_index_for_witness (allowlist (au_state account)) (v_hash (batch_witness env))
      else Ok 0) = Ok di"
    using w(1) delegate_index_listed by (metis witness_allowed_def)
  obtain s' where s': "exec_blueprint env s account out' di budget fee
      \<lparr> intent = ?i, remainder = rem_in, aai_auth = auth \<rparr> = Ok s'"
    "script_io (tx_blueprint_of s') = script_io (tx_blueprint_of s) @ [(exec_account_input env account di, out')]"
    "batch_intentions s' = batch_intentions s @ [(r, \<lparr> intent = ?i, remainder = rem_in, aai_auth = auth \<rparr>)]"
    "operator_interest s' = operator_interest s + fee"
    using exec_blueprint_ok [OF w(2), of account out' di budget fee] acc by metis
  have "exec_output vsub vadd out ord removed added fee (st'\<lparr> store_root := root \<rparr>) = Ok out'"
    using fill o(1,2) by (simp add: exec_output_def)
  then have "exec_account H cbor vsub vadd env ix s ord account removed added budget fee rem_in =
      (ix', Ok (s', Eliminated (ord, (out, r))))"
    using next_state(1) di plan s'(1) by (simp add: exec_account_def acc Let_def)
  moreover have "si_reference (exec_account_input env account di) = r"
    "required_signers (exec_account_input env account di) = [operator_hash env]"
    by (simp_all add: exec_account_input_def Let_def acc)
  ultimately show thesis using that s'(2-4) o(3-5) by blast
qed

lemma exec_green_account:
  assumes "removed_input green_taker tr = Ok removed" "added_output green_taker tr = Ok added"
    and "consumed_budget green_taker tr = Ok budget" "consumed_fee green_taker tr = Ok fee"
    and "leaving_remainder_of (result tr) = rem_in" "fst (target tr) = ord"
    and "exec_checks env ord budget removed added rem_in"
    and "current_or_pending_base ix (go_account_id ord) = Some (out, r)"
    and "try_parse (account_ctx_of env) r out = Some account"
  shows "exec_green H cbor vsub vadd env ix s tr =
    exec_account H cbor vsub vadd env ix s ord account removed added budget fee rem_in"
  using assms by (simp add: exec_green_def reference_def)


text \<open>What a fill does to the value of an account output.\<close>

definition settles :: "green_order \<Rightarrow> nat \<Rightarrow> nat \<Rightarrow> nat \<Rightarrow> val \<Rightarrow> val \<Rightarrow> bool" where
  "settles ord removed added fee v v' \<longleftrightarrow> (\<forall>a. ac_ok a \<longrightarrow>
    amt v' a + (if a = Native then removed + fee else 0) =
    amt v a + (if a = output_asset (intention ord) then added else 0))"

text \<open>An order that has not been touched, whose amounts stay in range, and whose output asset is a token.\<close>

definition order_ready :: "green_order \<Rightarrow> bool" where
  "order_ready ord \<longleftrightarrow> (let i = intention ord in
    current_remainder ord = gi_leaving_amount i \<and> accumulated_output ord = 0 \<and> gi_leaving_amount i \<noteq> 0 \<and>
    unat (gi_leaving_amount i) * unat (gi_fee_lovelace i) < 2 ^ 64 \<and>
    unat (gi_leaving_amount i) + unat (gi_fee_lovelace i) < 2 ^ 64 \<and>
    unat (gi_fee_lovelace i) < 2 ^ 63 \<and> input_asset i = Native \<and> output_asset i \<noteq> Native \<and> ac_ok (output_asset i))"

lemma fill_settles:
  assumes "value_laws vsub vadd" "order_ready ord" "unat removed + unat fee < 2 ^ 64" "unat added + unat excess < 2 ^ 64"
    and "apply_full_fill_to_account_output vsub vadd v ord removed (added + excess) fee = Ok v'"
  shows "settles ord (unat removed) (unat added + unat excess) (unat fee) v v'"
  using fill_conserves [OF assms(1,3) _ assms(5)] assms(2,4)
  by (auto simp: settles_def order_ready_def Let_def unat_add_small)

lemma green_exec_account:
  assumes "order_ready ord" "removed \<le> gi_leaving_amount (intention ord)" "unat added + unat excess < 2 ^ 64"
    and "exec_checks env ord 0 removed (added + excess) (gi_leaving_amount (intention ord) - removed)"
    and "current_or_pending_base ix (go_account_id ord) = Some (out, r)"
    and "try_parse (account_ctx_of env) r out = Some account"
    and "fee = (if removed = gi_leaving_amount (intention ord) then gi_fee_lovelace (intention ord) else 0)"
    and "rem_in = gi_leaving_amount (intention ord) - removed"
  shows "\<exists>tip. green_take ord removed added excess = Ok tip \<and>
    exec_green H cbor vsub vadd env ix s (bundle_take tip b) =
      exec_account H cbor vsub vadd env ix s ord account removed (added + excess) 0 fee rem_in"
proof -
  let ?L = "gi_leaving_amount (intention ord)" and ?F = "gi_fee_lovelace (intention ord)"
  note r = assms(1) [unfolded order_ready_def Let_def]
  have pre: "removed \<le> current_remainder ord" "current_remainder ord \<le> ?L"
    "unat (accumulated_output ord) + unat added + unat excess < 2 ^ 64" "unat ?F < 2 ^ 63"
    using r assms(2,3) by simp_all
  obtain tip fee' where tip: "green_take ord removed added excess = Ok tip"
    "removed_input green_taker (bundle_take tip b) = Ok removed"
    "added_output green_taker (bundle_take tip b) = Ok (added + excess)"
    "consumed_budget green_taker (bundle_take tip b) = Ok 0"
    "leaving_remainder_of (result tip) = current_remainder ord - removed"
    "consumed_fee green_taker (bundle_take tip b) = Ok fee'" "removed \<noteq> current_remainder ord \<Longrightarrow> fee' = 0"
    "removed = ?L \<Longrightarrow> removed \<noteq> 0 \<Longrightarrow> unat ?F * unat removed < 2 ^ 64 \<Longrightarrow> fee' = ?F"
    using green_take_accounting [OF pre, of b] by blast
  have fee: "fee' = fee" using tip(7,8) r assms(7) by (auto simp: mult.commute)
  have "target tip = ord"
    using tip(1) green_take_value [OF pre(1,3,4)] by auto
  then have "fst (target (bundle_take tip b)) = ord"
    "leaving_remainder_of (result (bundle_take tip b)) = ?L - removed"
    using tip(5) r by (simp_all add: bundle_take_def)
  from exec_green_account [OF tip(2,3,4) tip(6) [unfolded fee] this(2,1) assms(4-6)] tip(1) assms(8) show ?thesis
    by blast
qed

text \<open>
  A complete fill under a signature is executed.  A ready order for this operator, on an
  account that the index knows and that is parsed, whose nonce accepts the target and which allows the
  batch witness, is turned into one more account input and output.  The output parses to the state with
  the nonce moved; its value has lost the sold amount and the declared fee, has gained the bought amount,
  and is unchanged in every other asset.  The operator earns the declared fee.  The index is unchanged.
\<close>

lemma full_fill_executes:
  assumes "value_laws vsub vadd" "as_int_exact ai" "account_ctx_of env = tx_ctx pc ai h"
    and "current_or_pending_base ix (go_account_id ord) = Some (out, r)"
    and "try_parse (tx_ctx pc ai h) r out = Some account"
    and "order_ready ord" "go_auth ord = Sig prefix postfix signature upd"
    and "operator_key_hash (intention ord) = operator_hash env"
    and "witness_allowed env (au_state account)" "same_witness env s"
    and "with_sig_full_fill_nonce (au_state account) (target_nonce_slot (intention ord))
      (gi_target_nonce_value (intention ord)) = Some st'"
    and "unat added + unat excess < 2 ^ 64" "gi_expected_arriving_amount (intention ord) \<le> added + excess"
    and "apply_full_fill_to_account_output vsub vadd (value_of out) ord (gi_leaving_amount (intention ord))
      (added + excess) (gi_fee_lovelace (intention ord)) = Ok v"
  shows "\<exists>tip s' inp out'. green_take ord (gi_leaving_amount (intention ord)) added excess = Ok tip \<and>
    exec_green H cbor vsub vadd env ix s (bundle_take tip b) = (ix, Ok (s', Eliminated (ord, (out, r)))) \<and>
    script_io (tx_blueprint_of s') = script_io (tx_blueprint_of s) @ [(inp, out')] \<and> si_reference inp = r \<and>
    required_signers inp = [operator_hash env] \<and>
    operator_interest s' = operator_interest s + gi_fee_lovelace (intention ord) \<and>
    settles ord (unat (gi_leaving_amount (intention ord))) (unat added + unat excess)
      (unat (gi_fee_lovelace (intention ord))) (value_of out) (value_of out') \<and>
    try_parse (tx_ctx pc ai h) r' out' = Some \<lparr> au_output_ref = r', au_output = out', au_state = st' \<rparr>"
proof -
  let ?L = "gi_leaving_amount (intention ord)" and ?F = "gi_fee_lovelace (intention ord)"
  note r = assms(6) [unfolded order_ready_def Let_def]
  have parse: "try_parse (account_ctx_of env) r out = Some account" using assms(3,5) by simp
  have "exec_checks env ord 0 ?L (added + excess) (?L - ?L)"
    using r assms(8,13) by (simp add: exec_checks_def)
  then obtain tip where e: "green_take ord ?L added excess = Ok tip"
    "exec_green H cbor vsub vadd env ix s (bundle_take tip b) =
      exec_account H cbor vsub vadd env ix s ord account ?L (added + excess) 0 ?F 0"
    using green_exec_account [OF assms(6) order_refl assms(12) _ assms(4) parse, of ?F 0 H cbor vsub vadd s b] by auto
  have st: "exec_next_state ord (au_state account) = Ok st'"
    using assms(7,11) by (simp add: exec_next_state_def)
  have ok: "state_ok (st'\<lparr> store_root := store_root st' \<rparr>)"
    using state_ok_nonce [OF state_ok_parsed [OF assms(2,5)] assms(11)] by simp
  have plan: "exec_plan H cbor ix ord r ((go_aleph_intention ord)\<lparr> abi := st_abi (au_state account) \<rparr>)
      (store_root st') ?L (added + excess) 0 = (ix, Ok (store_root st', go_auth ord))"
    using assms(7) by (simp add: exec_plan_def)
  obtain s' inp out' where x: "exec_account H cbor vsub vadd env ix s ord account ?L (added + excess) 0 ?F 0 =
      (ix, Ok (s', Eliminated (ord, (out, r))))"
    "script_io (tx_blueprint_of s') = script_io (tx_blueprint_of s) @ [(inp, out')]"
    "si_reference inp = r" "required_signers inp = [operator_hash env]"
    "operator_interest s' = operator_interest s + ?F" "value_of out' = v"
    "\<And>r'. try_parse (tx_ctx pc ai h) r' out' =
       Some \<lparr> au_output_ref = r', au_output = out', au_state = st'\<lparr> store_root := store_root st' \<rparr> \<rparr>"
    using exec_account_ok [OF assms(2,5) st ok assms(9,10) plan assms(14), where budget = 0] by blast
  have "settles ord (unat ?L) (unat added + unat excess) (unat ?F) (value_of out) (value_of out')"
    using fill_settles [OF assms(1,6) _ assms(12,14)] r x(6) by simp
  then show ?thesis using e x by auto
qed


section \<open>Partial fills\<close>









text \<open>A current account with one nonce that allows the batch witness, bound in an index.\<close>

definition exec_sample_state :: aleph_account_state where
  "exec_sample_state = (sample_account Current)\<lparr> allowlist := [replicate 28 6] \<rparr>"

definition exec_sample_datum :: plutus_data where
  "exec_sample_datum = PConstr 0 [PBytes [1], PList [PBytes (replicate 28 6)], PList [PInteger 7],
     PList [PBytes (replicate 33 3), PList []], PBytes (replicate 28 0), PBytes (replicate 32 0)]"

definition exec_sample_out :: "unit tx_out" where
  "exec_sample_out = ConwayFormatTxOut () \<lparr> coin = 2000, multiasset = [] \<rparr> (Some (Datum exec_sample_datum))"

definition exec_sample_index :: "unit tx_out account_index" where
  "exec_sample_index = (with_persistence_path toy_hash None)\<lparr> by_account_id :=
     [(replicate 32 4, \<lparr> ia_utxo = (exec_sample_out, ([9], 0)), ia_store = store_empty \<rparr>)] \<rparr>"

definition exec_sample_account :: "unit tx_out aleph_account_utxo" where
  "exec_sample_account = \<lparr> au_output_ref = ([9], 0), au_output = exec_sample_out, au_state = exec_sample_state \<rparr>"

abbreviation exec_sample_ctx :: "unit tx_out account_ctx" where
  "exec_sample_ctx \<equiv> tx_ctx (\<lambda>_. Some (Script [])) Some []"

definition exec_sample_validator :: "bytes \<Rightarrow> unit validator" where
  "exec_sample_validator h = \<lparr> reference_utxo = (([7], 0), exec_sample_out), v_hash = h,
     ex_budget = \<lparr> mem = 1, steps = 1 \<rparr>, marginal_cost = \<lparr> mem = 0, steps = 0 \<rparr> \<rparr>"

definition exec_sample_env :: "unit exec_env" where
  "exec_sample_env = \<lparr> operator_hash = replicate 28 2, account_validator = exec_sample_validator [],
     batch_witness = exec_sample_validator (replicate 28 6), allow_green_partial = True, account_ctx_of = exec_sample_ctx \<rparr>"

definition exec_sample_order :: green_order where
  "exec_sample_order = (sample_order (Token (replicate 28 1, 1, replicate 32 0)))\<lparr> go_auth := Sig [] [] [] [] \<rparr>"

lemma exec_sample_facts:
  "as_int_exact Some" "account_ctx_of exec_sample_env = exec_sample_ctx"
  "current_or_pending_base exec_sample_index (go_account_id exec_sample_order) = Some (exec_sample_out, ([9], 0))"
  "try_parse exec_sample_ctx ([9], 0) exec_sample_out = Some exec_sample_account"
  "order_ready exec_sample_order" "go_auth exec_sample_order = Sig [] [] [] []"
  "operator_key_hash (intention exec_sample_order) = operator_hash exec_sample_env"
  "witness_allowed exec_sample_env (au_state exec_sample_account)" "same_witness exec_sample_env new_state"
  "with_sig_full_fill_nonce (au_state exec_sample_account) (target_nonce_slot (intention exec_sample_order))
      (gi_target_nonce_value (intention exec_sample_order)) = Some exec_sample_state"
proof -
  show "current_or_pending_base exec_sample_index (go_account_id exec_sample_order) = Some (exec_sample_out, ([9], 0))"
    by (simp add: current_or_pending_base_def current_def exec_sample_index_def exec_sample_order_def sample_order_def)
  show "try_parse exec_sample_ctx ([9], 0) exec_sample_out = Some exec_sample_account"
    by (simp add: try_parse_def test_address_def tx_ctx_def exec_sample_out_def exec_sample_datum_def exec_sample_account_def
      account_state_try_from_pd_def current_state_from_fields_def hot_cred_from_list_def
      co_key_from_pd_def field_bytes_def take_field_def fixed_def i64_try_from_def i64_max_def exec_sample_state_def sample_account_def
      numeral_eq_Suc)
qed (simp_all add: order_ready_def exec_sample_order_def sample_order_def token_ok_def an_ok_def drop_replicate
    exec_sample_account_def exec_sample_env_def witness_allowed_def exec_sample_state_def sample_account_def
    exec_sample_validator_def same_witness_def new_state_def with_sig_full_fill_nonce_def as_int_exact_def)



section \<open>A history of partial fills\<close>

fun partial_fills :: "aleph_intention \<Rightarrow> (u64 \<times> u64) list \<Rightarrow> aleph_intention option" where
  "partial_fills i [] = Some i"
| "partial_fills i ((consumed, added) # fs) = Option.bind (remaining_after_fill i consumed added) (\<lambda>k. partial_fills k fs)"

lemma remaining_keeps_key: "remaining_after_fill i c a = Some k \<Longrightarrow> intent_key k = intent_key i \<and> abi k = abi i"
  by (auto simp: remaining_after_fill_def Option.bind_eq_Some_conv intent_key_def split: if_splits aleph_account_abi.split)

text \<open>
  C31. A history of partial fills adds up.  What is left of an intention after any number of partial fills is the amount
  minus everything consumed and the expectation minus everything received; it keeps the store
  key.  Its fee is at most the share of the declared fee that belongs to the amount left, so
  the shares of the amounts already filled, for which nothing was charged, are never charged.
\<close>

theorem partial_fills_add_up:
  assumes "partial_fills i fs = Some k"
  shows "unat (leaving_amount k) + sum_list (map (unat \<circ> fst) fs) = unat (leaving_amount i) \<and>
    unat (expected_arriving_amount k) + sum_list (map (unat \<circ> snd) fs) = unat (expected_arriving_amount i) \<and>
    intent_key k = intent_key i \<and>
    unat (fee_lovelace k) * unat (leaving_amount i) \<le> unat (leaving_amount k) * unat (fee_lovelace i)"
  using assms
proof (induction i fs rule: partial_fills.induct)
  case (2 i consumed added fs)
  then obtain j where j: "remaining_after_fill i consumed added = Some j" "partial_fills j fs = Some k"
    by (auto simp: Option.bind_eq_Some_conv)
  note IH = "2.IH" [OF j]
  from remaining_after_fill_spec [of i consumed added] j(1) have s:
    "unat (leaving_amount j) + unat consumed = unat (leaving_amount i)" "leaving_amount j \<noteq> 0"
    "unat (expected_arriving_amount j) + unat added = unat (expected_arriving_amount i)"
    "unat (fee_lovelace j) = unat (leaving_amount j) * unat (fee_lovelace i) div unat (leaving_amount i)"
    by simp_all
  let ?li = "unat (leaving_amount i)" and ?lj = "unat (leaving_amount j)" and ?lk = "unat (leaving_amount k)"
  let ?fi = "unat (fee_lovelace i)" and ?fj = "unat (fee_lovelace j)" and ?fk = "unat (fee_lovelace k)"
  have "?fk * ?li * ?lj \<le> ?lk * ?fj * ?li" using IH by (simp add: mult.commute mult.left_commute)
  also have "?lk * ?fj * ?li \<le> ?lk * (?lj * ?fi)" using s(4) by (simp add: mult.assoc)
  finally have "?lj * (?fk * ?li) \<le> ?lj * (?lk * ?fi)" by (simp add: ac_simps)
  moreover have "?lj \<noteq> 0" using s(2) by (simp add: unat_eq_zero)
  ultimately have "?fk * ?li \<le> ?lk * ?fi" by simp
  then show ?case using IH s remaining_keeps_key [OF j(1)] by simp
qed simp

theorem partial_fills_add_up_witness:
  "\<exists>k. partial_fills (go_aleph_intention exec_sample_order) [(400, 180), (500, 300)] = Some k \<and>
    unat (leaving_amount k) = 100 \<and> unat (expected_arriving_amount k) = 20 \<and> unat (fee_lovelace k) * 1000 \<le> 100 * 30"
proof -
  have "\<exists>k. partial_fills (go_aleph_intention exec_sample_order) [(400, 180), (500, 300)] = Some k"
    by (simp add: remaining_after_fill_def go_aleph_intention_def exec_sample_order_def sample_order_def
        checked_sub_def checked_mul_def Let_def)
  then obtain k where k: "partial_fills (go_aleph_intention exec_sample_order) [(400, 180), (500, 300)] = Some k" ..
  show ?thesis
    using k partial_fills_add_up [OF k]
    by (simp add: go_aleph_intention_def exec_sample_order_def sample_order_def Let_def)
qed

section \<open>Orders that cannot be executed\<close>

definition sample_raw :: raw_green_intent where
  "sample_raw = \<lparr> ri_account_id = replicate 32 4, ri_original_intent_digest = replicate 32 5,
     ri_intention = intention exec_sample_order, ri_auth = Sig [] [] [] [] \<rparr>"

definition sample_config :: green_orders_config where
  "sample_config = \<lparr> allow_partial = True, auto_submit_continuations = True \<rparr>"

lemma sample_admitted:
  "admit_green_intent value_of exec_sample_ctx sample_config exec_sample_index sample_raw =
     Ok (exec_sample_order, (exec_sample_out, ([9], 0)))"
proof -
  have "current exec_sample_index (replicate 32 4) = Some (exec_sample_out, ([9], 0))"
    by (simp add: current_def exec_sample_index_def)
  then show ?thesis
    using exec_sample_facts(4)
    by (simp add: admit_green_intent_def sample_raw_def sample_config_def reference_def exec_sample_account_def
        exec_sample_state_def sample_account_def exec_sample_order_def sample_order_def exec_sample_out_def
        admitted_order_def checked_add_def)
qed

lemma exec_account_no_remainder:
  assumes "rem_in > 0"
    and "\<And>a. remaining_after_fill ((go_aleph_intention ord)\<lparr> abi := a \<rparr>) removed added = None"
  shows "snd (exec_account H cbor vsub vadd env ix s ord account removed added budget fee rem_in) = Panic"
  using assms by (simp add: exec_account_def exec_plan_def split: res.split)

text \<open>
  C37. A partial fill that beats the limit price by enough panics.  When a fill that leaves a remainder has already received more than the
  order expects in total, no remaining intention exists and the execution panics.
\<close>

theorem better_partial_fill_panics:
  assumes "order_ready ord" "removed < gi_leaving_amount (intention ord)" "unat added + unat excess < 2 ^ 64"
    and "gi_expected_arriving_amount (intention ord) < added + excess"
  shows "\<exists>tip. green_take ord removed added excess = Ok tip \<and>
    snd (exec_green H cbor vsub vadd env ix s (bundle_take tip b)) = Panic"
proof -
  note r = assms(1) [unfolded order_ready_def Let_def]
  have pre: "removed \<le> current_remainder ord" "current_remainder ord \<le> gi_leaving_amount (intention ord)"
    "unat (accumulated_output ord) + unat added + unat excess < 2 ^ 64" "unat (gi_fee_lovelace (intention ord)) < 2 ^ 63"
    using r assms(2,3) by simp_all
  obtain tip fee where tip: "green_take ord removed added excess = Ok tip"
    "removed_input green_taker (bundle_take tip b) = Ok removed"
    "added_output green_taker (bundle_take tip b) = Ok (added + excess)"
    "consumed_budget green_taker (bundle_take tip b) = Ok 0"
    "leaving_remainder_of (result tip) = current_remainder ord - removed"
    "consumed_fee green_taker (bundle_take tip b) = Ok fee"
    using green_take_accounting [OF pre, of b] by blast
  have t: "fst (target (bundle_take tip b)) = ord" "result (bundle_take tip b) = result tip"
    using tip(1) green_take_value [OF pre(1,3,4)] by (auto simp: bundle_take_def)
  have "current_remainder ord - removed > 0" using assms(2) r by (simp add: word_gt_0)
  moreover have "remaining_after_fill ((go_aleph_intention ord)\<lparr> abi := a \<rparr>) removed (added + excess) = None" for a
    using assms(4) by (auto simp: remaining_after_fill_def go_aleph_intention_def Let_def Option.bind_eq_None_conv
        checked_sub_eq_None [THEN iffD2])
  ultimately have "snd (exec_account H cbor vsub vadd env ix s ord account removed (added + excess) 0 fee
      (current_remainder ord - removed)) = Panic" for account
    by (rule exec_account_no_remainder)
  then have "snd (exec_green H cbor vsub vadd env ix s (bundle_take tip b)) = Panic"
    by (simp add: exec_green_def tip t Let_def split: option.split)
  with tip(1) show ?thesis by blast
qed

theorem better_partial_fill_panics_witness:
  "\<exists>tip. green_take exec_sample_order 999 501 0 = Ok tip \<and>
    snd (exec_green toy_hash (\<lambda>_. []) toy_sub toy_add exec_sample_env exec_sample_index new_state (bundle_take tip ())) = Panic"
  using better_partial_fill_panics [OF exec_sample_facts(5), of 999 501 0]
  by (simp add: exec_sample_order_def sample_order_def)

end
