(* ===== verification/Batch_Correct.thy ===== *)
theory Batch_Correct
  imports Green_Exec_Correct
begin

text \<open>
  The projection of a batch onto a transaction: what the operator pays and receives, and that the
  intentions of the batch redeemer are in the order of the account inputs and outputs.
\<close>

section \<open>Paying the operator\<close>

fun in_value :: "'a io \<Rightarrow> val list" where
  "in_value (ScriptIO i _) = [value_of (si_utxo i)]"
| "in_value (OperatorIO (Some f) _) = [value_of (fst f)]"
| "in_value (OperatorIO None _) = []"

fun out_value :: "'a io \<Rightarrow> val" where
  "out_value (ScriptIO _ out) = value_of out"
| "out_value (OperatorIO _ out) = value_of out"

definition total_in :: "'a io list \<Rightarrow> asset_class \<Rightarrow> nat" where
  "total_in ios a = sum_list (map (\<lambda>v. amt v a) (concat (map in_value ios)))"

definition total_out :: "'a io list \<Rightarrow> asset_class \<Rightarrow> nat" where
  "total_out ios a = sum_list (map (\<lambda>io. amt (out_value io) a) ios)"

lemma total_simps [simp]:
  "total_in [] a = 0" "total_in (io # ios) a = sum_list (map (\<lambda>v. amt v a) (in_value io)) + total_in ios a"
  "total_out [] a = 0" "total_out (io # ios) a = amt (out_value io) a + total_out ios a"
  by (simp_all add: total_in_def total_out_def)

lemma amt_lovelace [simp]: "amt (lovelace n) a = (if a = Native then unat n else 0)"
  by (cases a rule: ac_ok.cases) (auto simp: lovelace_def amt_def ma_get_def)

lemma amt_add_native: "unat (coin v) + unat n < 2 ^ 64 \<Longrightarrow>
    amt (add_unsafe v Native n) a = amt v a + (if a = Native then unat n else 0)"
  by (cases a rule: ac_ok.cases) (auto simp: amt_def ma_get_def unat_add_small)

lemma amt_sub_native: "n \<le> coin v \<Longrightarrow>
    amt (sub_unsafe v Native n) a + (if a = Native then unat n else 0) = amt v a"
  by (cases a rule: ac_ok.cases) (auto simp: amt_def ma_get_def unat_sub word_le_nat_alt)

text \<open>
  C33. The operator is paid exactly once.  The operator inputs and outputs of a transaction differ, in every asset, by the
  collected interest, less the fee reserve that a batch takes out of the funding output.  What the
  projection reports of the funding output is true: it is spent exactly when it is reported replaced, and a reported new
  funding output is one of the outputs and is locked by the address of the old one.  Every output that comes from no funding input pays the operator's address, and
  every output that replaces the funding output keeps its address.
\<close>

theorem operator_paid_once:
  assumes "\<forall>addr v. value_of (new_out addr v) = v \<and> address (new_out addr v) = addr"
    and "project_funding new_out forced operator_address funding interest reserve = (ios, fio)"
    and "unat (coin (value_of (fst funding))) + unat interest < 2 ^ 64" "reserve \<le> coin (value_of (fst funding))"
  shows "(\<forall>a. total_out ios a + (if forced \<and> a = Native then unat reserve else 0) =
      total_in ios a + (if a = Native then unat interest else 0)) \<and>
    (case fio of
       Replaced f out \<Rightarrow> f = funding \<and> OperatorIO (Some funding) out \<in> set ios \<and> address out = address (fst funding)
     | Added f out \<Rightarrow> f = funding \<and> ios = [OperatorIO None out] \<and> address out = address (fst funding)
     | NotUsed f \<Rightarrow> f = funding \<and> (\<forall>out. OperatorIO (Some funding) out \<notin> set ios)) \<and>
    list_all (\<lambda>io. case io of
        OperatorIO None out \<Rightarrow> address out = operator_address
      | OperatorIO (Some f) out \<Rightarrow> f = funding \<and> address out = address (fst funding)
      | ScriptIO _ _ \<Rightarrow> False) ios"
proof -
  let ?v = "value_of (fst funding)"
  define rv where "rv = (if reserve > 0 then update_value (sub_unsafe ?v Native reserve) (fst funding) else fst funding)"
  have rv: "amt (value_of rv) a + (if a = Native then unat reserve else 0) = amt ?v a" "address rv = address (fst funding)" for a
    using amt_sub_native [OF assms(4), of a] by (auto simp: rv_def word_gt_0)
  have "unat (coin (value_of rv)) \<le> unat (coin ?v)" using rv(1) [of Native] by (simp add: amt_def)
  then have "unat (coin (value_of rv)) + unat interest < 2 ^ 64" using assms(3) by linarith
  note add = amt_add_native [OF this] amt_add_native [OF assms(3)]
  note pf = assms(2) [symmetric, unfolded project_funding_def rv_def [symmetric] Let_def]
  consider "interest = 0" | "interest > 0" "forced" "interest < MIN_SAFE_LOVELACE_VALUE"
    | "interest > 0" "forced" "interest \<ge> MIN_SAFE_LOVELACE_VALUE"
    | "interest > 0" "\<not> forced" "interest < MIN_SAFE_LOVELACE_VALUE"
    | "interest > 0" "\<not> forced" "interest \<ge> MIN_SAFE_LOVELACE_VALUE"
    by (metis linorder_not_le word_gt_0)
  then show ?thesis
  proof cases
    case 1
    with pf show ?thesis using rv by (cases forced) simp_all
  next
    case 2
    with pf show ?thesis using rv add(1) by (simp add: not_le [symmetric])
  next
    case 3
    then have "\<not> interest < MIN_SAFE_LOVELACE_VALUE" by simp
    with 3 pf show ?thesis using rv assms(1) by simp
  next
    case 4
    with pf show ?thesis using assms(1) add(2) by (simp add: not_le [symmetric])
  next
    case 5
    with pf show ?thesis using assms(1) by (cases "operator_address = address (fst funding)") simp_all
  qed
qed

definition toy_new_out :: "'a \<Rightarrow> val \<Rightarrow> 'a tx_out" where
  "toy_new_out a v = ConwayFormatTxOut a v None"

theorem operator_paid_once_witness:
  "\<exists>ios fio. project_funding toy_new_out True () (exec_sample_out, ([2], 0)) 30 500 = (ios, fio) \<and>
    total_out ios Native + 500 = total_in ios Native + 30"
proof -
  obtain ios fio where p: "project_funding toy_new_out True () (exec_sample_out, ([2], 0)) 30 500 = (ios, fio)"
    by (cases "project_funding toy_new_out True () (exec_sample_out, ([2], 0)) 30 500") blast
  have new: "\<forall>(addr :: unit) v. value_of (toy_new_out addr v) = v \<and> address (toy_new_out addr v) = addr"
    by (simp add: toy_new_out_def)
  have u: "unat (coin (value_of (fst (exec_sample_out, ([2 :: byte], 0 :: u64))))) + unat (30 :: u64) < 2 ^ 64"
    "500 \<le> coin (value_of (fst (exec_sample_out, ([2 :: byte], 0 :: u64))))"
    by (simp_all add: exec_sample_out_def)
  have "total_out ios Native + 500 = total_in ios Native + 30"
    using operator_paid_once [OF new p u, THEN conjunct1, THEN spec, of Native] by simp
  with p show ?thesis by blast
qed


section \<open>The order of a batch\<close>

lemma filter_ranks:
  "filter (\<lambda>x. fst (k x) = (0 :: nat) \<and> k x = c) xs @ filter (\<lambda>x. fst (k x) \<noteq> 0 \<and> k x = c) xs = filter (\<lambda>x. k x = c) xs"
proof (cases "fst c = 0")
  case True
  then have "(\<lambda>x. fst (k x) = 0 \<and> k x = c) = (\<lambda>x. k x = c)" "(\<lambda>x. fst (k x) \<noteq> 0 \<and> k x = c) = (\<lambda>_. False)" by auto
  then show ?thesis by simp
next
  case False
  then have "(\<lambda>x. fst (k x) = 0 \<and> k x = c) = (\<lambda>_. False)" "(\<lambda>x. fst (k x) \<noteq> 0 \<and> k x = c) = (\<lambda>x. k x = c)" by auto
  then show ?thesis by simp
qed

lemma sort_key_ranks:
  fixes k :: "'x \<Rightarrow> nat \<times> 'k::linorder"
  shows "sort_key k xs = sort_key k (filter (\<lambda>x. fst (k x) = 0) xs) @ sort_key k (filter (\<lambda>x. fst (k x) \<noteq> 0) xs)"
proof (rule properties_for_sort_key)
  fix y
  have "filter (\<lambda>x. k y = k x) zs = filter (\<lambda>x. k x = k y) zs" for zs by (simp add: eq_commute)
  then show "filter (\<lambda>x. k y = k x)
      (sort_key k (filter (\<lambda>x. fst (k x) = 0) xs) @ sort_key k (filter (\<lambda>x. fst (k x) \<noteq> 0) xs)) =
      filter (\<lambda>x. k y = k x) xs"
    using filter_ranks [of k "k y" xs] by (simp add: sort_key_stable)
next
  show "mset (sort_key k (filter (\<lambda>x. fst (k x) = 0) xs) @ sort_key k (filter (\<lambda>x. fst (k x) \<noteq> 0) xs)) = mset xs"
    by (induction xs) auto
qed (auto simp: sorted_append less_eq_prod_def)

lemma map_sort_key: "map f (sort_key f xs) = sort (map f xs)"
  by (rule properties_for_sort [symmetric]) simp_all

lemma sort_key_map: "sort_key f (map h xs) = map h (sort_key (\<lambda>x. f (h x)) xs)"
proof -
  have "insort_key f (h x) (map h ys) = map h (insort_key (\<lambda>x. f (h x)) x ys)" for x ys
    by (induction ys) auto
  then show ?thesis by (induction xs) auto
qed

lemma sort_key_mono:
  assumes "\<And>x y. x \<in> set xs \<Longrightarrow> y \<in> set xs \<Longrightarrow> f x < f y \<Longrightarrow> g (f x) < g (f y)"
  shows "sort_key (\<lambda>x. g (f x)) xs = sort_key f xs"
proof (rule properties_for_sort_key)
  have inj: "g (f x) = g (f y) \<longleftrightarrow> f x = f y" if "x \<in> set xs" "y \<in> set xs" for x y
    using assms [of x y] assms [of y x] that by (metis less_irrefl neqE)
  show "filter (\<lambda>x. g (f y) = g (f x)) (sort_key f xs) = filter (\<lambda>x. g (f y) = g (f x)) xs" if "y \<in> set (sort_key f xs)" for y
  proof -
    have "filter (\<lambda>x. g (f y) = g (f x)) zs = filter (\<lambda>x. f x = f y) zs" if "set zs = set xs" for zs
      using inj \<open>y \<in> _\<close> that by (intro filter_cong) auto
    then show ?thesis by (simp add: sort_key_stable)
  qed
  have "g (f x) \<le> g (f y)" if "x \<in> set xs" "y \<in> set xs" "f x \<le> f y" for x y
    using assms [of x y] that by (metis le_less)
  then show "sorted (map (\<lambda>x. g (f x)) (sort_key f xs))"
    using sorted_sort_key [of f xs] by (auto simp: sorted_map intro: sorted_wrt_mono_rel [rotated])
qed simp


text \<open>
  The state of a batch under construction: inputs with distinct references, and one intention for
  each account input, in the order the accounts were added.
\<close>

definition batch_ok :: "'a execution_state \<Rightarrow> bool" where
  "batch_ok s \<longleftrightarrow> (let b = tx_blueprint_of s; refs = map (si_reference \<circ> fst) (script_io b) in
     distinct refs \<and> map fst (batch_intentions s) = filter (\<lambda>r. r \<in> account_script_refs b) refs \<and>
     account_script_refs b \<subseteq> set refs)"

lemma batch_ok_new: "batch_ok new_state"
  by (simp add: batch_ok_def new_state_def batch_intentions_def)

lemma exec_blueprint_sel:
  assumes "exec_blueprint env s account out di budget fee authorized = Ok s'"
  shows "script_io (tx_blueprint_of s') = script_io (tx_blueprint_of s) @ [(exec_account_input env account di, out)]"
    "account_script_refs (tx_blueprint_of s') = insert (au_output_ref account) (account_script_refs (tx_blueprint_of s))"
    "batch_intentions s' = batch_intentions s @ [(au_output_ref account, authorized)]"
  using assms
  by (auto simp: exec_blueprint_def add_aleph_batch_intention_def add_ref_input_def add_account_io_def
      batch_intentions_def exec_account_input_def Let_def split: option.splits if_splits)

lemma batch_ok_exec:
  assumes "batch_ok s" "exec_blueprint env s account out di budget fee authorized = Ok s'"
    and "au_output_ref account \<notin> (si_reference \<circ> fst) ` set (script_io (tx_blueprint_of s))"
  shows "batch_ok s'"
proof -
  have "r \<in> (si_reference \<circ> fst) ` set (script_io (tx_blueprint_of s)) \<Longrightarrow>
      (r \<in> insert (au_output_ref account) (account_script_refs (tx_blueprint_of s))) =
      (r \<in> account_script_refs (tx_blueprint_of s))" for r
    using assms(3) by (metis insert_iff)
  then have "filter (\<lambda>r. r \<in> insert (au_output_ref account) (account_script_refs (tx_blueprint_of s)))
      (map (si_reference \<circ> fst) (script_io (tx_blueprint_of s))) =
      filter (\<lambda>r. r \<in> account_script_refs (tx_blueprint_of s)) (map (si_reference \<circ> fst) (script_io (tx_blueprint_of s)))"
    by (intro filter_cong) auto
  moreover have "si_reference (exec_account_input env account di) = au_output_ref account"
    by (simp add: exec_account_input_def Let_def)
  ultimately show ?thesis
    using assms(1,3) unfolding batch_ok_def Let_def exec_blueprint_sel [OF assms(2)] by auto
qed

lemma find_Some_in: "find P xs = Some x \<Longrightarrow> P x \<and> x \<in> set xs"
  by (induction xs) (auto split: if_splits)

lemma sorted_index:
  assumes "distinct refs" "r \<in> set refs"
  obtains i where "i < length refs" "sort refs ! i = r"
    "find (\<lambda>i. sort refs ! i = r) (rev [0..<length refs]) = Some i"
proof -
  obtain i where i: "i < length refs" "sort refs ! i = r" using assms(2) by (metis in_set_conv_nth length_sort set_sort)
  obtain j where j: "find (\<lambda>i. sort refs ! i = r) (rev [0..<length refs]) = Some j"
  proof (cases "find (\<lambda>i. sort refs ! i = r) (rev [0..<length refs])")
    case None
    then show ?thesis using i by (auto simp: find_None_iff)
  qed
  from find_Some_in [OF j] have "j < length refs" "sort refs ! j = r" by simp_all
  then show thesis using that j by blast
qed


definition index_in :: "output_ref list \<Rightarrow> output_ref \<Rightarrow> nat" where
  "index_in refs r = the (find (\<lambda>i. sort refs ! i = r) (rev [0..<length refs]))"

lemma index_in_mono:
  assumes "distinct refs" "r \<in> set refs" "r' \<in> set refs" "r < r'"
  shows "index_in refs r < index_in refs r'"
proof -
  obtain i where i: "i < length refs" "sort refs ! i = r" "index_in refs r = i"
    using sorted_index [OF assms(1,2)] by (metis index_in_def option.sel)
  obtain j where j: "j < length refs" "sort refs ! j = r'" "index_in refs r' = j"
    using sorted_index [OF assms(1,3)] by (metis index_in_def option.sel)
  have "\<not> j \<le> i"
    using sorted_nth_mono [OF sorted_sort, of j i refs] i j assms(4) by auto
  then show ?thesis using i j by simp
qed

text \<open>The intentions of the redeemer are in the order of the account references.\<close>

lemma ordered_intentions_sorted:
  assumes "distinct (List.map_filter io_ref ios)" "fst ` set is \<subseteq> set (List.map_filter io_ref ios)"
  shows "ordered_intentions ios is = Ok (map snd (sort_key fst is))"
proof -
  let ?refs = "List.map_filter io_ref ios"
  have "input_index ios r = Ok (index_in ?refs r)" if "r \<in> fst ` set is" for r
  proof -
    from that assms(2) have "r \<in> set ?refs" by blast
    then show ?thesis using sorted_index [OF assms(1)] by (metis (no_types) index_in_def input_index_def length_sort option.sel unwrap.simps(1))
  qed
  then have "traverse (\<lambda>(r, i). and_then (input_index ios r) (\<lambda>k. Ok (k, i))) is =
      Ok (map (\<lambda>(r, i). (index_in ?refs r, i)) is)"
    by (intro traverse_Ok) force
  moreover have "sort_key fst (map (\<lambda>(r, i). (index_in ?refs r, i)) is) =
      map (\<lambda>(r, i). (index_in ?refs r, i)) (sort_key (\<lambda>x. index_in ?refs (fst x)) is)"
    by (simp add: sort_key_map case_prod_beta)
  moreover have "sort_key (\<lambda>x. index_in ?refs (fst x)) is = sort_key fst is"
    using assms by (intro sort_key_mono index_in_mono) auto
  ultimately show ?thesis by (simp add: ordered_intentions_def case_prod_beta comp_def)
qed


lemma sort_pair: "sort (map (Pair (0 :: nat)) rs) = map (Pair 0) (sort rs)"
  using sort_key_map [of "\<lambda>x. x" "Pair (0 :: nat)" rs] sort_key_mono [of rs "\<lambda>x. x" "Pair (0 :: nat)"] by simp

lemma io_refs_scripts: "List.map_filter io_ref (map (\<lambda>(i, out). ScriptIO i out) xs) = map (si_reference \<circ> fst) xs"
  by (induction xs) (auto simp: List.map_filter_simps)

lemma map_filter_append: "List.map_filter f (xs @ ys) = List.map_filter f xs @ List.map_filter f ys"
  by (simp add: List.map_filter_def)

lemma mset_map_filter: "mset xs = mset ys \<Longrightarrow> mset (List.map_filter f xs) = mset (List.map_filter f ys)"
  by (simp add: List.map_filter_def)

lemma project_funding_forced_refs:
  "fst (project_funding new_out True oa funding interest reserve) = ios \<Longrightarrow>
    List.map_filter io_ref ios = [reference funding] \<and> (\<forall>io \<in> set ios. io_rank True refs io \<noteq> 0)"
  by (auto simp: project_funding_def Let_def List.map_filter_simps io_rank_def split: if_splits)

lemma account_keys:
  "map (io_key True accs) (filter (\<lambda>io. fst (io_key True accs io) = 0) (map (\<lambda>(i, out). ScriptIO i out) xs)) =
    map (Pair 0) (filter (\<lambda>r. r \<in> accs) (map (si_reference \<circ> fst) xs))"
  by (induction xs) (auto simp: io_key_def io_rank_def split: if_splits)

lemma batch_input_refs:
  assumes "batch_ok s" "reference funding \<notin> (si_reference \<circ> fst) ` set (script_io (tx_blueprint_of s))"
    and "mset ios = mset (map (\<lambda>(i, out). ScriptIO i out) (script_io (tx_blueprint_of s)) @ ops)"
    and "List.map_filter io_ref ops = [reference funding]"
  shows "distinct (List.map_filter io_ref ios)"
    and "(si_reference \<circ> fst) ` set (script_io (tx_blueprint_of s)) \<subseteq> set (List.map_filter io_ref ios)"
proof -
  have m: "mset (List.map_filter io_ref ios) =
      mset (map (si_reference \<circ> fst) (script_io (tx_blueprint_of s)) @ [reference funding])"
    using mset_map_filter [OF assms(3), of io_ref] assms(4) by (simp add: map_filter_append io_refs_scripts)
  show "distinct (List.map_filter io_ref ios)"
    unfolding mset_eq_imp_distinct_iff [OF m] using assms(1,2) by (auto simp: batch_ok_def Let_def)
  show "(si_reference \<circ> fst) ` set (script_io (tx_blueprint_of s)) \<subseteq> set (List.map_filter io_ref ios)"
    unfolding mset_eq_setD [OF m] by auto
qed

lemma account_order:
  assumes "batch_ok s" "reference funding \<notin> (si_reference \<circ> fst) ` set (script_io (tx_blueprint_of s))"
    and "mset (List.map_filter io_ref ios) = mset (map (si_reference \<circ> fst) (script_io (tx_blueprint_of s)) @ [reference funding])"
  shows "filter (\<lambda>r. r \<in> account_script_refs (tx_blueprint_of s)) (sort (List.map_filter io_ref ios)) =
    map fst (sort_key fst (batch_intentions s))"
proof -
  let ?P = "\<lambda>r. r \<in> account_script_refs (tx_blueprint_of s)"
  have f: "\<not> ?P (reference funding)" using assms(1,2) by (auto simp: batch_ok_def Let_def)
  have "mset (filter ?P (List.map_filter io_ref ios)) = filter_mset ?P (mset (List.map_filter io_ref ios))" by simp
  also have "\<dots> = mset (filter ?P (map (si_reference \<circ> fst) (script_io (tx_blueprint_of s))))"
    unfolding assms(3) using f by simp
  also have "\<dots> = mset (map fst (batch_intentions s))" using assms(1) by (simp add: batch_ok_def Let_def)
  finally have "mset (filter ?P (sort (List.map_filter io_ref ios))) = mset (map fst (batch_intentions s))" by simp
  then have "sort (map fst (batch_intentions s)) = filter ?P (sort (List.map_filter io_ref ios))"
    by (intro properties_for_sort) (simp_all add: sorted_wrt_filter)
  then show ?thesis by (simp add: map_sort_key)
qed

text \<open>
  C34. The batch redeemer lines up with the transaction.  For a batch built by executing orders on distinct account outputs, with a funding input that is
  none of its script inputs, the projection succeeds.  The ledger sorts all inputs of the transaction by reference, pools and funding
  included: the account inputs in this order and the intentions of the redeemer correspond one to one, each intention to the account it
  is signed for, and the \<open>k\<close>th output of the transaction is the output of the \<open>k\<close>th of these account inputs.
\<close>

theorem batch_redeemer_aligned:
  assumes "batch_ok s" "aleph_batch_witness (tx_blueprint_of s) \<noteq> None"
    and "reference funding \<notin> (si_reference \<circ> fst) ` set (script_io (tx_blueprint_of s))"
  shows "\<exists>ios fio auths. project_io new_out operator_address funding reserve s = Ok (ios, fio, auths) \<and>
    (let accounts = filter (\<lambda>r. r \<in> account_script_refs (tx_blueprint_of s)) (sort (List.map_filter io_ref ios)) in
      length accounts = length auths \<and> length auths \<le> length ios \<and>
      mset (zip accounts auths) = mset (batch_intentions s) \<and>
      (\<forall>k < length auths. \<exists>i out. ios ! k = ScriptIO i out \<and> (i, out) \<in> set (script_io (tx_blueprint_of s)) \<and>
        si_reference i = accounts ! k))"
proof -
  let ?b = "tx_blueprint_of s" and ?is = "batch_intentions s"
  let ?scripts = "map (\<lambda>(i, out). ScriptIO i out) (script_io ?b)" and ?key = "io_key True (account_script_refs ?b)"
  obtain ops fio where p: "project_funding new_out True operator_address funding (operator_interest s) reserve = (ops, fio)"
    by (cases "project_funding new_out True operator_address funding (operator_interest s) reserve")
  note ops = project_funding_forced_refs [of new_out operator_address funding "operator_interest s" reserve ops, unfolded p, simplified]
  define accs where "accs = filter (\<lambda>io. fst (?key io) = 0) ?scripts"
  define ios where "ios = sort_key ?key (?scripts @ ops)"
  have refs: "distinct (List.map_filter io_ref ios)"
      "(si_reference \<circ> fst) ` set (script_io ?b) \<subseteq> set (List.map_filter io_ref ios)"
    using batch_input_refs [OF assms(1,3), of ios ops] ops by (simp_all add: ios_def)
  have racc: "map ?key accs = map (Pair 0) (map fst ?is)"
    using account_keys [of "account_script_refs ?b" "script_io ?b"] assms(1) by (simp add: accs_def batch_ok_def Let_def)
  have "filter (\<lambda>io. fst (?key io) = 0) (?scripts @ ops) = accs"
    using ops by (auto simp: accs_def filter_empty_conv io_key_def)
  then obtain rest where ios: "ios = sort_key ?key accs @ rest"
    using sort_key_ranks [of ?key "?scripts @ ops"] by (simp add: ios_def)
  have len: "length accs = length ?is" using arg_cong [OF racc, of length] by simp
  have sorted: "map ?key (sort_key ?key accs) = map (Pair 0) (map fst (sort_key fst ?is))"
    unfolding map_sort_key racc sort_pair ..
  have at: "\<exists>i out. ios ! k = ScriptIO i out \<and> (i, out) \<in> set (script_io ?b) \<and>
      si_reference i = fst (sort_key fst ?is ! k)" if k: "k < length ?is" for k
  proof -
    have "sort_key ?key accs ! k \<in> set accs" using k len by (metis length_sort nth_mem set_sort)
    then obtain i out where i: "ios ! k = ScriptIO i out" "(i, out) \<in> set (script_io ?b)"
      "sort_key ?key accs ! k = ScriptIO i out"
      using k len by (auto simp: ios nth_append accs_def)
    have "?key (sort_key ?key accs ! k) = (0, fst (sort_key fst ?is ! k))"
      using arg_cong [OF sorted, of "\<lambda>xs. xs ! k"] k len by simp
    then have "si_reference i = fst (sort_key fst ?is ! k)" using i(3) by (simp add: io_key_def)
    then show ?thesis using i k by simp
  qed
  have "ordered_intentions ios ?is = Ok (map snd (sort_key fst ?is))"
  proof (rule ordered_intentions_sorted [OF refs(1)])
    have "fst ` set ?is = set (map fst ?is)" by simp
    also have "\<dots> \<subseteq> (si_reference \<circ> fst) ` set (script_io ?b)"
      using assms(1) unfolding batch_ok_def Let_def by (metis (no_types, lifting) filter_is_subset list.set_map)
    finally show "fst ` set ?is \<subseteq> set (List.map_filter io_ref ios)" using refs(2) by blast
  qed
  moreover obtain w where "aleph_batch_witness ?b = Some (w, ?is)"
    using assms(2) by (auto simp: batch_intentions_def)
  ultimately have "project_io new_out operator_address funding reserve s = Ok (ios, fio, map snd (sort_key fst ?is))"
    by (simp add: project_io_def Let_def p flip: ios_def)
  moreover have "length ?is \<le> length ios" using len by (simp add: ios)
  moreover have "filter (\<lambda>r. r \<in> account_script_refs ?b) (sort (List.map_filter io_ref ios)) = map fst (sort_key fst ?is)"
  proof (rule account_order [OF assms(1,3)])
    show "mset (List.map_filter io_ref ios) = mset (map (si_reference \<circ> fst) (script_io ?b) @ [reference funding])"
      using mset_map_filter [of ios "?scripts @ ops" io_ref] ops by (simp add: ios_def map_filter_append io_refs_scripts)
  qed
  ultimately show ?thesis using at by (auto simp: Let_def zip_map_fst_snd)
qed

definition second_account :: "unit tx_out aleph_account_utxo" where
  "second_account = exec_sample_account\<lparr> au_output_ref := ([4], 1) \<rparr>"

definition sample_authorized :: "u64 \<Rightarrow> aleph_authorized_intention" where
  "sample_authorized n = \<lparr> intent = go_aleph_intention exec_sample_order, remainder = n, aai_auth = go_auth exec_sample_order \<rparr>"

definition add_sample :: "unit tx_out aleph_account_utxo \<Rightarrow> u64 \<Rightarrow> unit execution_state \<Rightarrow> unit execution_state" where
  "add_sample account n s = (case exec_blueprint exec_sample_env s account exec_sample_out 0 0 30 (sample_authorized n) of Ok s' \<Rightarrow> s' | _ \<Rightarrow> s)"

definition two_batch :: "unit execution_state" where
  "two_batch = add_sample second_account 2 (add_sample exec_sample_account 1 new_state)"

lemma add_sample_sel:
  assumes "same_witness exec_sample_env s"
  shows "script_io (tx_blueprint_of (add_sample account n s)) =
      script_io (tx_blueprint_of s) @ [(exec_account_input exec_sample_env account 0, exec_sample_out)]"
    "account_script_refs (tx_blueprint_of (add_sample account n s)) = insert (au_output_ref account) (account_script_refs (tx_blueprint_of s))"
    "batch_intentions (add_sample account n s) = batch_intentions s @ [(au_output_ref account, sample_authorized n)]"
    "same_witness exec_sample_env (add_sample account n s)"
  by (rule exec_blueprint_ok [OF assms, of account exec_sample_out 0 0 30 "sample_authorized n"], simp add: add_sample_def)+

lemma two_batch_sel:
  "map (si_reference \<circ> fst) (script_io (tx_blueprint_of two_batch)) = [([9], 0), ([4], 1)]"
  "account_script_refs (tx_blueprint_of two_batch) = {([9], 0), ([4], 1)}"
  "batch_intentions two_batch = [(([9], 0), sample_authorized 1), (([4], 1), sample_authorized 2)]"
  by (simp_all add: two_batch_def add_sample_sel exec_sample_facts(9))
    (auto simp: new_state_def batch_intentions_def exec_account_input_def Let_def second_account_def exec_sample_account_def)

theorem batch_redeemer_aligned_witness:
  "\<exists>ios fio auths. project_io toy_new_out () (exec_sample_out, ([2], 0)) 0 two_batch = Ok (ios, fio, auths) \<and>
    auths = [sample_authorized 2, sample_authorized 1] \<and> io_ref (ios ! 0) = Some ([4], 1)"
proof -
  have b: "batch_ok two_batch"
    unfolding batch_ok_def Let_def two_batch_sel by (auto simp: less_prod_def)
  have w: "aleph_batch_witness (tx_blueprint_of two_batch) \<noteq> None"
    using two_batch_sel(3) by (auto simp: batch_intentions_def split: option.splits)
  have f: "reference (exec_sample_out, ([2 :: byte], 0 :: u64)) \<notin> (si_reference \<circ> fst) ` set (script_io (tx_blueprint_of two_batch))"
    using arg_cong [OF two_batch_sel(1), of set] by (simp add: reference_def)
  obtain ios fio auths where p: "project_io toy_new_out () (exec_sample_out, ([2], 0)) 0 two_batch = Ok (ios, fio, auths)"
    and a: "let accounts = filter (\<lambda>r. r \<in> account_script_refs (tx_blueprint_of two_batch)) (sort (List.map_filter io_ref ios)) in
      length accounts = length auths \<and> length auths \<le> length ios \<and>
      mset (zip accounts auths) = mset (batch_intentions two_batch) \<and>
      (\<forall>k < length auths. \<exists>i out. ios ! k = ScriptIO i out \<and> (i, out) \<in> set (script_io (tx_blueprint_of two_batch)) \<and>
        si_reference i = accounts ! k)"
    using batch_redeemer_aligned [OF b w f, of toy_new_out "()" 0] by blast
  define A where "A = filter (\<lambda>r. r \<in> account_script_refs (tx_blueprint_of two_batch)) (sort (List.map_filter io_ref ios))"
  have z: "length A = length auths" "mset (zip A auths) = mset (batch_intentions two_batch)"
    "\<And>k. k < length auths \<Longrightarrow> io_ref (ios ! k) = Some (A ! k)"
    using a unfolding Let_def A_def [symmetric] by (simp_all, force)
  have "mset A = mset (map fst (batch_intentions two_batch))"
    using arg_cong [OF z(2), of "image_mset fst"] z(1) by (metis map_fst_zip mset_map)
  moreover have "sorted A" by (simp add: A_def sorted_wrt_filter)
  ultimately have "sort (map fst (batch_intentions two_batch)) = A" by (intro properties_for_sort) simp_all
  then have A: "A = [([4], 1), ([9], 0)]" by (simp add: two_batch_sel less_eq_prod_def)
  then have "mset (zip A auths) = {#(([9], 0), sample_authorized 1), (([4], 1), sample_authorized 2)#}" using z(2) two_batch_sel(3) by simp
  then have "auths = [sample_authorized 2, sample_authorized 1]" using z(1) unfolding A
    by (cases auths; cases "tl auths") (auto simp: add_eq_conv_ex)
  then show ?thesis using p z A by auto
qed

end
