(* ===== verification/Intent_Correct.thy ===== *)
theory Intent_Correct
  imports Green_Exec_Correct
begin

text \<open>
  Admission of intents: what an admitted intent guarantees for its execution, what it does not, and
  that the HTTP and the TCP source agree.
\<close>

section \<open>From admission to execution\<close>

lemma admitted:
  assumes "admit_green_intent value_of ctx config ix raw = Ok (ord, u)"
  obtains account where "ord = admitted_order raw" "input_asset (ri_intention raw) = Native"
    "current ix (ri_account_id raw) = Some u" "try_parse ctx (snd u) (fst u) = Some account"
    "unat (target_nonce_slot (ri_intention raw)) < length (nonce (au_state account))"
    "nonce (au_state account) ! unat (target_nonce_slot (ri_intention raw)) \<le> sint (gi_target_nonce_value (ri_intention raw))"
    "unat (gi_leaving_amount (ri_intention raw)) + unat (gi_fee_lovelace (ri_intention raw)) \<le> unat (coin (value_of (fst u)))"
    "unat (gi_leaving_amount (ri_intention raw)) + unat (gi_fee_lovelace (ri_intention raw)) < 2 ^ 64"
proof -
  let ?i = "ri_intention raw"
  from assms obtain bearer account need where a: "input_asset ?i = Native" "current ix (ri_account_id raw) = Some bearer"
    "try_parse ctx (reference bearer) (fst bearer) = Some account"
    "unat (target_nonce_slot ?i) < length (nonce (au_state account))"
    "\<not> nonce (au_state account) ! unat (target_nonce_slot ?i) > sint (gi_target_nonce_value ?i)"
    "checked_add (gi_leaving_amount ?i) (gi_fee_lovelace ?i) = Some need"
    "\<not> coin (value_of (au_output account)) < need" "ord = admitted_order raw" "u = (au_output account, au_output_ref account)"
    by (auto simp: admit_green_intent_def Let_def res_simps split: if_splits)
  from a(3) have "au_output account = fst bearer" "au_output_ref account = reference bearer"
    by (auto simp: try_parse_def Option.bind_eq_Some_conv split: if_splits)
  with a(9) have "u = bearer" by (simp add: reference_def)
  with a \<open>au_output account = _\<close> show thesis
    using u64_lt [of need] by (intro that [of account]) (auto simp: reference_def checked_add_eq_Some word_le_nat_alt not_less)
qed

lemma current_is_base: "current ix acc = Some u \<Longrightarrow> current_or_pending_base ix acc = Some u"
  by (simp add: current_or_pending_base_def)

text \<open>
  C32. An admitted intent can be executed in full.  Consider an intent under a signature that is admitted for a
  current account of the current format, names this operator, sells a non-zero amount of ada for a token, and whose fee is below \<open>2^63\<close> and whose
  product of sold amount and fee is below \<open>2^64\<close>.  If the batch witness is on the allowlist of the account and is the one of the
  batch so far, and the ledger can hold the values, every complete fill that delivers at least the expected amount executes it.  The
  account output then has lost the sold amount and the fee and gained the bought
  amount, its nonce has become the target, the operator has earned the fee, and the index is unchanged.
\<close>

theorem admitted_intent_executes:
  assumes "value_laws vsub vadd" "as_int_exact ai" "account_ctx_of env = tx_ctx pc ai h"
    and "admit_green_intent value_of (tx_ctx pc ai h) config ix raw = Ok (ord, (out, r))"
    and "try_parse (tx_ctx pc ai h) r out = Some account" "st_abi (au_state account) = Current"
    and "ri_auth raw = Sig prefix postfix signature upd"
    and "operator_key_hash (ri_intention raw) = operator_hash env"
    and "witness_allowed env (au_state account)" "same_witness env s"
    and "gi_leaving_amount (ri_intention raw) \<noteq> 0" "unat (gi_fee_lovelace (ri_intention raw)) < 2 ^ 63"
    and "unat (gi_leaving_amount (ri_intention raw)) * unat (gi_fee_lovelace (ri_intention raw)) < 2 ^ 64"
    and "output_asset (ri_intention raw) \<noteq> Native" "ac_ok (output_asset (ri_intention raw))"
    and "unat added + unat excess < 2 ^ 64" "gi_expected_arriving_amount (ri_intention raw) \<le> added + excess"
    and "\<forall>n \<le> coin (value_of out). \<exists>v v'. vsub (value_of out) (into_value Native n) = Some v \<and>
      vadd v (into_value (output_asset (ri_intention raw)) (added + excess)) = Some v'"
  shows "\<exists>tip s' inp out'. green_take ord (gi_leaving_amount (ri_intention raw)) added excess = Ok tip \<and>
    exec_green H cbor vsub vadd env ix s (bundle_take tip b) = (ix, Ok (s', Eliminated (ord, (out, r)))) \<and>
    script_io (tx_blueprint_of s') = script_io (tx_blueprint_of s) @ [(inp, out')] \<and> si_reference inp = r \<and>
    required_signers inp = [operator_hash env] \<and>
    operator_interest s' = operator_interest s + gi_fee_lovelace (ri_intention raw) \<and>
    settles ord (unat (gi_leaving_amount (ri_intention raw))) (unat added + unat excess)
      (unat (gi_fee_lovelace (ri_intention raw))) (value_of out) (value_of out') \<and>
    try_parse (tx_ctx pc ai h) r' out' = Some \<lparr> au_output_ref = r', au_output = out', au_state = (au_state account)
      \<lparr> nonce := (nonce (au_state account))[unat (target_nonce_slot (ri_intention raw)) :=
          sint (gi_target_nonce_value (ri_intention raw))] \<rparr> \<rparr>"
proof -
  let ?i = "ri_intention raw"
  from assms(4) obtain a where adm: "ord = admitted_order raw" "input_asset ?i = Native"
    "current ix (ri_account_id raw) = Some (out, r)" "try_parse (tx_ctx pc ai h) r out = Some a"
    "unat (target_nonce_slot ?i) < length (nonce (au_state a))"
    "nonce (au_state a) ! unat (target_nonce_slot ?i) \<le> sint (gi_target_nonce_value ?i)"
    "unat (gi_leaving_amount ?i) + unat (gi_fee_lovelace ?i) \<le> unat (coin (value_of out))"
    "unat (gi_leaving_amount ?i) + unat (gi_fee_lovelace ?i) < 2 ^ 64"
    by (rule admitted) auto
  have a: "a = account" using adm(4) assms(5) by simp
  have o: "intention ord = ?i" "go_account_id ord = ri_account_id raw" "go_auth ord = ri_auth raw"
    "current_remainder ord = gi_leaving_amount ?i" "accumulated_output ord = 0"
    by (simp_all add: adm(1) admitted_order_def Let_def)
  have ready: "order_ready ord" using assms(11-15) adm(2,8) by (simp add: order_ready_def o)
  have "gi_leaving_amount ?i + gi_fee_lovelace ?i \<le> coin (value_of out)"
    using adm(7,8) by (simp add: word_le_nat_alt unat_add_small)
  then obtain v where fill: "apply_full_fill_to_account_output vsub vadd (value_of out) ord (gi_leaving_amount (intention ord))
      (added + excess) (gi_fee_lovelace (intention ord)) = Ok v"
    using assms(14,18) adm(2)
    by (force simp: apply_full_fill_to_account_output_def o sub_asset_def add_asset_def simp del: into_value.simps)
  have base: "current_or_pending_base ix (go_account_id ord) = Some (out, r)"
    using adm(3) by (simp add: current_is_base o)
  have nonce: "with_sig_full_fill_nonce (au_state account) (target_nonce_slot (intention ord))
      (gi_target_nonce_value (intention ord)) = Some ((au_state account)
      \<lparr> nonce := (nonce (au_state account))[unat (target_nonce_slot ?i) := sint (gi_target_nonce_value ?i)] \<rparr>)"
    using adm(5,6) assms(6) by (simp add: with_sig_full_fill_nonce_def o a)
  have "go_auth ord = Sig prefix postfix signature upd" "operator_key_hash (intention ord) = operator_hash env"
    "gi_expected_arriving_amount (intention ord) \<le> added + excess"
    using assms(7,8,17) by (simp_all add: o)
  from full_fill_executes [OF assms(1,2,3) base assms(5) ready this(1,2) assms(9,10) nonce assms(16) this(3) fill]
  show ?thesis unfolding o .
qed

theorem admitted_intent_executes_witness:
  "\<exists>tip s' eff. admit_green_intent value_of exec_sample_ctx sample_config exec_sample_index sample_raw =
       Ok (exec_sample_order, (exec_sample_out, ([9], 0))) \<and>
     green_take exec_sample_order 1000 480 20 = Ok tip \<and>
     exec_green toy_hash (\<lambda>_. []) toy_sub toy_add exec_sample_env exec_sample_index new_state (bundle_take tip ()) =
       (exec_sample_index, Ok (s', eff)) \<and> operator_interest s' = 30"
proof -
  have raw: "gi_leaving_amount (ri_intention sample_raw) = 1000" "gi_fee_lovelace (ri_intention sample_raw) = 30"
    "gi_expected_arriving_amount (ri_intention sample_raw) = 500" "ri_auth sample_raw = Sig [] [] [] []"
    "operator_key_hash (ri_intention sample_raw) = operator_hash exec_sample_env"
    "output_asset (ri_intention sample_raw) = Token (replicate 28 1, 1, replicate 32 0)"
    by (simp_all add: sample_raw_def exec_sample_order_def sample_order_def exec_sample_env_def)
  have cur: "st_abi (au_state exec_sample_account) = Current"
    by (simp add: exec_sample_account_def exec_sample_state_def sample_account_def)
  have vals: "\<forall>n \<le> coin (value_of exec_sample_out). \<exists>v v'. toy_sub (value_of exec_sample_out) (into_value Native n) = Some v \<and>
      toy_add v (into_value (output_asset (ri_intention sample_raw)) (480 + 20)) = Some v'"
    by (simp add: raw toy_sub_def toy_add_def exec_sample_out_def an_bytes_def u64_lt)
  show ?thesis
    using admitted_intent_executes [OF toy_value_laws exec_sample_facts(1,2) sample_admitted exec_sample_facts(4) cur raw(4,5)
        exec_sample_facts(8,9) _ _ _ _ _ _ _ vals, where H = toy_hash and cbor = "\<lambda>_. []" and b = "()"] sample_admitted
    by (simp add: raw new_state_def token_ok_def an_ok_def drop_replicate) blast
qed

text \<open>Admission reads neither the operator of an intent nor, beyond being at least the account's, its nonce.\<close>

lemma admitted_variant:
  assumes "admit_green_intent value_of ctx config ix raw = Ok (ord, u)" "try_parse ctx (snd u) (fst u) = Some account"
    and "nonce (au_state account) ! unat (target_nonce_slot (ri_intention raw)) \<le> sint n"
    and "raw' = raw\<lparr> ri_intention := (ri_intention raw)\<lparr> operator_key_hash := op, gi_target_nonce_value := n \<rparr> \<rparr>"
  shows "admit_green_intent value_of ctx config ix raw' = Ok (admitted_order raw', u)"
proof -
  let ?i = "ri_intention raw"
  from assms(1) obtain bearer a need where a: "\<not> (is_path (ri_auth raw) \<and> \<not> allow_partial config)" "input_asset ?i = Native"
    "current ix (ri_account_id raw) = Some bearer" "try_parse ctx (reference bearer) (fst bearer) = Some a"
    "unat (target_nonce_slot ?i) < length (nonce (au_state a))"
    "checked_add (gi_leaving_amount ?i) (gi_fee_lovelace ?i) = Some need"
    "\<not> coin (value_of (au_output a)) < need" "u = (au_output a, au_output_ref a)"
    by (auto simp: admit_green_intent_def Let_def res_simps split: if_splits)
  from a(4) have "au_output a = fst bearer" "au_output_ref a = reference bearer"
    by (auto simp: try_parse_def Option.bind_eq_Some_conv split: if_splits)
  then have "a = account" using a(4,8) assms(2) by (simp add: reference_def)
  then have "\<not> sint n < nonce (au_state a) ! unat (target_nonce_slot ?i)" using assms(3) by simp
  then show ?thesis using a assms(4) by (auto simp: admit_green_intent_def Let_def)
qed

lemma foreign_operator_panics:
  assumes "operator_key_hash (intention (fst (target tr))) \<noteq> operator_hash env"
  shows "exec_green H cbor vsub vadd env ix s tr = (ix, Panic)"
  using assms by (auto simp: exec_green_def exec_checks_def Let_def split: res.split prod.split)

lemma legacy_nonce_panics:
  assumes "current ix (go_account_id ord) = Some u" "try_parse (account_ctx_of env) (snd u) (fst u) = Some account"
    and "\<not> is_path (go_auth ord)" "st_abi (au_state account) = Legacy"
    and "nonce (au_state account) ! unat (target_nonce_slot (intention ord)) \<noteq> sint (gi_target_nonce_value (intention ord))"
    and "fst (target tr) = ord"
  shows "exec_green H cbor vsub vadd env ix s tr = (ix, Panic)"
proof -
  have "with_sig_full_fill_nonce (au_state account) (target_nonce_slot (intention ord)) (gi_target_nonce_value (intention ord)) = None"
    using assms(4,5) by (auto simp: with_sig_full_fill_nonce_def split: list.split)
  then have "exec_next_state ord (au_state account) = Panic"
    using assms(3) by (cases "go_auth ord") (simp_all add: exec_next_state_def)
  then show ?thesis using assms
    by (auto simp: exec_green_def exec_account_def reference_def current_is_base Let_def split: res.split)
qed

text \<open>
  C36. Admission does not make an intent executable.  From any admitted intent two others are obtained that are admitted as well, and whose execution panics whatever
  the fill: the same intent for any operator but this one, and, where the intent is signed and the account has the legacy format,
  the same intent with any target nonce beyond the nonce of the account.
\<close>

theorem admitted_but_unexecutable:
  assumes "admit_green_intent value_of (account_ctx_of env) config ix raw = Ok (ord, u)"
    and "try_parse (account_ctx_of env) (snd u) (fst u) = Some account"
    and "raw' = raw\<lparr> ri_intention := (ri_intention raw)\<lparr> operator_key_hash := op, gi_target_nonce_value := n \<rparr> \<rparr>"
    and "op \<noteq> operator_hash env \<and> n = gi_target_nonce_value (ri_intention raw) \<or>
      \<not> is_path (ri_auth raw) \<and> st_abi (au_state account) = Legacy \<and>
      nonce (au_state account) ! unat (target_nonce_slot (ri_intention raw)) < sint n"
  shows "admit_green_intent value_of (account_ctx_of env) config ix raw' = Ok (admitted_order raw', u) \<and>
    (\<forall>tr. fst (target tr) = admitted_order raw' \<longrightarrow> exec_green H cbor vsub vadd env ix s tr = (ix, Panic))"
proof -
  obtain a where adm: "current ix (ri_account_id raw) = Some u" "try_parse (account_ctx_of env) (snd u) (fst u) = Some a"
    "nonce (au_state a) ! unat (target_nonce_slot (ri_intention raw)) \<le> sint (gi_target_nonce_value (ri_intention raw))"
    using assms(1) by (auto elim: admitted)
  have le: "nonce (au_state account) ! unat (target_nonce_slot (ri_intention raw)) \<le> sint n"
    using assms(2,4) adm(2,3) by auto
  have o: "intention (admitted_order raw') = (ri_intention raw)\<lparr> operator_key_hash := op, gi_target_nonce_value := n \<rparr>"
    "go_account_id (admitted_order raw') = ri_account_id raw" "go_auth (admitted_order raw') = ri_auth raw"
    by (simp_all add: assms(3) admitted_order_def Let_def)
  have "exec_green H cbor vsub vadd env ix s tr = (ix, Panic)" if t: "fst (target tr) = admitted_order raw'" for tr
    using assms(4)
  proof (elim disjE conjE)
    assume "op \<noteq> operator_hash env"
    then show ?thesis by (intro foreign_operator_panics) (simp add: t o)
  next
    assume "\<not> is_path (ri_auth raw)" "st_abi (au_state account) = Legacy"
      "nonce (au_state account) ! unat (target_nonce_slot (ri_intention raw)) < sint n"
    then show ?thesis using adm(1) assms(2) t by (intro legacy_nonce_panics [of _ "admitted_order raw'" u _ account]) (simp_all add: o)
  qed
  then show ?thesis using admitted_variant [OF assms(1,2) le assms(3)] by blast
qed

theorem admitted_but_unexecutable_witness:
  "let raw' = sample_raw\<lparr> ri_intention := (ri_intention sample_raw)\<lparr> operator_key_hash := replicate 28 3 \<rparr> \<rparr> in
   admit_green_intent value_of exec_sample_ctx sample_config exec_sample_index raw' = Ok (admitted_order raw', (exec_sample_out, ([9], 0))) \<and>
   (\<exists>tip. green_take (admitted_order raw') 1000 480 20 = Ok tip \<and>
     exec_green toy_hash (\<lambda>_. []) toy_sub toy_add exec_sample_env exec_sample_index new_state (bundle_take tip ()) = (exec_sample_index, Panic))"
proof -
  let ?i = "ri_intention sample_raw"
  define raw' where "raw' = sample_raw\<lparr> ri_intention := ?i\<lparr> operator_key_hash := replicate 28 3, gi_target_nonce_value := gi_target_nonce_value ?i \<rparr> \<rparr>"
  have r: "raw' = sample_raw\<lparr> ri_intention := ?i\<lparr> operator_key_hash := replicate 28 3 \<rparr> \<rparr>" by (simp add: raw'_def)
  have ctx: "account_ctx_of exec_sample_env = exec_sample_ctx" by (rule exec_sample_facts(2))
  have adm: "admit_green_intent value_of (account_ctx_of exec_sample_env) sample_config exec_sample_index sample_raw =
      Ok (exec_sample_order, (exec_sample_out, ([9], 0)))" using sample_admitted ctx by simp
  have p: "try_parse (account_ctx_of exec_sample_env) (snd (exec_sample_out, ([9], 0))) (fst (exec_sample_out, ([9], 0))) = Some exec_sample_account"
    using exec_sample_facts(4) ctx by simp
  have f: "replicate 28 3 \<noteq> operator_hash exec_sample_env" by (simp add: exec_sample_env_def)
  obtain tip where tip: "green_take (admitted_order raw') 1000 480 20 = Ok tip" "target tip = admitted_order raw'"
    using green_take_value [of 1000 "admitted_order raw'" 480 20]
    by (auto simp: raw'_def sample_raw_def admitted_order_def Let_def exec_sample_order_def sample_order_def)
  have c: "replicate 28 3 \<noteq> operator_hash exec_sample_env \<and> gi_target_nonce_value ?i = gi_target_nonce_value ?i \<or>
      \<not> is_path (ri_auth sample_raw) \<and> st_abi (au_state exec_sample_account) = Legacy \<and>
      nonce (au_state exec_sample_account) ! unat (target_nonce_slot ?i) < sint (gi_target_nonce_value ?i)" using f by simp
  note x = admitted_but_unexecutable [OF adm p raw'_def c, of toy_hash "\<lambda>_. []" toy_sub toy_add new_state]
  then show ?thesis using tip ctx x [THEN conjunct2, THEN spec, of "bundle_take tip ()"] unfolding Let_def r [symmetric] by (auto simp: bundle_take_def)
qed

section \<open>The two sources of intents\<close>

lemma and_then_eq_Panic: "and_then m f = Panic \<longleftrightarrow> m = Panic \<or> (\<exists>a. m = Ok a \<and> f a = Panic)"
  by (cases m) auto

lemma no_panic_simps: "ok_or x e \<noteq> Panic" "map_err g m = Panic \<longleftrightarrow> m = Panic"
  by (cases x; simp) (cases m; simp)

lemma parse_no_panic: "parse_wire_intent hexd w \<noteq> Panic"
proof -
  have "wire_auth_try_from hexd a \<noteq> Panic" for a
    by (cases a) (auto simp: and_then_eq_Panic no_panic_simps decode_hex_def new_sig_def split: if_splits)
  then show ?thesis
    by (auto simp: parse_wire_intent_def and_then_eq_Panic no_panic_simps decode_hex_def account_id_try_from_slice_def
        try_operator_key_hash_def split: if_splits)
qed

lemma admit_no_panic: "admit_green_intent value_of ctx config ix raw \<noteq> Panic"
  by (auto simp: admit_green_intent_def and_then_eq_Panic no_panic_simps Let_def split: if_splits)

text \<open>
  C35. The HTTP and the TCP source agree.  \<open>POST /intents\<close> always answers; it queues the event the TCP source would send
  for the same intent, unless the channel of the partition is unavailable, and answers
  \<open>accepted\<close> exactly when it has queued the event; every other answer carries a reason.
\<close>

theorem http_tcp_agree:
  "\<exists>resp ev. post_intent hexd value_of ctx h available config ix w = Ok (resp, ev) \<and>
    ev = (case tcp_line hexd value_of ctx h config ix (Some w) of
            Some (p, e) \<Rightarrow> if available p then Some (p, e) else None
          | None \<Rightarrow> None) \<and>
    (code resp = ACCEPTED \<longleftrightarrow> ev \<noteq> None) \<and> (reason resp = None \<longleftrightarrow> ev \<noteq> None)"
proof (cases "parse_wire_intent hexd w")
  case (Ok raw)
  show ?thesis
  proof (cases "admit_green_intent value_of ctx config ix raw")
    case (Err e)
    then show ?thesis using Ok by (cases e) (simp_all add: post_intent_def tcp_line_def rejected_def)
  qed (use Ok admit_no_panic in \<open>auto simp: post_intent_def tcp_line_def rejected_def Let_def simp del: split_paired_Ex\<close>)
qed (use parse_no_panic in \<open>auto simp: post_intent_def tcp_line_def rejected_def\<close>)

end
