(* ===== verification/Book_State.thy ===== *)
theory Book_State
  imports Book_Core Complex_Main
begin

text \<open>
  The state of the liquidity book
  (\<open>bloom-offchain/src/execution_engine/liquidity_book/state/mod.rs\<close>, \<open>price_range.rs\<close>,
  \<open>queries.rs\<close>) and the interfaces of takers and makers it is generic in (\<open>market_taker.rs\<close>,
  \<open>market_maker.rs\<close>).

  \<^item> A price is a rational number: \<open>Ratio<u128>\<close> compares and divides exactly, and whether a fraction
    is reduced is never observed.  Numerators and denominators of prices come from 64-bit amounts,
    so that the casts to \<open>i128\<close> in \<open>to_signed\<close> do not wrap.
  \<^item> A \<open>BTreeSet<T>\<close> is the list of its elements in the order of \<open>T\<close>'s \<open>Ord\<close>, given by the key
    \<open>t_key\<close>; \<open>insert\<close> keeps the element already present when the keys agree.
  \<^item> A maker's transition never terminates (\<open>Next<M, Void>\<close>), so it is the pair of the maker before and after.
  \<^item> Trace and display functions have no effect and are left out.
\<close>

section \<open>Sides and prices\<close>

datatype 'a on_side = OnBid 'a | OnAsk 'a

fun wrap :: "side \<Rightarrow> 'a \<Rightarrow> 'a on_side" where
  "wrap Bid v = OnBid v"
| "wrap Ask v = OnAsk v"

fun on_side_unwrap :: "'a on_side \<Rightarrow> 'a" where
  "on_side_unwrap (OnBid v) = v"
| "on_side_unwrap (OnAsk v) = v"

type_synonym absolute_price = rat

definition ap_new :: "u64 \<Rightarrow> u64 \<Rightarrow> absolute_price option" where
  "ap_new numer denom = (if denom \<noteq> 0 then Some (of_nat (unat numer) / of_nat (unat denom)) else None)"

fun overlaps :: "absolute_price on_side \<Rightarrow> absolute_price \<Rightarrow> bool" where
  "overlaps (OnBid this) that = (this \<ge> that)"
| "overlaps (OnAsk this) that = (this \<le> that)"

fun better_than :: "absolute_price on_side \<Rightarrow> absolute_price \<Rightarrow> bool" where
  "better_than (OnBid this) that = (this \<ge> that)"
| "better_than (OnAsk this) that = (this \<le> that)"


section \<open>Takers and makers\<close>

text \<open>
  A taker of the book: the operations of \<open>MarketTaker\<close> and \<open>TakerBehaviour\<close>, its price and cost,
  the key of its \<open>Ord\<close> and its stable identifier.
\<close>

record ('t, 'k, 'i, 'u) book_taker =
  ops :: "'t taker"
  t_price :: "'t \<Rightarrow> absolute_price"
  t_cost :: "'t \<Rightarrow> 'u"
  t_key :: "'t \<Rightarrow> 'k"
  t_id :: "'t \<Rightarrow> 'i"

record reserves =
  base :: u64
  quote :: u64

record liquidity =
  av_input :: u64
  av_output :: u64

text \<open>A make in progress: the maker before and after.\<close>

type_synonym 'm make = "'m \<times> 'm"

record ('m, 't, 'j, 'u) maker =
  m_id :: "'m \<Rightarrow> 'j"
  m_static_price :: "'m \<Rightarrow> absolute_price"
  m_effective_price :: "'m \<Rightarrow> 't \<Rightarrow> u64 on_side \<Rightarrow> absolute_price option"
  m_quality :: "'m \<Rightarrow> u128"
  m_cost :: "'m \<Rightarrow> 'u"
  m_liquidity :: "'m \<Rightarrow> reserves"
  m_available :: "'m \<Rightarrow> absolute_price on_side \<Rightarrow> liquidity option"
  m_is_active :: "'m \<Rightarrow> bool"
  m_swap :: "'m \<Rightarrow> u64 on_side \<Rightarrow> 'm"
  m_preserve :: "'m \<Rightarrow> 'm \<Rightarrow> 'm \<Rightarrow> 'm"
  m_swap_with_taker :: "'m \<Rightarrow> 't \<Rightarrow> u64 on_side \<Rightarrow> 't take_in_progress \<times> 'm make"

abbreviation k_side :: "('t, 'k, 'i, 'u) book_taker \<Rightarrow> 't \<Rightarrow> side" where
  "k_side T \<equiv> t_side (ops T)"


section \<open>Sets of takers\<close>

fun bs_insert :: "('t \<Rightarrow> 'k::linorder) \<Rightarrow> 't \<Rightarrow> 't list \<Rightarrow> 't list" where
  "bs_insert key x [] = [x]"
| "bs_insert key x (y # ys) =
     (if key x < key y then x # y # ys
      else if key x = key y then y # ys
      else y # bs_insert key x ys)"

definition bs_remove :: "('t \<Rightarrow> 'k::linorder) \<Rightarrow> 't \<Rightarrow> 't list \<Rightarrow> 't list" where
  "bs_remove key x ys = filter (\<lambda>y. key y \<noteq> key x) ys"

fun bs_first :: "'t list \<Rightarrow> 't option" where
  "bs_first [] = None"
| "bs_first (x # xs) = Some x"

record 't market_takers =
  asks :: "'t list"
  bids :: "'t list"

definition mt_new :: "'t market_takers" where
  "mt_new = \<lparr> asks = [], bids = [] \<rparr>"

definition mt_insert :: "('t, 'k::linorder, 'i, 'u) book_taker \<Rightarrow> 't \<Rightarrow> 't market_takers \<Rightarrow> 't market_takers" where
  "mt_insert T fr mt =
    (case k_side T fr of
       Bid \<Rightarrow> mt\<lparr> bids := bs_insert (t_key T) fr (bids mt) \<rparr>
     | Ask \<Rightarrow> mt\<lparr> asks := bs_insert (t_key T) fr (asks mt) \<rparr>)"

definition mt_remove :: "('t, 'k::linorder, 'i, 'u) book_taker \<Rightarrow> 't \<Rightarrow> 't market_takers \<Rightarrow> 't market_takers" where
  "mt_remove T fr mt =
    (case k_side T fr of
       Bid \<Rightarrow> mt\<lparr> bids := bs_remove (t_key T) fr (bids mt) \<rparr>
     | Ask \<Rightarrow> mt\<lparr> asks := bs_remove (t_key T) fr (asks mt) \<rparr>)"


section \<open>Takers on the time axis\<close>

record 't chronology =
  time_now :: u64
  active :: "'t market_takers"
  inactive :: "(u64, 't market_takers) btree_map"

definition chron_new :: "u64 \<Rightarrow> 't chronology" where
  "chron_new now = \<lparr> time_now = now, active = mt_new, inactive = [] \<rparr>"

definition inactive_insert :: "('t, 'k::linorder, 'i, 'u) book_taker \<Rightarrow> u64 \<Rightarrow> 't \<Rightarrow>
    (u64, 't market_takers) btree_map \<Rightarrow> (u64, 't market_takers) btree_map" where
  "inactive_insert T lb fr m =
    bt_insert lb (mt_insert T fr (case map_of m lb of None \<Rightarrow> mt_new | Some mt \<Rightarrow> mt)) m"

definition keep_updated :: "('t, 'k::linorder, 'i, 'u) book_taker \<Rightarrow> u64 \<Rightarrow> 't list \<Rightarrow> 't list \<Rightarrow> 't list" where
  "keep_updated T now frs slot =
    fold (\<lambda>fr acc. case t_with_updated_time (ops T) fr now of
                     Succ fr' \<Rightarrow> bs_insert (t_key T) fr' acc
                   | Term _ \<Rightarrow> acc) frs slot"

definition chron_advance_clocks :: "('t, 'k::linorder, 'i, 'u) book_taker \<Rightarrow> u64 \<Rightarrow> 't chronology \<Rightarrow> 't chronology" where
  "chron_advance_clocks T new_time c =
    (let new_slot = (case map_of (inactive c) new_time of None \<Rightarrow> mt_new | Some mt \<Rightarrow> mt)
     in \<lparr> time_now = new_time,
          active = \<lparr> asks = keep_updated T new_time (asks (active c)) (asks new_slot),
                     bids = keep_updated T new_time (bids (active c)) (bids new_slot) \<rparr>,
          inactive = bt_remove new_time (inactive c) \<rparr>)"

definition deferred :: "('t, 'k, 'i, 'u) book_taker \<Rightarrow> u64 \<Rightarrow> 't \<Rightarrow> u64 option" where
  "deferred T now fr =
    (case lower_bound (t_time_bounds (ops T) fr) of
       Some lb \<Rightarrow> if lb > now then Some lb else None
     | None \<Rightarrow> None)"

definition chron_remove_fragment :: "('t, 'k::linorder, 'i, 'u) book_taker \<Rightarrow> 't \<Rightarrow> 't chronology \<Rightarrow> 't chronology" where
  "chron_remove_fragment T fr c =
    (case deferred T (time_now c) fr of
       Some lb \<Rightarrow> (case map_of (inactive c) lb of
                     Some mt \<Rightarrow> c\<lparr> inactive := bt_insert lb (mt_remove T fr mt) (inactive c) \<rparr>
                   | None \<Rightarrow> c)
     | None \<Rightarrow> c\<lparr> active := mt_remove T fr (active c) \<rparr>)"

definition chron_add_fragment :: "('t, 'k::linorder, 'i, 'u) book_taker \<Rightarrow> 't \<Rightarrow> 't chronology \<Rightarrow> 't chronology" where
  "chron_add_fragment T fr c =
    (case deferred T (time_now c) fr of
       Some lb \<Rightarrow> c\<lparr> inactive := inactive_insert T lb fr (inactive c) \<rparr>
     | None \<Rightarrow> c\<lparr> active := mt_insert T fr (active c) \<rparr>)"


section \<open>Makers\<close>

record ('m, 'j) market_makers =
  mm_values :: "('j, 'm) hash_map"
  quality_index :: "(u128, 'j) btree_map"

definition mm_new :: "('m, 'j) market_makers" where
  "mm_new = \<lparr> mm_values = [], quality_index = [] \<rparr>"

definition update_pool :: "('m, 't, 'j, 'u) maker \<Rightarrow> 'm \<Rightarrow> ('m, 'j) market_makers \<Rightarrow> ('m, 'j) market_makers" where
  "update_pool M pool mm =
    (let qi = (case map_of (mm_values mm) (m_id M pool) of
                 Some old_pool \<Rightarrow> bt_remove (m_quality M old_pool) (quality_index mm)
               | None \<Rightarrow> quality_index mm)
     in \<lparr> mm_values = hm_insert (m_id M pool) pool (mm_values mm),
          quality_index = bt_insert (m_quality M pool) (m_id M pool) qi \<rparr>)"

definition remove_pool :: "('m, 't, 'j, 'u) maker \<Rightarrow> 'm \<Rightarrow> ('m, 'j) market_makers \<Rightarrow> ('m, 'j) market_makers" where
  "remove_pool M pool mm =
    \<lparr> mm_values = hm_remove (m_id M pool) (mm_values mm),
      quality_index = bt_remove (m_quality M pool) (quality_index mm) \<rparr>"


section \<open>The states of the book\<close>

record ('t, 'm, 'j) idle_state =
  takers :: "'t chronology"
  makers :: "('m, 'j) market_makers"

record ('t, 'm, 'j) partial_preview_state =
  takers_preview :: "'t chronology"
  consumed_active_takers :: "'t list"
  pp_stashed :: "'t list"
  pp_makers_intact :: "('m, 'j) market_makers"
  pp_makers_preview :: "('m, 'j) market_makers"

record ('t, 'm, 'j) preview_state =
  takers_intact :: "'t chronology"
  active_takers_preview :: "'t market_takers"
  pv_stashed :: "'t list"
  inactive_takers_changeset :: "(u64 \<times> 't) list"
  pv_makers_intact :: "('m, 'j) market_makers"
  pv_makers_preview :: "('m, 'j) market_makers"

datatype ('t, 'm, 'j) tlb_state =
  Idle "('t, 'm, 'j) idle_state"
| PartialPreview "('t, 'm, 'j) partial_preview_state"
| Preview "('t, 'm, 'j) preview_state"

datatype 't stashing_option = Stash "'t list" | Unstash

definition idle_new :: "u64 \<Rightarrow> ('t, 'm, 'j) idle_state" where
  "idle_new now = \<lparr> takers = chron_new now, makers = mm_new \<rparr>"

definition idle_advance_clocks where
  "idle_advance_clocks T new_time st = st\<lparr> takers := chron_advance_clocks T new_time (takers st) \<rparr>"

definition idle_add_fragment where
  "idle_add_fragment T fr st = st\<lparr> takers := chron_add_fragment T fr (takers st) \<rparr>"

definition idle_remove_fragment where
  "idle_remove_fragment T fr st = st\<lparr> takers := chron_remove_fragment T fr (takers st) \<rparr>"

definition idle_update_pool where
  "idle_update_pool M pool st = st\<lparr> makers := update_pool M pool (makers st) \<rparr>"

definition idle_remove_pool where
  "idle_remove_pool M pool st = st\<lparr> makers := remove_pool M pool (makers st) \<rparr>"

text \<open>Inserting a list of takers in the order of the list, and putting a stack back by \<open>pop\<close>.\<close>

definition mt_insert_all :: "('t, 'k::linorder, 'i, 'u) book_taker \<Rightarrow> 't list \<Rightarrow> 't market_takers \<Rightarrow> 't market_takers" where
  "mt_insert_all T frs mt = fold (mt_insert T) frs mt"

definition mt_remove_all :: "('t, 'k::linorder, 'i, 'u) book_taker \<Rightarrow> 't list \<Rightarrow> 't market_takers \<Rightarrow> 't market_takers" where
  "mt_remove_all T frs mt = fold (mt_remove T) frs mt"

definition pp_commit :: "('t, 'm, 'j) partial_preview_state \<Rightarrow> ('t, 'm, 'j) idle_state" where
  "pp_commit st = \<lparr> takers = takers_preview st, makers = pp_makers_preview st \<rparr>"

definition resume :: "'t chronology \<Rightarrow> 't list \<Rightarrow> ('m, 'j) market_makers \<Rightarrow> ('t, 'm, 'j) tlb_state" where
  "resume c stash mm =
    (if stash = [] then Idle \<lparr> takers = c, makers = mm \<rparr>
     else PartialPreview \<lparr> takers_preview = c, consumed_active_takers = [], pp_stashed = stash,
                           pp_makers_intact = mm, pp_makers_preview = mm \<rparr>)"

definition apply_stashing :: "('t, 'k::linorder, 'i, 'u) book_taker \<Rightarrow> 't stashing_option \<Rightarrow>
    't market_takers \<Rightarrow> 't list \<Rightarrow> 't market_takers \<times> 't list" where
  "apply_stashing T opt mt stash =
    (case opt of
       Stash to_stash \<Rightarrow> (mt_remove_all T to_stash mt, stash @ to_stash)
     | Unstash \<Rightarrow> (mt_insert_all T stash mt, []))"

definition pp_rollback :: "('t, 'k::linorder, 'i, 'u) book_taker \<Rightarrow> 't stashing_option \<Rightarrow>
    ('t, 'm, 'j) partial_preview_state \<Rightarrow> ('t, 'm, 'j) tlb_state" where
  "pp_rollback T opt st =
    (let restored = mt_insert_all T (rev (consumed_active_takers st)) (active (takers_preview st));
         (act, stash) = apply_stashing T opt restored (pp_stashed st)
     in resume ((takers_preview st)\<lparr> active := act \<rparr>) stash (pp_makers_intact st))"

definition pv_commit :: "('t, 'k::linorder, 'i, 'u) book_taker \<Rightarrow> ('t, 'm, 'j) preview_state \<Rightarrow> ('t, 'm, 'j) idle_state" where
  "pv_commit T st =
    \<lparr> takers = (takers_intact st)\<lparr>
        active := mt_insert_all T (pv_stashed st) (active_takers_preview st),
        inactive := fold (\<lambda>(time, t). inactive_insert T time t) (rev (inactive_takers_changeset st))
                      (inactive (takers_intact st)) \<rparr>,
      makers = pv_makers_preview st \<rparr>"

definition pv_rollback :: "('t, 'k::linorder, 'i, 'u) book_taker \<Rightarrow> 't stashing_option \<Rightarrow>
    ('t, 'm, 'j) preview_state \<Rightarrow> ('t, 'm, 'j) tlb_state" where
  "pv_rollback T opt st =
    (let (act, stash) = apply_stashing T opt (active (takers_intact st)) (pv_stashed st)
     in resume ((takers_intact st)\<lparr> active := act \<rparr>) stash (pv_makers_intact st))"

fun commit :: "('t, 'k::linorder, 'i, 'u) book_taker \<Rightarrow> ('t, 'm, 'j) tlb_state \<Rightarrow> ('t, 'm, 'j) tlb_state" where
  "commit T (Idle st) = Idle st"
| "commit T (PartialPreview st) = Idle (pp_commit st)"
| "commit T (Preview st) = Idle (pv_commit T st)"

fun rollback :: "('t, 'k::linorder, 'i, 'u) book_taker \<Rightarrow> 't stashing_option \<Rightarrow> ('t, 'm, 'j) tlb_state \<Rightarrow> ('t, 'm, 'j) tlb_state" where
  "rollback T opt (Idle st) = Idle st"
| "rollback T opt (PartialPreview st) = pp_rollback T opt st"
| "rollback T opt (Preview st) = pv_rollback T opt st"

definition move_into_partial_preview :: "('t, 'm, 'j) idle_state \<Rightarrow> ('t, 'm, 'j) partial_preview_state" where
  "move_into_partial_preview st =
    \<lparr> takers_preview = takers st, consumed_active_takers = [], pp_stashed = [],
      pp_makers_intact = makers st, pp_makers_preview = makers st \<rparr>"

text \<open>
  \<open>move_into_preview\<close> from \<open>Idle\<close> and from \<open>PartialPreview\<close>.  Its third arm panics and is not
  reached: the two callers use a \<open>Preview\<close> state as it is.
\<close>

definition idle_into_preview :: "('t, 'm, 'j) idle_state \<Rightarrow> ('t, 'm, 'j) preview_state" where
  "idle_into_preview st =
     \<lparr> takers_intact = takers st, active_takers_preview = active (takers st), pv_stashed = [],
       inactive_takers_changeset = [], pv_makers_intact = makers st, pv_makers_preview = makers st \<rparr>"

definition partial_into_preview :: "('t, 'k::linorder, 'i, 'u) book_taker \<Rightarrow> ('t, 'm, 'j) partial_preview_state \<Rightarrow> ('t, 'm, 'j) preview_state" where
  "partial_into_preview T st =
     \<lparr> takers_intact = (takers_preview st)\<lparr>
         active := mt_insert_all T (rev (consumed_active_takers st)) (active (takers_preview st)) \<rparr>,
       active_takers_preview = active (takers_preview st), pv_stashed = pp_stashed st,
       inactive_takers_changeset = [], pv_makers_intact = pp_makers_intact st,
       pv_makers_preview = pp_makers_preview st \<rparr>"

fun move_into_preview :: "('t, 'k::linorder, 'i, 'u) book_taker \<Rightarrow> ('t, 'm, 'j) tlb_state \<Rightarrow> ('t, 'm, 'j) preview_state" where
  "move_into_preview T (Idle st) = idle_into_preview st"
| "move_into_preview T (PartialPreview st) = partial_into_preview T st"
| "move_into_preview T (Preview st) = st"


section \<open>Reading the state\<close>

fun active_fragments :: "('t, 'm, 'j) tlb_state \<Rightarrow> 't market_takers" where
  "active_fragments (Idle st) = active (takers st)"
| "active_fragments (PartialPreview st) = active (takers_preview st)"
| "active_fragments (Preview st) = active_takers_preview st"

fun pools :: "('t, 'm, 'j) tlb_state \<Rightarrow> ('m, 'j) market_makers" where
  "pools (Idle st) = makers st"
| "pools (PartialPreview st) = pp_makers_preview st"
| "pools (Preview st) = pv_makers_preview st"

fun current_time :: "('t, 'm, 'j) tlb_state \<Rightarrow> u64" where
  "current_time (Idle st) = time_now (takers st)"
| "current_time (PartialPreview st) = time_now (takers_preview st)"
| "current_time (Preview st) = time_now (takers_intact st)"

fun stashed :: "('t, 'm, 'j) tlb_state \<Rightarrow> 't list" where
  "stashed (Idle st) = []"
| "stashed (PartialPreview st) = pp_stashed st"
| "stashed (Preview st) = pv_stashed st"

record book_size =
  num_active_takers :: usize
  num_active_makers :: usize
  num_idle_takers :: usize
  num_idle_makers :: usize

fun idle_slots :: "('t, 'm, 'j) tlb_state \<Rightarrow> usize" where
  "idle_slots (Idle st) = length (inactive (takers st))"
| "idle_slots (PartialPreview st) = length (inactive (takers_preview st))"
| "idle_slots (Preview st) = length (inactive (takers_intact st)) + length (inactive_takers_changeset st)"

definition book_size_of :: "('t, 'm, 'j) tlb_state \<Rightarrow> book_size" where
  "book_size_of st =
    \<lparr> num_active_takers = length (asks (active_fragments st)) + length (bids (active_fragments st)),
      num_active_makers = length (mm_values (pools st)),
      num_idle_takers = idle_slots st, num_idle_makers = 0 \<rparr>"

record price_range =
  max_ask_price :: "absolute_price option"
  min_bid_price :: "absolute_price option"

definition prices_on :: "('t, 'k, 'i, 'u) book_taker \<Rightarrow> side \<Rightarrow> 't list \<Rightarrow> absolute_price list" where
  "prices_on T s frs = map (t_price T) (filter (\<lambda>tk. k_side T tk = s) frs)"

fun list_min :: "'a::linorder list \<Rightarrow> 'a option" where
  "list_min [] = None"
| "list_min (x # xs) = Some (fold min xs x)"

fun list_max :: "'a::linorder list \<Rightarrow> 'a option" where
  "list_max [] = None"
| "list_max (x # xs) = Some (fold max xs x)"

definition allowed_price_range :: "('t, 'k, 'i, 'u) book_taker \<Rightarrow> ('t, 'm, 'j) tlb_state \<Rightarrow> price_range" where
  "allowed_price_range T st =
    (case st of
       Idle _ \<Rightarrow> \<lparr> max_ask_price = None, min_bid_price = None \<rparr>
     | _ \<Rightarrow> \<lparr> max_ask_price = list_min (prices_on T Ask (stashed st)),
              min_bid_price = list_max (prices_on T Bid (stashed st)) \<rparr>)"

text \<open>\<open>test_bid\<close> reads \<open>max_ask_price\<close>, as the code does.\<close>

definition test_ask :: "('t, 'k, 'i, 'u) book_taker \<Rightarrow> price_range \<Rightarrow> 't \<Rightarrow> 't option" where
  "test_ask T rng ask =
    (case max_ask_price rng of
       None \<Rightarrow> Some ask
     | Some max_ask \<Rightarrow> if t_price T ask \<le> max_ask then Some ask else None)"

definition test_bid :: "('t, 'k, 'i, 'u) book_taker \<Rightarrow> price_range \<Rightarrow> 't \<Rightarrow> 't option" where
  "test_bid T rng bid =
    (case max_ask_price rng of
       None \<Rightarrow> Some bid
     | Some min_bid \<Rightarrow> if t_price T bid \<ge> min_bid then Some bid else None)"

definition best_taker_price :: "('t, 'k, 'i, 'u) book_taker \<Rightarrow> side \<Rightarrow> ('t, 'm, 'j) tlb_state \<Rightarrow> absolute_price on_side option" where
  "best_taker_price T s st =
    map_option (\<lambda>fr. wrap s (t_price T fr))
      (bs_first (case s of Bid \<Rightarrow> bids (active_fragments st) | Ask \<Rightarrow> asks (active_fragments st)))"

text \<open>\<open>Iterator::max_by_key\<close> returns the last maximal element, \<open>min_by_key\<close> the first minimal one.\<close>

fun max_by_key :: "('a \<Rightarrow> 'b::linorder) \<Rightarrow> 'a list \<Rightarrow> 'a option" where
  "max_by_key f [] = None"
| "max_by_key f (x # xs) = Some (fold (\<lambda>y acc. if f y \<ge> f acc then y else acc) xs x)"

fun min_by_key :: "('a \<Rightarrow> 'b::linorder) \<Rightarrow> 'a list \<Rightarrow> 'a option" where
  "min_by_key f [] = None"
| "min_by_key f (x # xs) = Some (fold (\<lambda>y acc. if f y < f acc then y else acc) xs x)"

definition best_market_maker :: "('m, 't, 'j, 'u) maker \<Rightarrow> ('t, 'm, 'j) tlb_state \<Rightarrow> 'm option" where
  "best_market_maker M st = max_by_key (m_quality M) (map snd (mm_values (pools st)))"


section \<open>Choosing a taker\<close>

text \<open>
  Prices and distances are exact rationals.  The source computes \<open>Ratio\<close> over \<open>u128\<close> and \<open>i128\<close>, where a sum or difference whose common denominator leaves 128 bits panics
  or wraps, and the reciprocal of a bid input of zero panics; the model has no such failure and takes the reciprocal of zero as zero.
\<close>

definition by_volume :: "('t, 'k, 'i, 'u) book_taker \<Rightarrow> 't \<Rightarrow> 't \<Rightarrow> absolute_price option \<Rightarrow> 't" where
  "by_volume T ask bid spot =
    (let ask_vol = of_nat (unat (t_input (ops T) ask)) :: rat;
         bid_vol = 1 / of_nat (unat (t_input (ops T) bid)) * (case spot of Some p \<Rightarrow> p | None \<Rightarrow> t_price T bid)
     in if ask_vol > bid_vol then ask else bid)"

definition choose_by_distance :: "('t, 'k, 'i, 'u) book_taker \<Rightarrow> absolute_price \<Rightarrow> price_range \<Rightarrow> 't market_takers \<Rightarrow> 't option" where
  "choose_by_distance T spot rng frs =
    (let best_bid = Option.bind (bs_first (bids frs)) (test_bid T rng);
         best_ask = Option.bind (bs_first (asks frs)) (test_ask T rng)
     in case (best_ask, best_bid) of
          (Some ask, Some bid) \<Rightarrow>
            let distance_from_ask = spot - t_price T ask;
                distance_from_bid = (spot - t_price T bid) * - 1
            in if distance_from_ask > distance_from_bid then Some ask
               else if distance_from_ask < distance_from_bid then Some bid
               else Some (by_volume T ask bid (Some spot))
        | (Some taker, _) \<Rightarrow> Some taker
        | (_, Some taker) \<Rightarrow> Some taker
        | _ \<Rightarrow> None)"

definition max_by_distance_to_spot :: "('t, 'k::linorder, 'i, 'u) book_taker \<Rightarrow> absolute_price \<Rightarrow> price_range \<Rightarrow>
    't market_takers \<Rightarrow> 't market_takers \<times> 't option" where
  "max_by_distance_to_spot T spot rng frs =
    (case choose_by_distance T spot rng frs of
       Some taker \<Rightarrow> (mt_remove T taker frs, Some taker)
     | None \<Rightarrow> (frs, None))"

definition try_pick_fr :: "('t, 'k::linorder, 'i, 'u) book_taker \<Rightarrow> side \<Rightarrow> ('t \<Rightarrow> bool) \<Rightarrow>
    't market_takers \<Rightarrow> 't market_takers \<times> 't option" where
  "try_pick_fr T s test frs =
    (case s of
       Bid \<Rightarrow> (case bids frs of
                 [] \<Rightarrow> (frs, None)
               | fr # rest \<Rightarrow> if test fr then (frs\<lparr> bids := rest \<rparr>, Some fr)
                              else (frs\<lparr> bids := bs_insert (t_key T) fr rest \<rparr>, None))
     | Ask \<Rightarrow> (case asks frs of
                 [] \<Rightarrow> (frs, None)
               | fr # rest \<Rightarrow> if test fr then (frs\<lparr> asks := rest \<rparr>, Some fr)
                              else (frs\<lparr> asks := bs_insert (t_key T) fr rest \<rparr>, None)))"

text \<open>\<open>OrderWeight\<close>: the higher fee weighs more, then the lower cost; \<open>weight_ge\<close> is \<open>>=\<close> on it.\<close>

definition weight_ge :: "('t, 'k, 'i, 'u::ord) book_taker \<Rightarrow> 't \<Rightarrow> 't \<Rightarrow> bool" where
  "weight_ge T a b =
    (let fa = t_fee (ops T) a; fb = t_fee (ops T) b
     in if fa = fb then t_cost T a \<le> t_cost T b else fa > fb)"

definition pick_best_fr_either :: "('t, 'k::linorder, 'i, 'u::ord) book_taker \<Rightarrow> absolute_price option \<Rightarrow>
    't market_takers \<Rightarrow> 't market_takers \<times> 't option" where
  "pick_best_fr_either T index_price frs =
    (case (bids frs, asks frs) of
       (bid # bs, ask # as) \<Rightarrow>
         let bid_is_underpriced = (case index_price of Some ip \<Rightarrow> t_price T bid < ip | None \<Rightarrow> False);
             ask_is_overpriced = (case index_price of Some ip \<Rightarrow> t_price T ask > ip | None \<Rightarrow> False);
             bid_is_heavier = weight_ge T bid ask
         in if bid_is_heavier \<and> \<not> bid_is_underpriced \<or> ask_is_overpriced
            then (\<lparr> asks = bs_insert (t_key T) ask as, bids = bs \<rparr>, Some bid)
            else (\<lparr> asks = as, bids = bs_insert (t_key T) bid bs \<rparr>, Some ask)
     | (bid # bs, []) \<Rightarrow> (frs\<lparr> bids := bs \<rparr>, Some bid)
     | ([], ask # as) \<Rightarrow> (frs\<lparr> asks := as \<rparr>, Some ask)
     | ([], []) \<Rightarrow> (frs, None))"

fun pick_active_taker :: "('t market_takers \<Rightarrow> 't market_takers \<times> 't option) \<Rightarrow>
    ('t, 'm, 'j) tlb_state \<Rightarrow> ('t, 'm, 'j) tlb_state \<times> 't option" where
  "pick_active_taker f (Idle st) =
     (let (act, choice) = f (active (takers st));
          st' = st\<lparr> takers := (takers st)\<lparr> active := act \<rparr> \<rparr>
      in case choice of
           None \<Rightarrow> (Idle st', None)
         | Some c \<Rightarrow> (PartialPreview ((move_into_partial_preview st')\<lparr> consumed_active_takers := [c] \<rparr>), Some c))"
| "pick_active_taker f (PartialPreview st) =
     (let (act, choice) = f (active (takers_preview st));
          st' = st\<lparr> takers_preview := (takers_preview st)\<lparr> active := act \<rparr> \<rparr>
      in case choice of
           None \<Rightarrow> (PartialPreview st', None)
         | Some c \<Rightarrow> (PartialPreview (st'\<lparr> consumed_active_takers := consumed_active_takers st' @ [c] \<rparr>), Some c))"
| "pick_active_taker f (Preview st) =
     (let (act, choice) = f (active_takers_preview st) in (Preview (st\<lparr> active_takers_preview := act \<rparr>), choice))"

definition try_pick_taker :: "('t, 'k::linorder, 'i, 'u) book_taker \<Rightarrow> side \<Rightarrow> ('t \<Rightarrow> bool) \<Rightarrow>
    ('t, 'm, 'j) tlb_state \<Rightarrow> ('t, 'm, 'j) tlb_state \<times> 't option" where
  "try_pick_taker T s test st = pick_active_taker (try_pick_fr T s test) st"

text \<open>Adding a taker or a maker to the preview.\<close>

definition preview_add_taker :: "('t, 'k::linorder, 'i, 'u) book_taker \<Rightarrow> u64 \<Rightarrow> 't \<Rightarrow> ('t, 'm, 'j) preview_state \<Rightarrow> ('t, 'm, 'j) preview_state" where
  "preview_add_taker T time taker p =
    (case deferred T time taker of
       Some lb \<Rightarrow> p\<lparr> inactive_takers_changeset := inactive_takers_changeset p @ [(lb, taker)] \<rparr>
     | None \<Rightarrow> p\<lparr> active_takers_preview := mt_insert T taker (active_takers_preview p) \<rparr>)"

definition pre_add_taker :: "('t, 'k::linorder, 'i, 'u) book_taker \<Rightarrow> 't \<Rightarrow> ('t, 'm, 'j) tlb_state \<Rightarrow> ('t, 'm, 'j) tlb_state" where
  "pre_add_taker T taker st = Preview (preview_add_taker T (current_time st) taker (move_into_preview T st))"

definition pre_add_maker :: "('t, 'k::linorder, 'i, 'u) book_taker \<Rightarrow> ('m, 't, 'j, 'u) maker \<Rightarrow> 'm \<Rightarrow> ('t, 'm, 'j) tlb_state \<Rightarrow> ('t, 'm, 'j) tlb_state" where
  "pre_add_maker T M pool st =
    (let p = move_into_preview T st
     in Preview (p\<lparr> pv_makers_preview := update_pool M pool (pv_makers_preview p) \<rparr>))"


section \<open>Choosing a maker\<close>

record fill_preview =
  fp_price :: absolute_price
  fp_input :: u64

definition dummy_swap :: "('m, 't, 'j, 'u) maker \<Rightarrow> 't \<Rightarrow> u64 \<Rightarrow> side \<Rightarrow> 'm \<Rightarrow> ('j \<times> fill_preview) option" where
  "dummy_swap M taker demand s mk =
    map_option (\<lambda>real_price. (m_id M mk, \<lparr> fp_price = real_price, fp_input = demand \<rparr>))
      (m_effective_price M mk taker (wrap s demand))"

text \<open>
  The binary search for the largest input whose price is acceptable.  The interval shrinks in every
  round, except for the whole rng \<open>0 .. u64::MAX\<close>, where \<open>high - low + 1\<close> wraps to zero, the
  candidate is \<open>low\<close> and the loop never ends: the result \<open>None\<close>.
\<close>

function search_input :: "(u64 \<Rightarrow> absolute_price option) \<Rightarrow> (absolute_price \<Rightarrow> bool) \<Rightarrow> u64 \<Rightarrow> u64 \<Rightarrow>
    (u64 \<times> absolute_price) option \<Rightarrow> (u64 \<times> absolute_price) option option" where
  "search_input price_at accept low high best =
    (if low < high then
       if high - low + 1 = 0 then None
       else
         let candidate = low + (high - low + 1) div 2 in
         case price_at candidate of
           Some p \<Rightarrow> if accept p then search_input price_at accept candidate high (Some (candidate, p))
                     else search_input price_at accept low (candidate - 1) best
         | None \<Rightarrow> search_input price_at accept low (candidate - 1) best
     else Some best)"
  by auto

lemma midpoint:
  fixes low high :: u64
  assumes "low < high" "high - low + 1 \<noteq> 0"
  shows "unat (low + (high - low + 1) div 2) = unat low + (unat high - unat low + 1) div 2"
    and "low < low + (high - low + 1) div 2" "low + (high - low + 1) div 2 \<le> high"
proof -
  have d: "unat (high - low) = unat high - unat low" using assms(1) by (intro unat_sub) simp
  have s: "unat (high - low + 1) = unat high - unat low + 1" using assms(2) d unatSuc [of "high - low"] by (simp add: add.commute)
  have lt: "unat low < unat high" "unat high < 2 ^ 64"
    using assms(1) by (simp_all add: word_less_nat_alt u64_lt)
  have "unat low + (unat high - unat low + 1) div 2 \<le> unat high" using lt by linarith
  then show u: "unat (low + (high - low + 1) div 2) = unat low + (unat high - unat low + 1) div 2"
    using lt s by (subst unat_add_lem [THEN iffD1]) (simp_all add: unat_div)
  show "low < low + (high - low + 1) div 2" "low + (high - low + 1) div 2 \<le> high"
    unfolding word_less_nat_alt word_le_nat_alt u using lt by linarith+
qed

lemma midpoint_narrows:
  fixes low high :: u64
  assumes "low < high" "high - low + 1 \<noteq> 0" "c = low + (high - low + 1) div 2"
  shows "unat high - unat c < unat high - unat low" "unat (c - 1) - unat low < unat high - unat low"
proof -
  note m = midpoint [OF assms(1,2), folded assms(3)]
  have lt: "unat low < unat c" "unat c \<le> unat high" using m(2,3) by (simp_all add: word_less_nat_alt word_le_nat_alt)
  then show "unat high - unat c < unat high - unat low" by linarith
  have "unat (c - 1) = unat c - 1" using lt(1) by (intro unat_minus_one) auto
  then show "unat (c - 1) - unat low < unat high - unat low" using lt by linarith
qed

termination search_input
  by (relation "measure (\<lambda>(_, _, low, high, _). unat high - unat low)") (simp_all add: midpoint_narrows)

definition try_optimized_swap :: "('m, 't, 'j, 'u) maker \<Rightarrow> 't \<Rightarrow> absolute_price \<Rightarrow> u64 \<Rightarrow> side \<Rightarrow> 'm \<Rightarrow>
    ('j \<times> fill_preview) option option" where
  "try_optimized_swap M taker price demand s mk =
    (case m_available M mk (wrap s price) of
       None \<Rightarrow> Some None
     | Some av \<Rightarrow>
         let inp = av_input av; out = av_output av;
             price_at = (\<lambda>n. m_effective_price M mk taker (wrap s n));
             accept = overlaps (wrap s price);
             preview = (\<lambda>n p. if n > 0 \<and> n \<le> demand \<and> accept p
                                then Some (m_id M mk, \<lparr> fp_price = p, fp_input = n \<rparr>) else None)
         in case (case price_at inp of
                    Some p \<Rightarrow> Some p
                  | None \<Rightarrow> (case s of Bid \<Rightarrow> ap_new inp out | Ask \<Rightarrow> ap_new out inp)) of
              None \<Rightarrow> Some None
            | Some p \<Rightarrow>
                if inp > 0 \<and> inp \<le> demand \<and> \<not> accept p
                then Option.bind (search_input price_at accept 0 inp None)
                       (\<lambda>best. Some (Option.bind best (\<lambda>(n, p). preview n p)))
                else Some (preview inp p))"

text \<open>\<open>filter_map\<close> over the makers with a function that may not return.\<close>

fun filter_map :: "('a \<Rightarrow> 'b option option) \<Rightarrow> 'a list \<Rightarrow> 'b list option" where
  "filter_map f [] = Some []"
| "filter_map f (x # xs) =
     Option.bind (f x) (\<lambda>y. Option.bind (filter_map f xs) (\<lambda>ys.
       Some (case y of Some b \<Rightarrow> b # ys | None \<Rightarrow> ys)))"

definition preview_swap :: "('m, 't, 'j, 'u) maker \<Rightarrow> absolute_price \<Rightarrow> u64 \<Rightarrow> side \<Rightarrow> bool \<Rightarrow> 't \<Rightarrow> 'm \<Rightarrow>
    ('j \<times> fill_preview) option option" where
  "preview_swap M price demand s optimized taker mk =
    (if optimized then
       Option.bind (try_optimized_swap M taker price demand s mk) (\<lambda>sel.
         Some (case sel of Some x \<Rightarrow> Some x | None \<Rightarrow> dummy_swap M taker demand s mk))
     else Some (dummy_swap M taker demand s mk))"

definition preselect_market_maker :: "('m, 't, 'j, 'u) maker \<Rightarrow> absolute_price \<Rightarrow> u64 \<Rightarrow> side \<Rightarrow> bool \<Rightarrow> 't \<Rightarrow>
    ('t, 'm, 'j) tlb_state \<Rightarrow> ('j \<times> fill_preview) option option" where
  "preselect_market_maker M price demand s optimized taker st =
    Option.bind (filter_map (preview_swap M price demand s optimized taker)
        (filter (m_is_active M) (map snd (mm_values (pools st))))) (\<lambda>previews.
      let ps = filter (\<lambda>x. overlaps (wrap s price) (fp_price (snd x))) previews
      in Some (case s of
                 Bid \<Rightarrow> min_by_key (\<lambda>x. fp_price (snd x)) ps
               | Ask \<Rightarrow> max_by_key (\<lambda>x. fp_price (snd x)) ps))"

fun pick_maker :: "(('m, 'j) market_makers \<Rightarrow> ('m, 'j) market_makers \<times> 'm option) \<Rightarrow>
    ('t, 'm, 'j) tlb_state \<Rightarrow> ('t, 'm, 'j) tlb_state \<times> 'm option" where
  "pick_maker f (Idle st) =
     (let busy = move_into_partial_preview st; (mm, r) = f (pp_makers_preview busy)
      in (PartialPreview (busy\<lparr> pp_makers_preview := mm \<rparr>), r))"
| "pick_maker f (PartialPreview st) =
     (let (mm, r) = f (pp_makers_preview st) in (PartialPreview (st\<lparr> pp_makers_preview := mm \<rparr>), r))"
| "pick_maker f (Preview st) =
     (let (mm, r) = f (pv_makers_preview st) in (Preview (st\<lparr> pv_makers_preview := mm \<rparr>), r))"

definition pick_maker_by_id :: "'j \<Rightarrow> ('t, 'm, 'j) tlb_state \<Rightarrow> ('t, 'm, 'j) tlb_state \<times> 'm option" where
  "pick_maker_by_id pid =
    pick_maker (\<lambda>mm. (mm\<lparr> mm_values := hm_remove pid (mm_values mm) \<rparr>, map_of (mm_values mm) pid))"

end
