(* ===== verification/Book_Match.thy ===== *)
theory Book_Match
  imports Book_State
begin

text \<open>
  Matchmaking in the liquidity book (\<open>liquidity_book/mod.rs\<close> and the recipes of
  \<open>liquidity_book/core.rs\<close>): settling a price between two takers, aggregating takes and makes into
  an attempt, turning an attempt into a recipe, and \<open>attempt\<close>, the two nested loops that produce a
  recipe.  The result of a loop is an option whose \<open>None\<close> is a loop that does not end; inside it a panic
  is the value \<open>Panic\<close>.
\<close>

section \<open>Prices and amounts\<close>

text \<open>\<open>U256\<close> arithmetic does not overflow here; the division by a zero numerator and \<open>as_u64\<close> of a large number panic.\<close>

definition floor_u64 :: "rat \<Rightarrow> (unit, u64) res" where
  "floor_u64 x = (if \<lfloor>x\<rfloor> < 2 ^ 64 then Ok (word_of_int \<lfloor>x\<rfloor>) else Panic)"

fun linear_output_unsafe :: "u64 \<Rightarrow> absolute_price on_side \<Rightarrow> (unit, u64) res" where
  "linear_output_unsafe n (OnBid p) = (if p = 0 then Panic else floor_u64 (of_nat (unat n) / p))"
| "linear_output_unsafe n (OnAsk p) = floor_u64 (of_nat (unat n) * p)"

definition MAX_BIAS_PERCENT :: rat where
  "MAX_BIAS_PERCENT = 3"

definition clamp :: "'a::linorder \<Rightarrow> 'a \<Rightarrow> 'a \<Rightarrow> 'a" where
  "clamp v low high = (if v \<ge> low \<and> v \<le> high then v else if v < low then low else high)"

text \<open>\<open>checked_div\<close> by zero gives the bias 0, as \<open>div\<close> does.\<close>

definition bias_percent :: "u64 \<Rightarrow> u64 \<Rightarrow> int" where
  "bias_percent fee_ask fee_bid =
    (if fee_ask < fee_bid then - int (unat fee_ask * 100 div unat fee_bid)
     else int (unat fee_bid * 100 div unat fee_ask))"

definition settle_price :: "('t, 'k, 'i, 'u) book_taker \<Rightarrow> 't \<Rightarrow> 't \<Rightarrow> absolute_price option \<Rightarrow> absolute_price" where
  "settle_price T ask bid index_price =
    (let price_ask = t_price T ask; price_bid = t_price T bid; d = price_bid - price_ask;
         pivotal_price = (case index_price of
                            Some p \<Rightarrow> clamp p price_ask price_bid
                          | None \<Rightarrow> price_ask + d / 2);
         max_deviation = pivotal_price * (MAX_BIAS_PERCENT / 100);
         deviation = max_deviation * (of_int (bias_percent (t_fee (ops T) ask) (t_fee (ops T) bid)) / 100)
     in clamp (pivotal_price + deviation) price_ask price_bid)"

definition execute_with_taker :: "('t, 'k, 'i, 'u) book_taker \<Rightarrow> 't \<Rightarrow> 't \<Rightarrow> ('t \<Rightarrow> 't \<Rightarrow> absolute_price) \<Rightarrow>
    (unit, 't take_in_progress \<times> 't take_in_progress) res" where
  "execute_with_taker T target_taker counter_taker matchmaker =
    (let (ask, bid) = (case k_side T target_taker of
                         Ask \<Rightarrow> (target_taker, counter_taker)
                       | Bid \<Rightarrow> (counter_taker, target_taker));
         price = matchmaker ask bid;
         quote_input = t_input (ops T) bid;
         supply_base = t_input (ops T) ask
     in and_then (linear_output_unsafe quote_input (OnBid price)) (\<lambda>demand_base.
        and_then (if supply_base > demand_base then Ok (quote_input, demand_base)
                  else if supply_base < demand_base then
                    and_then (linear_output_unsafe supply_base (OnAsk price)) (\<lambda>quote_executed. Ok (quote_executed, supply_base))
                  else Ok (quote_input, demand_base)) (\<lambda>(q, b).
          Ok (\<lparr> target = ask, result = t_with_applied_trade (ops T) ask b q \<rparr>,
              \<lparr> target = bid, result = t_with_applied_trade (ops T) bid q b \<rparr>))))"


section \<open>Makes\<close>

definition mk_trade_side :: "('m, 't, 'j, 'u) maker \<Rightarrow> 'm make \<Rightarrow> side option" where
  "mk_trade_side M mk =
    (let r0 = m_liquidity M (fst mk); r1 = m_liquidity M (snd mk)
     in if base r1 < base r0 \<and> quote r1 > quote r0 then Some Bid
        else if base r1 > base r0 \<and> quote r1 < quote r0 then Some Ask
        else None)"

definition mk_gain :: "('m, 't, 'j, 'u) maker \<Rightarrow> 'm make \<Rightarrow> u64 on_side option" where
  "mk_gain M mk =
    (let r0 = m_liquidity M (fst mk); r1 = m_liquidity M (snd mk)
     in case checked_sub (base r1) (base r0) of
          Some d \<Rightarrow> Some (OnAsk d)
        | None \<Rightarrow> map_option OnBid (checked_sub (quote r1) (quote r0)))"

definition mk_loss :: "('m, 't, 'j, 'u) maker \<Rightarrow> 'm make \<Rightarrow> u64 on_side option" where
  "mk_loss M mk =
    (let r0 = m_liquidity M (fst mk); r1 = m_liquidity M (snd mk)
     in case checked_sub (base r0) (base r1) of
          Some d \<Rightarrow> Some (OnBid d)
        | None \<Rightarrow> map_option OnAsk (checked_sub (quote r0) (quote r1)))"

definition mk_is_zero :: "('m, 't, 'j, 'u) maker \<Rightarrow> 'm make \<Rightarrow> bool" where
  "mk_is_zero M mk = (mk_trade_side M mk = None)"

record excess =
  ex_base :: u64
  ex_quote :: u64

definition mk_finalized :: "('m, 't, 'j, 'u) maker \<Rightarrow> 'm make \<Rightarrow> ('m make \<times> excess) option" where
  "mk_finalized M mk =
    (let tgt = fst mk; nx = snd mk; r0 = m_liquidity M tgt; r1 = m_liquidity M nx
     in case checked_sub (base r1) (base r0) of
          Some trade_input \<Rightarrow>
            let rebalanced = m_preserve M tgt nx (m_swap M tgt (OnAsk trade_input))
            in Option.bind (checked_sub (quote r1) (quote (m_liquidity M rebalanced))) (\<lambda>excess_quote.
                 Some ((tgt, rebalanced), \<lparr> ex_base = 0, ex_quote = excess_quote \<rparr>))
        | None \<Rightarrow>
            Option.bind (checked_sub (quote r1) (quote r0)) (\<lambda>trade_input.
              let rebalanced = m_preserve M tgt nx (m_swap M tgt (OnBid trade_input))
              in Option.bind (checked_sub (base r1) (base (m_liquidity M rebalanced))) (\<lambda>excess_base.
                   Some ((tgt, rebalanced), \<lparr> ex_base = excess_base, ex_quote = 0 \<rparr>))))"

definition default_swap_with_taker :: "'t taker \<Rightarrow> ('m, 't, 'j, 'u) maker \<Rightarrow> 't \<Rightarrow> 'm \<Rightarrow> u64 on_side \<Rightarrow>
    't take_in_progress \<times> 'm make" where
  "default_swap_with_taker T M target_taker mk inp =
    (let mt = (mk, m_swap M mk inp);
         trade_output = (case mk_loss M mt of Some v \<Rightarrow> on_side_unwrap v | None \<Rightarrow> 0)
     in (\<lparr> target = target_taker,
           result = t_with_applied_trade T target_taker (on_side_unwrap inp) trade_output \<rparr>, mt))"

definition execute_with_maker :: "('m, 't, 'j, 'u) maker \<Rightarrow> 't \<Rightarrow> 'm \<Rightarrow> u64 on_side \<Rightarrow> 't take_in_progress \<times> 'm make" where
  "execute_with_maker M target_taker mk chunk_size = m_swap_with_taker M mk target_taker chunk_size"


section \<open>Attempts\<close>

record ('t, 'm, 'i, 'j, 'u) attempt =
  takes :: "('i, 't take_in_progress) hash_map"
  makes :: "('j, 'm make) hash_map"
  ordering :: "'i list"
  execution_units_consumed :: 'u
  num_aggregated_makes :: usize

definition empty_attempt :: "('t, 'm, 'i, 'j, 'u::zero) attempt" where
  "empty_attempt = \<lparr> takes = [], makes = [], ordering = [], execution_units_consumed = 0, num_aggregated_makes = 0 \<rparr>"

definition is_complete :: "('t, 'm, 'i, 'j, 'u) attempt \<Rightarrow> bool" where
  "is_complete a = (length (takes a) > 1 \<or> length (takes a) = 1 \<and> length (makes a) > 0)"

definition add_take :: "('t, 'k, 'i, 'u::plus) book_taker \<Rightarrow> 't take_in_progress \<Rightarrow> ('t, 'm, 'i, 'j, 'u) attempt \<Rightarrow> ('t, 'm, 'i, 'j, 'u) attempt" where
  "add_take T tk a =
    (let sid = t_id T (target tk)
     in case map_of (takes a) sid of
          None \<Rightarrow> a\<lparr> takes := hm_insert sid tk (takes a),
                    ordering := ordering a @ [sid],
                    execution_units_consumed := execution_units_consumed a + t_cost T (target tk) \<rparr>
        | Some existing \<Rightarrow> a\<lparr> takes := hm_insert sid (trans_combine existing tk) (takes a) \<rparr>)"

definition add_make :: "('m, 't, 'j, 'u::plus) maker \<Rightarrow> 'm make \<Rightarrow> ('t, 'm, 'i, 'j, 'u) attempt \<Rightarrow> ('t, 'm, 'i, 'j, 'u) attempt" where
  "add_make M mk a =
    (let sid = m_id M (fst mk)
     in case map_of (makes a) sid of
          None \<Rightarrow> a\<lparr> makes := hm_insert sid mk (makes a),
                    execution_units_consumed := execution_units_consumed a + m_cost M (fst mk) \<rparr>
        | Some acc \<Rightarrow> a\<lparr> makes := hm_insert sid (fst acc, snd mk) (makes a),
                         num_aggregated_makes := num_aggregated_makes a + 1 \<rparr>)"

text \<open>\<open>finalized\<close>: the excess of the rebalanced makes goes to the first take of each side.\<close>

fun finalize_makes :: "('m, 't, 'j, 'u) maker \<Rightarrow> ('j, 'm make) hash_map \<Rightarrow> (('j, 'm make) hash_map \<times> u64 \<times> u64) option" where
  "finalize_makes M [] = Some ([], 0, 0)"
| "finalize_makes M ((sid, mk) # ms) =
     Option.bind (mk_finalized M mk) (\<lambda>(fm, ex).
     Option.bind (finalize_makes M ms) (\<lambda>(fms, b, q).
       Some ((sid, fm) # fms, ex_base ex + b, ex_quote ex + q)))"

fun finalize_takes :: "('t, 'k, 'i, 'u) book_taker \<Rightarrow> ('i, 't take_in_progress) hash_map \<Rightarrow> u64 \<Rightarrow> u64 \<Rightarrow>
    (unit, ('i, 't take_in_progress) hash_map \<times> u64 \<times> u64) res" where
  "finalize_takes T [] b q = Ok ([], b, q)"
| "finalize_takes T ((sid, tk) # ts) b q =
     (let (ex, b', q') = (case k_side T (target tk) of Bid \<Rightarrow> (b, 0, q) | Ask \<Rightarrow> (q, b, 0))
      in and_then (finalized (ops T) tk ex) (\<lambda>ft.
         and_then (finalize_takes T ts b' q') (\<lambda>(fts, b, q). Ok ((sid, ft) # fts, b, q))))"

record ('t, 'm, 'i, 'j) final_recipe =
  fr_takes :: "('i, 't take_in_progress) hash_map"
  fr_makes :: "('j, 'm make) hash_map"
  fr_ordering :: "'i list"

definition attempt_finalized :: "('t, 'k, 'i, 'u) book_taker \<Rightarrow> ('m, 't, 'j, 'u) maker \<Rightarrow> ('t, 'm, 'i, 'j, 'u) attempt \<Rightarrow>
    (unit, ('t, 'm, 'i, 'j) final_recipe option) res" where
  "attempt_finalized T M a =
    (case finalize_makes M (makes a) of
       None \<Rightarrow> Ok None
     | Some (ms, b, q) \<Rightarrow>
         and_then (finalize_takes T (takes a) b q) (\<lambda>(ts, b, q).
           Ok (if b = 0 \<and> q = 0 then Some \<lparr> fr_takes = ts, fr_makes = ms, fr_ordering = ordering a \<rparr> else None)))"


section \<open>Recipes\<close>

fun unsatisfied_fragments :: "('t, 'k, 'i, 'u) book_taker \<Rightarrow> ('i, 't take_in_progress) hash_map \<Rightarrow> (unit, 't list) res" where
  "unsatisfied_fragments T [] = Ok []"
| "unsatisfied_fragments T ((sid, tk) # ts) =
     and_then (tip_added_output (ops T) tk) (\<lambda>added.
     and_then (unsatisfied_fragments T ts) (\<lambda>us.
       Ok (if added < t_min_marginal_output (ops T) (target tk) then target tk # us else us)))"

definition BASE_TAKE_TO_MAKE_RATIO :: rat where
  "BASE_TAKE_TO_MAKE_RATIO = 1 / 2"

definition check_recipe_complexity :: "('t, 'k, 'i, 'u) book_taker \<Rightarrow> u64 \<Rightarrow> ('t, 'm, 'i, 'j) final_recipe \<Rightarrow> bool" where
  "check_recipe_complexity T base_step_budget r =
    (let num_takes = length (fr_takes r); num_makes = length (fr_makes r)
     in if num_makes > 0 then
          let takes_to_makes = (of_nat num_takes / of_nat num_makes :: rat);
              base_budget = max base_step_budget 1;
              total_budget = fold (\<lambda>(_, tk) acc. acc + t_consumable_budget (ops T) (target tk)) (fr_takes r) 0;
              budget_ratio = of_nat (unat total_budget) / of_nat (unat base_budget)
          in takes_to_makes * budget_ratio \<ge> BASE_TAKE_TO_MAKE_RATIO
        else True)"

type_synonym ('t, 'm) matchmaking_recipe = "('t take_in_progress + 'm make) list"

datatype 't match_failure = NoMatch | DissatisfiedTakers "'t list" | DowngradeNeeded

definition positions :: "'i list \<Rightarrow> 'i \<Rightarrow> nat option" where
  "positions ids = map_of (rev (zip ids [0..<length ids]))"

text \<open>\<open>sort_by_cached_key\<close> removes the position of each take from the map; a take without one panics.\<close>

definition sort_takes :: "('t, 'k, 'i, 'u) book_taker \<Rightarrow> 'i list \<Rightarrow> 't take_in_progress list \<Rightarrow>
    ('t match_failure, 't take_in_progress list) res" where
  "sort_takes T ids tks =
    (let key = (\<lambda>tk. positions ids (t_id T (target tk)))
     in if distinct (map (\<lambda>tk. t_id T (target tk)) tks) \<and> (\<forall>tk \<in> set tks. key tk \<noteq> None)
        then Ok (sort_key (\<lambda>tk. the (key tk)) tks) else Panic)"

definition try_from :: "('t, 'k, 'i, 'u) book_taker \<Rightarrow> ('m, 't, 'j, 'u) maker \<Rightarrow> u64 \<Rightarrow> ('t, 'm, 'i, 'j, 'u) attempt \<Rightarrow>
    ('t match_failure, ('t, 'm) matchmaking_recipe) res" where
  "try_from T M base_step_budget a =
    (if \<not> is_complete a then Err NoMatch
     else and_then (expect (attempt_finalized T M a)) (\<lambda>final.
       case final of
         None \<Rightarrow> Err NoMatch
       | Some r \<Rightarrow>
           and_then (expect (unsatisfied_fragments T (fr_takes r))) (\<lambda>unsatisfied.
             if unsatisfied = [] then
               and_then (sort_takes T (fr_ordering r) (map snd (fr_takes r))) (\<lambda>tks.
                 if \<exists>mk \<in> set (map snd (fr_makes r)). mk_is_zero M mk then Err NoMatch
                 else if check_recipe_complexity T base_step_budget r
                   then Ok (map Inl tks @ map (Inr \<circ> snd) (fr_makes r))
                   else Err DowngradeNeeded)
             else Err (DissatisfiedTakers unsatisfied))))"

text \<open>\<open>ExecutionRecipe::link\<close>: every target gets its bearer, or the targets without one are returned.\<close>

type_synonym ('t, 'm, 'b) execution = "('t, 'b) take + ('m \<times> 'b) \<times> 'm"

fun link_all :: "('x \<Rightarrow> ('v \<times> 'b) option) \<Rightarrow> ('x \<Rightarrow> 'b \<Rightarrow> 'y) \<Rightarrow> 'x list \<Rightarrow> 'y list \<times> 'v list \<times> 'x list" where
  "link_all f g [] = ([], [], [])"
| "link_all f g (x # xs) =
     (let (ys, vs, os) = link_all f g xs
      in case f x of
           Some (v, b) \<Rightarrow> (g x b # ys, v # vs, os)
         | None \<Rightarrow> (ys, vs, x # os))"

definition link :: "('t \<Rightarrow> 'i) \<Rightarrow> ('m \<Rightarrow> 'i) \<Rightarrow> ('i \<Rightarrow> ('v \<times> 'b) option) \<Rightarrow> ('t, 'm) matchmaking_recipe \<Rightarrow>
    (('t + 'm) list, ('t, 'm, 'b) execution list \<times> 'v set) res" where
  "link tid mid lookup recipe =
    (let (ys, vs, os) = link_all
           (\<lambda>i. lookup (case i of Inl tk \<Rightarrow> tid (target tk) | Inr mk \<Rightarrow> mid (fst mk)))
           (\<lambda>i b. case i of Inl tk \<Rightarrow> Inl (bundle_take tk b) | Inr mk \<Rightarrow> Inr ((fst mk, b), snd mk)) recipe
     in if os \<noteq> [] then Err (map (map_sum target fst) os) else Ok (ys, set vs))"


section \<open>Matchmaking\<close>

record 'u execution_config =
  soft_cap :: 'u
  hard_cap :: 'u
  o2o_allowed :: bool
  base_step_budget :: u64

datatype execution_event =
  SpotPrice absolute_price
| SpotPriceNotAvailable
| LiquidityBookSizePreAttempt book_size
| LiquidityBookSizePostAttempt book_size

definition spot_price :: "('m, 't, 'j, 'u) maker \<Rightarrow> ('t, 'm, 'j) tlb_state \<Rightarrow> absolute_price option" where
  "spot_price M st = map_option (m_static_price M) (best_market_maker M st)"

definition on_take :: "('t, 'k::linorder, 'i, 'u) book_taker \<Rightarrow> ('t, 'any) nxt \<Rightarrow> ('t, 'm, 'j) tlb_state \<Rightarrow> ('t, 'm, 'j) tlb_state" where
  "on_take T tx st = (case tx of Succ nx \<Rightarrow> pre_add_taker T nx st | Term _ \<Rightarrow> st)"

definition on_make :: "('t, 'k::linorder, 'i, 'u) book_taker \<Rightarrow> ('m, 't, 'j, 'u) maker \<Rightarrow> 'm \<Rightarrow> ('t, 'm, 'j) tlb_state \<Rightarrow> ('t, 'm, 'j) tlb_state" where
  "on_make T M nx st = pre_add_maker T M nx st"

type_synonym ('t, 'm, 'i, 'j, 'u) progress =
  "('t, 'm, 'j) tlb_state \<times> ('t, 'm, 'i, 'j, 'u) attempt \<times> execution_event list"

definition prefer_counter_taker :: "bool \<Rightarrow> absolute_price on_side \<Rightarrow> absolute_price on_side option \<Rightarrow> ('j \<times> fill_preview) option \<Rightarrow> bool" where
  "prefer_counter_taker o2o target_price counter mk =
    (case (counter, mk) of
       (Some c, Some (_, fp)) \<Rightarrow> o2o \<and> overlaps target_price (on_side_unwrap c) \<and> better_than c (fp_price fp)
     | _ \<Rightarrow> False)"

definition match_takers :: "('t, 'k::linorder, 'i, 'u::plus) book_taker \<Rightarrow> absolute_price \<Rightarrow> 't \<Rightarrow> 't \<Rightarrow>
    ('t, 'm, 'i, 'j, 'u) progress \<Rightarrow> (unit, ('t, 'm, 'i, 'j, 'u) progress) res" where
  "match_takers T spot target_taker counter_taker = (\<lambda>(st, batch, evs).
    and_then (execute_with_taker T target_taker counter_taker (\<lambda>ask bid. settle_price T ask bid (Some spot))) (\<lambda>(take_a, take_b).
      Ok (on_take T (result take_b) (on_take T (result take_a) st), add_take T take_b (add_take T take_a batch), evs)))"

definition match_maker :: "('t, 'k::linorder, 'i, 'u::plus) book_taker \<Rightarrow> ('m, 't, 'j, 'u) maker \<Rightarrow> 't \<Rightarrow> 'm \<Rightarrow> u64 on_side \<Rightarrow>
    ('t, 'm, 'i, 'j, 'u) progress \<Rightarrow> ('t, 'm, 'i, 'j, 'u) progress" where
  "match_maker T M target_taker mk chunk = (\<lambda>(st, batch, evs).
    let (tk, mt) = execute_with_maker M target_taker mk chunk
    in (on_make T M (snd mt) (on_take T (result tk) st), add_take T tk (add_make M mt batch), evs))"

text \<open>
  One round of the inner loop.  The flag of the result tells \<open>continue\<close> from \<open>break\<close>.
\<close>

definition match_target :: "('t, 'k::linorder, 'i, 'u::plus) book_taker \<Rightarrow> ('m, 't, 'j, 'u) maker \<Rightarrow> bool \<Rightarrow> bool \<Rightarrow> absolute_price \<Rightarrow> 't \<Rightarrow>
    ('t, 'm, 'i, 'j, 'u) progress \<Rightarrow> (unit, bool \<times> ('t, 'm, 'i, 'j, 'u) progress) res option" where
  "match_target T M o2o optimized spot target_taker = (\<lambda>(st, batch, evs).
    let target_side = k_side T target_taker;
        target_price = wrap target_side (t_price T target_taker);
        counter = best_taker_price T (side_not target_side) st
    in Option.bind (preselect_market_maker M (t_price T target_taker) (t_input (ops T) target_taker) target_side optimized target_taker st) (\<lambda>mk.
       Some (
         if prefer_counter_taker o2o target_price counter mk then
           (case try_pick_taker T (side_not target_side) (\<lambda>_. True) st of
              (st', Some counter_taker) \<Rightarrow>
                and_then (match_takers T spot target_taker counter_taker (st', batch, evs)) (\<lambda>p. Ok (True, p))
            | (st', None) \<Rightarrow> Ok (False, st', batch, evs))
         else case mk of
           Some (maker_sid, fp) \<Rightarrow>
             if overlaps target_price (fp_price fp) then
               (case pick_maker_by_id maker_sid st of
                  (st', Some m) \<Rightarrow> Ok (True, match_maker T M target_taker m (wrap target_side (fp_input fp)) (st', batch, evs))
                | (st', None) \<Rightarrow> Ok (False, st', batch, evs))
             else Ok (False, pre_add_taker T target_taker st, batch, evs)
         | None \<Rightarrow> Ok (False, pre_add_taker T target_taker st, batch, evs))))"

definition match_step :: "('t, 'k::linorder, 'i, 'u::plus) book_taker \<Rightarrow> ('m, 't, 'j, 'u) maker \<Rightarrow> bool \<Rightarrow> bool \<Rightarrow>
    ('t, 'm, 'i, 'j, 'u) progress \<Rightarrow> (unit, bool \<times> ('t, 'm, 'i, 'j, 'u) progress) res option" where
  "match_step T M o2o optimized = (\<lambda>(st, batch, evs).
    case spot_price M st of
      None \<Rightarrow> Some (Ok (False, st, batch, evs @ [SpotPriceNotAvailable]))
    | Some spot \<Rightarrow>
        (case pick_active_taker (max_by_distance_to_spot T spot (allowed_price_range T st)) st of
           (st', None) \<Rightarrow> Some (Ok (False, st', batch, evs @ [SpotPrice spot]))
         | (st', Some target_taker) \<Rightarrow>
             match_target T M o2o optimized spot target_taker (st', batch, evs @ [SpotPrice spot])))"

text \<open>Sequencing of computations that may panic or not return.\<close>

definition run_bind :: "('e, 'a) res option \<Rightarrow> ('a \<Rightarrow> ('e, 'b) res option) \<Rightarrow> ('e, 'b) res option" where
  "run_bind m f = Option.bind m (\<lambda>r. case r of Ok a \<Rightarrow> f a | Err e \<Rightarrow> Some (Err e) | Panic \<Rightarrow> Some Panic)"

lemma run_bind_simps [simp]:
  "run_bind None f = None" "run_bind (Some (Ok a)) f = f a" "run_bind (Some (Err e)) f = Some (Err e)"
  "run_bind (Some Panic) f = Some Panic"
  by (simp_all add: run_bind_def)

lemma run_bind_mono [partial_function_mono]:
  assumes "mono_option B" and "\<And>y. mono_option (\<lambda>f. C y f)"
  shows "mono_option (\<lambda>f. run_bind (B f) (\<lambda>y. C y f))"
  unfolding run_bind_def
proof (rule bind_mono [OF assms(1)])
  fix r
  show "mono_option (\<lambda>f. case r of Ok a \<Rightarrow> C a f | Err e \<Rightarrow> Some (Err e) | Panic \<Rightarrow> Some Panic)"
    by (cases r) (auto intro: assms(2) monotoneI option.leq_refl)
qed

definition attempt_open :: "'u::ord execution_config \<Rightarrow> ('t, 'm, 'i, 'j, 'u) attempt \<Rightarrow> bool" where
  "attempt_open conf batch = (execution_units_consumed batch < soft_cap conf \<and> length (takes batch) < 15)"

partial_function (option) match_loop :: "('t, 'k::linorder, 'i, 'u::{plus, ord}) book_taker \<Rightarrow> ('m, 't, 'j, 'u) maker \<Rightarrow>
    'u execution_config \<Rightarrow> bool \<Rightarrow> ('t, 'm, 'i, 'j, 'u) progress \<Rightarrow> (unit, ('t, 'm, 'i, 'j, 'u) progress) res option" where
  "match_loop T M conf optimized p =
    (if attempt_open conf (fst (snd p)) then
       run_bind (match_step T M (o2o_allowed conf) optimized p) (\<lambda>(continue, p').
         if continue then match_loop T M conf optimized p' else Some (Ok p'))
     else Some (Ok p))"

partial_function (option) attempt_loop :: "('t, 'k::linorder, 'i, 'u::{plus, zero, ord}) book_taker \<Rightarrow> ('m, 't, 'j, 'u) maker \<Rightarrow>
    'u execution_config \<Rightarrow> bool \<Rightarrow> ('t, 'm, 'j) tlb_state \<Rightarrow>
    (unit, ('t, 'm, 'j) tlb_state \<times> ('t, 'm) matchmaking_recipe option \<times> execution_event list) res option" where
  "attempt_loop T M conf optimized st =
    run_bind (match_loop T M conf optimized (st, empty_attempt, [LiquidityBookSizePreAttempt (book_size_of st)])) (\<lambda>(st', batch, evs).
      case try_from T M (base_step_budget conf) batch of
        Ok recipe \<Rightarrow> Some (Ok (st', Some recipe, evs @ [LiquidityBookSizePostAttempt (book_size_of st')]))
      | Panic \<Rightarrow> Some Panic
      | Err failure \<Rightarrow>
          (case failure of
             NoMatch \<Rightarrow> Some (Ok (rollback T Unstash st', None, evs @ [LiquidityBookSizePostAttempt (book_size_of st')]))
           | DissatisfiedTakers us \<Rightarrow> attempt_loop T M conf optimized (rollback T (Stash us) st')
           | DowngradeNeeded \<Rightarrow> attempt_loop T M conf False (rollback T (Stash []) st')))"

definition attempt_recipe :: "('t, 'k::linorder, 'i, 'u::{plus, zero, ord}) book_taker \<Rightarrow> ('m, 't, 'j, 'u) maker \<Rightarrow>
    'u execution_config \<Rightarrow> ('t, 'm, 'j) tlb_state \<Rightarrow>
    (unit, ('t, 'm, 'j) tlb_state \<times> ('t, 'm) matchmaking_recipe option \<times> execution_event list) res option" where
  "attempt_recipe T M conf st = attempt_loop T M conf True st"


section \<open>Feedback and external events\<close>

definition on_recipe_succeeded :: "('t, 'k::linorder, 'i, 'u) book_taker \<Rightarrow> ('t, 'm, 'j) tlb_state \<Rightarrow> ('t, 'm, 'j) tlb_state" where
  "on_recipe_succeeded T st = commit T st"

definition on_recipe_failed :: "('t, 'k::linorder, 'i, 'u) book_taker \<Rightarrow> ('t, 'm, 'j) tlb_state \<Rightarrow> ('t, 'm, 'j) tlb_state" where
  "on_recipe_failed T st = rollback T Unstash st"

fun requiring_settled_state :: "(('t, 'm, 'j) idle_state \<Rightarrow> ('t, 'm, 'j) idle_state) \<Rightarrow> ('t, 'm, 'j) tlb_state \<Rightarrow> (unit, ('t, 'm, 'j) tlb_state) res" where
  "requiring_settled_state f (Idle st) = Ok (Idle (f st))"
| "requiring_settled_state f _ = Panic"

datatype ('t, 'm) book_event = AdvanceClocks u64 | UpdateTaker 't | RemoveTaker 't | UpdateMaker 'm | RemoveMaker 'm

fun apply_event :: "('t, 'k::linorder, 'i, 'u) book_taker \<Rightarrow> ('m, 't, 'j, 'u) maker \<Rightarrow> ('t, 'm) book_event \<Rightarrow>
    ('t, 'm, 'j) tlb_state \<Rightarrow> (unit, ('t, 'm, 'j) tlb_state) res" where
  "apply_event T M (AdvanceClocks time) st = requiring_settled_state (idle_advance_clocks T time) st"
| "apply_event T M (UpdateTaker fr) st = requiring_settled_state (idle_add_fragment T fr) st"
| "apply_event T M (RemoveTaker fr) st = requiring_settled_state (idle_remove_fragment T fr) st"
| "apply_event T M (UpdateMaker pool) st = requiring_settled_state (idle_update_pool M pool) st"
| "apply_event T M (RemoveMaker pool) st = requiring_settled_state (idle_remove_pool M pool) st"

definition tlb_new :: "u64 \<Rightarrow> ('t, 'm, 'j) tlb_state" where
  "tlb_new time = Idle (idle_new time)"

end
