(* ===== verification/Royalty_Pool.thy ===== *)
theory Royalty_Pool
  imports Book_Match Green_Exec
begin

text \<open>
  The pools of the agent's book: \<open>RoyaltyPool\<close>
  (\<open>spectrum-offchain-cardano/src/data/cfmm_pool/royalty_pool.rs\<close>) behind the wrapper
  \<open>RoyaltyV1PoolOnly\<close> (\<open>bloom-offchain-cardano/src/pools/royalty_v1.rs\<close>), the constant product formula
  (\<open>pool_math/cfmm_math.rs\<close>), and the instances of the book's interfaces: \<open>royalty_maker\<close> for these
  pools and \<open>green_book\<close> for Green orders.

  \<^item> Amounts are 64-bit words and the formula computes on 128-bit words, so that every wrap-around of
    the code is one of the model.  \<open>Ratio<u64>\<close> is the pair of numerator and denominator as stored;
    the difference of two ratios is reduced (\<open>quotient_of\<close>), for fees that do not exceed the fee
    they are taken from.
  \<^item> A pool is parsed only with non-zero reserves, so that the divisor of the formula is not zero.
  \<^item> \<open>available_liquidity_on_side\<close> computes with the arbitrary precision decimals of another library:
    that part of it is the parameter \<open>curve\<close> of \<open>royalty_maker\<close>.
\<close>

section \<open>The constant product formula\<close>

type_synonym ratio64 = "u64 \<times> u64"

definition ratio_val :: "ratio64 \<Rightarrow> rat" where
  "ratio_val r = of_nat (unat (fst r)) / of_nat (unat (snd r))"

definition UNTOUCHABLE_LOVELACE_AMOUNT :: u64 where
  "UNTOUCHABLE_LOVELACE_AMOUNT = 3000000"

definition cfmm_quote :: "u64 \<Rightarrow> u64 \<Rightarrow> u64 \<Rightarrow> u128 \<Rightarrow> u128 \<Rightarrow> u128" where
  "cfmm_quote reserves_in reserves_out n fee_num fee_den =
    (ucast reserves_out * ucast n * fee_num) div (ucast reserves_in * fee_den + ucast n * fee_num)"

definition classic_cfmm_output_amount :: "asset_class \<Rightarrow> asset_class \<Rightarrow> u64 \<Rightarrow> u64 \<Rightarrow> asset_class \<Rightarrow> u64 \<Rightarrow>
    u128 \<times> u128 \<Rightarrow> u128 \<times> u128 \<Rightarrow> u64" where
  "classic_cfmm_output_amount asset_x asset_y reserves_x reserves_y base_asset base_amount fee_x fee_y =
    (let quote_amount = (if base_asset = asset_x
                         then cfmm_quote reserves_x reserves_y base_amount (fst fee_x) (snd fee_x)
                         else cfmm_quote reserves_y reserves_x base_amount (fst fee_y) (snd fee_y));
         (output_asset, liquidity) = (if base_asset = asset_x then (asset_y, reserves_y) else (asset_x, reserves_x))
     in if output_asset = Native then
          let amount_left = liquidity - ucast quote_amount
          in if amount_left < UNTOUCHABLE_LOVELACE_AMOUNT then liquidity - UNTOUCHABLE_LOVELACE_AMOUNT
             else ucast quote_amount
        else ucast quote_amount)"


section \<open>Pools\<close>

record pool_validation =
  min_n2t_lovelace :: u64
  min_t2t_lovelace :: u64

datatype royalty_pool_ver = V1 | V1LedgerFixed | V2

record royalty_pool =
  rp_id :: token
  reserves_x :: u64
  reserves_y :: u64
  rp_liquidity :: u64
  asset_x :: asset_class
  asset_y :: asset_class
  asset_lq :: asset_class
  lp_fee :: ratio64
  treasury_fee :: ratio64
  treasury_x :: u64
  treasury_y :: u64
  first_royalty_fee :: ratio64
  second_royalty_fee :: ratio64
  first_royalty_x :: u64
  first_royalty_y :: u64
  second_royalty_x :: u64
  second_royalty_y :: u64
  lq_lower_bound :: u64
  admin_address :: bytes
  treasury_address :: bytes
  first_royalty_pub_key :: bytes
  second_royalty_pub_key :: bytes
  rp_ver :: royalty_pool_ver
  rp_marginal_cost :: ex_units
  rp_bounds :: pool_validation
  rp_nonce :: u64
  stake_part_script_hash :: "bytes option"

definition tradable_x :: "royalty_pool \<Rightarrow> u64" where
  "tradable_x p = reserves_x p - treasury_x p - first_royalty_x p - second_royalty_x p"

definition tradable_y :: "royalty_pool \<Rightarrow> u64" where
  "tradable_y p = reserves_y p - treasury_y p - first_royalty_y p - second_royalty_y p"

definition pool_fee :: "royalty_pool \<Rightarrow> u128 \<times> u128" where
  "pool_fee p =
    (let (n, d) = quotient_of (ratio_val (lp_fee p) - ratio_val (treasury_fee p) -
                               ratio_val (first_royalty_fee p) - ratio_val (second_royalty_fee p))
     in (word_of_int n, word_of_int d))"

definition output_amount :: "royalty_pool \<Rightarrow> asset_class \<Rightarrow> u64 \<Rightarrow> u64" where
  "output_amount p base_asset base_amount =
    classic_cfmm_output_amount (asset_x p) (asset_y p) (tradable_x p) (tradable_y p) base_asset base_amount
      (pool_fee p) (pool_fee p)"

definition base_asset_of :: "royalty_pool \<Rightarrow> asset_class" where
  "base_asset_of p = order_canonical (asset_x p) (asset_y p) ! 0"

definition quote_asset_of :: "royalty_pool \<Rightarrow> asset_class" where
  "quote_asset_of p = order_canonical (asset_x p) (asset_y p) ! 1"

definition swap_output :: "royalty_pool \<Rightarrow> u64 on_side \<Rightarrow> u64" where
  "swap_output p inp =
    (case inp of
       OnBid n \<Rightarrow> output_amount p (quote_asset_of p) n
     | OnAsk n \<Rightarrow> output_amount p (base_asset_of p) n)"

definition fee_share :: "u64 \<Rightarrow> ratio64 \<Rightarrow> u64" where
  "fee_share n r = (n * fst r) div snd r"

text \<open>What a trade adds to and removes from the \<open>x\<close> and \<open>y\<close> side.\<close>

definition deposit_x :: "u64 \<Rightarrow> u64 \<Rightarrow> royalty_pool \<Rightarrow> royalty_pool" where
  "deposit_x n out p = p\<lparr>
     reserves_x := reserves_x p + n, reserves_y := reserves_y p - out,
     treasury_x := treasury_x p + fee_share n (treasury_fee p),
     first_royalty_x := first_royalty_x p + fee_share n (first_royalty_fee p),
     second_royalty_x := second_royalty_x p + fee_share n (second_royalty_fee p) \<rparr>"

definition deposit_y :: "u64 \<Rightarrow> u64 \<Rightarrow> royalty_pool \<Rightarrow> royalty_pool" where
  "deposit_y n out p = p\<lparr>
     reserves_y := reserves_y p + n, reserves_x := reserves_x p - out,
     treasury_y := treasury_y p + fee_share n (treasury_fee p),
     first_royalty_y := first_royalty_y p + fee_share n (first_royalty_fee p),
     second_royalty_y := second_royalty_y p + fee_share n (second_royalty_fee p) \<rparr>"

definition swap :: "royalty_pool \<Rightarrow> u64 on_side \<Rightarrow> royalty_pool" where
  "swap p inp =
    (let out = swap_output p inp; x_is_base = (asset_x p = base_asset_of p)
     in case inp of
          OnBid n \<Rightarrow> if x_is_base then deposit_y n out p else deposit_x n out p
        | OnAsk n \<Rightarrow> if x_is_base then deposit_x n out p else deposit_y n out p)"

definition static_price :: "royalty_pool \<Rightarrow> absolute_price" where
  "static_price p =
    (if tradable_x p = tradable_y p then 1
     else if asset_x p = base_asset_of p then of_nat (unat (tradable_y p)) / of_nat (unat (tradable_x p))
     else of_nat (unat (tradable_x p)) / of_nat (unat (tradable_y p)))"

definition real_price :: "royalty_pool \<Rightarrow> u64 on_side \<Rightarrow> absolute_price option" where
  "real_price p inp =
    (case inp of
       OnBid n \<Rightarrow> ap_new n (swap_output p inp)
     | OnAsk n \<Rightarrow> ap_new (swap_output p inp) n)"

definition quality :: "royalty_pool \<Rightarrow> u128" where
  "quality p = ucast (rp_liquidity p)"

definition is_active :: "royalty_pool \<Rightarrow> bool" where
  "is_active p =
    (reserves_x p * 2 \<ge> lq_lower_bound p \<and>
     (if asset_x p = Native then reserves_x p \<ge> min_n2t_lovelace (rp_bounds p)
      else if asset_y p = Native then reserves_y p \<ge> min_n2t_lovelace (rp_bounds p)
      else True))"

definition liquidity_of :: "royalty_pool \<Rightarrow> reserves" where
  "liquidity_of p =
    (if base_asset_of p = asset_x p then \<lparr> base = reserves_x p, quote = reserves_y p \<rparr>
     else \<lparr> base = reserves_y p, quote = reserves_x p \<rparr>)"

definition estimated_trade :: "royalty_pool \<Rightarrow> u64 on_side \<Rightarrow> liquidity" where
  "estimated_trade p inp = \<lparr> av_input = on_side_unwrap inp, av_output = swap_output p inp \<rparr>"

text \<open>
  \<open>available_liquidity_on_side\<close>: the largest trade at an average price not worse than the given one.  The square roots are taken
  by the crate \<open>bignumber\<close> on reserves converted to \<open>f64\<close>: \<open>curve\<close> stands for that arithmetic and gives the input and output
  amounts, cut to integers, from the fee, the reserves that are paid in and taken out, and the price.
\<close>

definition total_fee :: "royalty_pool \<Rightarrow> rat option" where
  "total_fee p =
    (let f1 = ratio_val (lp_fee p) - ratio_val (treasury_fee p);
         f2 = f1 - ratio_val (first_royalty_fee p);
         f3 = f2 - ratio_val (second_royalty_fee p)
     in if f1 < 0 \<or> f2 < 0 \<or> f3 < 0 then None else Some f3)"

definition try_u64 :: "int \<Rightarrow> u64 option" where
  "try_u64 n = (if 0 \<le> n \<and> n < 2 ^ 64 then Some (word_of_int n) else None)"

definition available_liquidity :: "(rat \<Rightarrow> u64 \<Rightarrow> u64 \<Rightarrow> absolute_price \<Rightarrow> int \<times> int) \<Rightarrow> royalty_pool \<Rightarrow>
    absolute_price on_side \<Rightarrow> liquidity option" where
  "available_liquidity curve p worst_price =
    Option.bind (total_fee p) (\<lambda>fee.
      let x_is_base = (base_asset_of p = asset_x p);
          avg_price = (case worst_price of OnBid w \<Rightarrow> 1 / w | OnAsk w \<Rightarrow> w);
          (reserves_in, reserves_out) =
            (case worst_price of
               OnBid _ \<Rightarrow> if x_is_base then (tradable_y p, tradable_x p) else (tradable_x p, tradable_y p)
             | OnAsk _ \<Rightarrow> if x_is_base then (tradable_x p, tradable_y p) else (tradable_y p, tradable_x p));
          (input_amount, output_amount) = curve fee reserves_in reserves_out avg_price
      in Option.bind (try_u64 input_amount) (\<lambda>inp.
         Option.bind (try_u64 output_amount) (\<lambda>out.
         Option.bind (checked_sub reserves_out out) (\<lambda>remain.
           case checked_sub UNTOUCHABLE_LOVELACE_AMOUNT remain of
             Some _ \<Rightarrow> map_option (\<lambda>capped. \<lparr> av_input = inp, av_output = capped \<rparr>)
                         (checked_sub reserves_out UNTOUCHABLE_LOVELACE_AMOUNT)
           | None \<Rightarrow> Some \<lparr> av_input = inp, av_output = out \<rparr>))))"


section \<open>The wrapper and the instances of the book\<close>

text \<open>\<open>RoyaltyV1PoolOnly\<close> wraps a pool that is not of version 2 and forwards every operation to it.\<close>

definition try_from_royalty_pool :: "royalty_pool \<Rightarrow> royalty_pool option" where
  "try_from_royalty_pool p = (case rp_ver p of V1 \<Rightarrow> Some p | V1LedgerFixed \<Rightarrow> Some p | V2 \<Rightarrow> None)"

text \<open>\<open>ExUnits\<close>: component-wise sums and the derived lexicographic order.\<close>

instantiation ex_units_ext :: (type) "{plus, zero, ord}"
begin

definition plus_ex_units_ext :: "'a ex_units_ext \<Rightarrow> 'a ex_units_ext \<Rightarrow> 'a ex_units_ext" where
  "plus_ex_units_ext a b = a\<lparr> mem := mem a + mem b, steps := steps a + steps b \<rparr>"

definition zero_ex_units_ext :: "'a ex_units_ext" where
  "zero_ex_units_ext = \<lparr> mem = 0, steps = 0, \<dots> = undefined \<rparr>"

definition less_eq_ex_units_ext :: "'a ex_units_ext \<Rightarrow> 'a ex_units_ext \<Rightarrow> bool" where
  "less_eq_ex_units_ext a b = (mem a < mem b \<or> mem a = mem b \<and> steps a \<le> steps b)"

definition less_ex_units_ext :: "'a ex_units_ext \<Rightarrow> 'a ex_units_ext \<Rightarrow> bool" where
  "less_ex_units_ext a b = (mem a < mem b \<or> mem a = mem b \<and> steps a < steps b)"

instance ..

end

lemma ex_units_ops: "(a :: ex_units) + b = ex_add a b" "(0 :: ex_units) = \<lparr> mem = 0, steps = 0 \<rparr>"
  by (cases a; cases b; simp add: plus_ex_units_ext_def ex_add_def) (simp add: zero_ex_units_ext_def)

text \<open>
  The price of a Green order is expected over leaving amount, inverted for a bid; \<open>Ratio::new\<close> and
  \<open>pow(-1)\<close> panic on a zero divisor, and admission does not exclude zero amounts.
\<close>

definition go_price :: "green_order \<Rightarrow> (unit, absolute_price) res" where
  "go_price ord =
    (let expected = gi_expected_arriving_amount (intention ord); leaving = gi_leaving_amount (intention ord);
         relative = of_nat (unat expected) / of_nat (unat leaving)
     in if leaving = 0 then Panic
        else case t_side green_taker ord of
               Ask \<Rightarrow> Ok relative
             | Bid \<Rightarrow> if expected = 0 then Panic else Ok (1 / relative))"

type_synonym green_key = "bytes \<times> u16 \<times> u64 \<times> bytes"

definition go_key :: "green_order \<Rightarrow> green_key" where
  "go_key ord = (goi_account_id (go_id ord), goi_target_nonce_slot (go_id ord),
                 goi_target_nonce_value (go_id ord), original_intent_digest (go_id ord))"

text \<open>
  A price that panics (a division by a zero amount) is zero here; the runs considered below take in no such order.
\<close>

definition green_book :: "(bytes \<Rightarrow> bytes) \<Rightarrow> (green_order, green_key, token, ex_units) book_taker" where
  "green_book H224 = \<lparr>
     ops = green_taker,
     t_price = (\<lambda>ord. case go_price ord of Ok p \<Rightarrow> p | _ \<Rightarrow> 0),
     t_cost = (\<lambda>_. \<lparr> mem = 0, steps = 0 \<rparr>),
     t_key = go_key,
     t_id = (\<lambda>ord. goi_stable_token H224 (go_id ord)) \<rparr>"

text \<open>
  A maker that keeps the default \<open>swap_with_taker\<close> of \<open>MakerBehavior\<close>; the default
  \<open>preserve_preview_metadata\<close> returns the rebalanced pool and \<open>effective_price\<close> is \<open>real_price\<close>.
\<close>

definition with_default_swap :: "'t taker \<Rightarrow> ('m, 't, 'j, 'u) maker \<Rightarrow> ('m, 't, 'j, 'u) maker" where
  "with_default_swap T M = M\<lparr> m_swap_with_taker := \<lambda>mk t inp. default_swap_with_taker T M t mk inp \<rparr>"

definition royalty_maker :: "(rat \<Rightarrow> u64 \<Rightarrow> u64 \<Rightarrow> absolute_price \<Rightarrow> int \<times> int) \<Rightarrow>
    (royalty_pool, green_order, token, ex_units) maker" where
  "royalty_maker curve = with_default_swap green_taker \<lparr>
     m_id = rp_id,
     m_static_price = static_price,
     m_effective_price = (\<lambda>p _. real_price p),
     m_quality = quality,
     m_cost = rp_marginal_cost,
     m_liquidity = liquidity_of,
     m_available = available_liquidity curve,
     m_is_active = is_active,
     m_swap = swap,
     m_preserve = (\<lambda>_ _ rebalanced. rebalanced),
     m_swap_with_taker = (\<lambda>p t _. (\<lparr> target = t, result = Succ t \<rparr>, (p, p))) \<rparr>"


section \<open>Parsing a pool\<close>

record royalty_pool_config =
  rc_pool_nft :: asset_class
  rc_asset_x :: asset_class
  rc_asset_y :: asset_class
  rc_asset_lq :: asset_class
  rc_lp_fee_num :: u64
  rc_treasury_fee_num :: u64
  rc_royalty_fee_num :: u64
  rc_treasury_x :: u64
  rc_treasury_y :: u64
  rc_royalty_x :: u64
  rc_royalty_y :: u64
  rc_admin_address :: bytes
  rc_treasury_address :: bytes
  rc_royalty_pub_key :: bytes
  rc_nonce :: u64

text \<open>\<open>Ed25519KeyHash\<close> and \<open>ScriptHash\<close> are read from exactly 28 bytes.\<close>

definition credential_try_from_pd :: "plutus_data \<Rightarrow> credential option" where
  "credential_try_from_pd d =
    Option.bind (into_constr_pd d) (\<lambda>(alt, flds).
    Option.bind (Option.bind (take_field flds 0) into_bytes) (\<lambda>f0.
      if length f0 \<noteq> 28 then None
      else if alt = 0 then Some (PubKey f0) else if alt = 1 then Some (Script f0) else None))"

definition inline_credential_try_from_pd :: "plutus_data \<Rightarrow> credential option" where
  "inline_credential_try_from_pd d =
    Option.bind (into_constr_pd d) (\<lambda>(alt, flds).
      if alt = 0 then Option.bind (take_field flds 0) credential_try_from_pd else None)"

definition inline_script_into_pd :: "bytes \<Rightarrow> plutus_data" where
  "inline_script_into_pd h = PConstr 0 [PConstr 1 [PBytes h]]"

fun traverse_opt :: "('a \<Rightarrow> 'b option) \<Rightarrow> 'a list \<Rightarrow> 'b list option" where
  "traverse_opt f [] = Some []"
| "traverse_opt f (x # xs) = Option.bind (f x) (\<lambda>y. Option.bind (traverse_opt f xs) (\<lambda>ys. Some (y # ys)))"

definition admin_of_pd :: "plutus_data \<Rightarrow> bytes option" where
  "admin_of_pd d =
    Option.bind (Option.bind (into_vec d) (traverse_opt inline_credential_try_from_pd)) (\<lambda>creds.
      case creds of Script h # _ \<Rightarrow> Some h | _ \<Rightarrow> None)"

definition config_try_from_pd :: "plutus_data \<Rightarrow> royalty_pool_config option" where
  "config_try_from_pd d =
    Option.bind (into_constr_pd d) (\<lambda>(_, flds).
    Option.bind (Option.bind (take_field flds 11) admin_of_pd) (\<lambda>admin.
    Option.bind (Option.bind (take_field flds 0) ac_try_from_pd) (\<lambda>nft.
    Option.bind (Option.bind (take_field flds 1) ac_try_from_pd) (\<lambda>ax.
    Option.bind (Option.bind (take_field flds 2) ac_try_from_pd) (\<lambda>ay.
    Option.bind (Option.bind (take_field flds 3) ac_try_from_pd) (\<lambda>alq.
    Option.bind (Option.bind (take_field flds 4) into_u64) (\<lambda>lp.
    Option.bind (Option.bind (take_field flds 5) into_u64) (\<lambda>tf.
    Option.bind (Option.bind (take_field flds 6) into_u64) (\<lambda>rf.
    Option.bind (Option.bind (take_field flds 7) into_u64) (\<lambda>tx.
    Option.bind (Option.bind (take_field flds 8) into_u64) (\<lambda>ty.
    Option.bind (Option.bind (take_field flds 9) into_u64) (\<lambda>rx.
    Option.bind (Option.bind (take_field flds 10) into_u64) (\<lambda>ry.
    Option.bind (Option.bind (take_field flds 12) into_bytes) (\<lambda>ta.
    Option.bind (Option.bind (take_field flds 13) into_bytes) (\<lambda>pk.
    Option.bind (Option.bind (take_field flds 14) into_u64) (\<lambda>n.
      Some \<lparr> rc_pool_nft = nft, rc_asset_x = ax, rc_asset_y = ay, rc_asset_lq = alq,
        rc_lp_fee_num = lp, rc_treasury_fee_num = tf, rc_royalty_fee_num = rf,
        rc_treasury_x = tx, rc_treasury_y = ty, rc_royalty_x = rx, rc_royalty_y = ry,
        rc_admin_address = admin, rc_treasury_address = ta, rc_royalty_pub_key = pk, rc_nonce = n \<rparr>))))))))))))))))"

definition FEE_DEN :: u64 where
  "FEE_DEN = 100000"

definition MAX_LQ_CAP :: u64 where
  "MAX_LQ_CAP = 0x7fffffffffffffff"

text \<open>What the parser reads of the deployment and of addresses.\<close>

record 'a pool_ctx =
  pc_payment_cred :: "'a \<Rightarrow> credential option"
  pc_staking_cred :: "'a \<Rightarrow> credential option"
  pc_v1_hash :: bytes
  pc_v1_cost :: ex_units
  pc_fixed_hash :: bytes
  pc_fixed_cost :: ex_units
  pc_validation :: pool_validation

definition try_pool_ver_from_address :: "'a pool_ctx \<Rightarrow> 'a tx_out \<Rightarrow> royalty_pool_ver option" where
  "try_pool_ver_from_address ctx repr =
    (case pc_payment_cred ctx (address repr) of
       Some (Script this_hash) \<Rightarrow>
         if pc_v1_hash ctx = this_hash then Some V1
         else if pc_fixed_hash ctx = this_hash then Some V1LedgerFixed
         else None
     | _ \<Rightarrow> None)"

definition pool_of_config :: "'a pool_ctx \<Rightarrow> royalty_pool_ver \<Rightarrow> bytes option \<Rightarrow> royalty_pool_config \<Rightarrow> token \<Rightarrow> u64 \<Rightarrow> u64 \<Rightarrow> u64 \<Rightarrow> royalty_pool" where
  "pool_of_config ctx pool_ver stake_part conf nft rx ry liquidity_neg =
    \<lparr> rp_id = nft, reserves_x = rx, reserves_y = ry, rp_liquidity = MAX_LQ_CAP - liquidity_neg,
      asset_x = rc_asset_x conf, asset_y = rc_asset_y conf, asset_lq = rc_asset_lq conf,
      lp_fee = (rc_lp_fee_num conf, FEE_DEN), treasury_fee = (rc_treasury_fee_num conf, FEE_DEN),
      treasury_x = rc_treasury_x conf, treasury_y = rc_treasury_y conf,
      first_royalty_fee = (rc_royalty_fee_num conf, FEE_DEN), second_royalty_fee = (0, 100),
      first_royalty_x = rc_royalty_x conf, first_royalty_y = rc_royalty_y conf,
      second_royalty_x = 0, second_royalty_y = 0, lq_lower_bound = 0,
      admin_address = rc_admin_address conf, treasury_address = rc_treasury_address conf,
      first_royalty_pub_key = rc_royalty_pub_key conf, second_royalty_pub_key = replicate 32 0,
      rp_ver = pool_ver,
      rp_marginal_cost = (case pool_ver of V1 \<Rightarrow> pc_v1_cost ctx | _ \<Rightarrow> pc_fixed_cost ctx),
      rp_bounds = pc_validation ctx, rp_nonce = rc_nonce conf, stake_part_script_hash = stake_part \<rparr>"

definition pool_try_from_ledger :: "'a pool_ctx \<Rightarrow> 'a tx_out \<Rightarrow> royalty_pool option" where
  "pool_try_from_ledger ctx repr =
    Option.bind (try_pool_ver_from_address ctx repr) (\<lambda>pool_ver.
    Option.bind (Option.bind (txo_into_datum repr) datum_into_pd) (\<lambda>pd.
    let stake_part = (case pc_staking_cred ctx (address repr) of Some (Script h) \<Rightarrow> Some h | _ \<Rightarrow> None);
        v = value_of repr in
    Option.bind (config_try_from_pd pd) (\<lambda>conf.
    Option.bind (amount_of v (rc_asset_lq conf)) (\<lambda>liquidity_neg.
    Option.bind (amount_of v Native) (\<lambda>lov.
    Option.bind (amount_of v (rc_asset_x conf)) (\<lambda>rx.
    Option.bind (amount_of v (rc_asset_y conf)) (\<lambda>ry.
    Option.bind (checked_sub rx (rc_treasury_x conf + rc_royalty_x conf)) (\<lambda>pure_x.
    Option.bind (checked_sub ry (rc_treasury_y conf + rc_royalty_y conf)) (\<lambda>pure_y.
      let sufficient_lovelace = (rc_asset_x conf = Native \<or> rc_asset_y conf = Native \<or>
                                 min_t2t_lovelace (pc_validation ctx) \<le> lov)
      in if pure_x = 0 \<or> pure_y = 0 \<or> \<not> sufficient_lovelace then None
         else case rc_pool_nft conf of
                Token nft \<Rightarrow>
                  if length (rc_treasury_address conf) = 28 \<and> length (rc_royalty_pub_key conf) = 32
                  then Some (pool_of_config ctx pool_ver stake_part conf nft rx ry liquidity_neg)
                  else None
              | Native \<Rightarrow> None)))))))))"


section \<open>Executing a pool\<close>

text \<open>\<open>set_field\<close> indexes the vector and panics out of range.\<close>

definition set_field :: "usize \<Rightarrow> plutus_data \<Rightarrow> plutus_data list \<Rightarrow> (unit, plutus_data list) res" where
  "set_field i v flds = (if i < length flds then Ok (flds[i := v]) else Panic)"

fun set_fields :: "(usize \<times> plutus_data) list \<Rightarrow> plutus_data list \<Rightarrow> (unit, plutus_data list) res" where
  "set_fields [] flds = Ok flds"
| "set_fields ((i, v) # us) flds = and_then (set_field i v flds) (set_fields us)"

definition unsafe_update_pd_royalty :: "royalty_pool \<Rightarrow> plutus_data \<Rightarrow> (unit, plutus_data) res" where
  "unsafe_update_pd_royalty p d =
    and_then (unwrap (into_constr_pd d)) (\<lambda>(alt, flds).
    and_then (set_fields
      [(4, u64_into_pd (fst (lp_fee p))),
       (5, u64_into_pd (fst (treasury_fee p))),
       (6, u64_into_pd (fst (first_royalty_fee p))),
       (7, u64_into_pd (treasury_x p)),
       (8, u64_into_pd (treasury_y p)),
       (9, u64_into_pd (first_royalty_x p)),
       (10, u64_into_pd (first_royalty_y p)),
       (11, vec_into_pd inline_script_into_pd [admin_address p]),
       (12, bytes_into_pd (treasury_address p)),
       (14, u64_into_pd (rp_nonce p))] flds) (\<lambda>flds'. Ok (PConstr alt flds')))"

definition asset_mapping :: "royalty_pool \<Rightarrow> side \<Rightarrow> asset_class \<times> asset_class" where
  "asset_mapping p s =
    (if base_asset_of p = asset_x p
     then (case s of Bid \<Rightarrow> (asset_x p, asset_y p) | Ask \<Rightarrow> (asset_y p, asset_x p))
     else (case s of Bid \<Rightarrow> (asset_y p, asset_x p) | Ask \<Rightarrow> (asset_x p, asset_y p)))"

definition pool_redeemer :: "u64 \<Rightarrow> plutus_data" where
  "pool_redeemer pool_input_index = PConstr 0 [PInteger 2, u64_into_pd pool_input_index]"

definition get_validator :: "'a validator \<Rightarrow> 'a validator \<Rightarrow> royalty_pool \<Rightarrow> (unit, 'a validator) res" where
  "get_validator v1 v1_fixed p =
    (case rp_ver p of V1 \<Rightarrow> Ok v1 | V1LedgerFixed \<Rightarrow> Ok v1_fixed | V2 \<Rightarrow> Panic)"

text \<open>The produced pool output: reserves moved by the trade and the datum of the next state.\<close>

definition pool_output :: "(val \<Rightarrow> val \<Rightarrow> val option) \<Rightarrow> (val \<Rightarrow> val \<Rightarrow> val option) \<Rightarrow> royalty_pool make \<Rightarrow> 'a tx_out \<Rightarrow> (unit, 'a tx_out) res" where
  "pool_output vsub vadd mk consumed_out =
    (let M = royalty_maker (\<lambda>_ _ _ _. (0, 0)) in
     and_then (unwrap (mk_trade_side M mk)) (\<lambda>s.
     and_then (unwrap (mk_loss M mk)) (\<lambda>removed_liquidity.
     and_then (unwrap (mk_gain M mk)) (\<lambda>added_liquidity.
     let (deduct, add) = asset_mapping (fst mk) s in
     and_then (expect (sub_asset vsub (value_of consumed_out) deduct (on_side_unwrap removed_liquidity))) (\<lambda>v1.
     and_then (expect (add_asset vadd v1 add (on_side_unwrap added_liquidity))) (\<lambda>v2.
     let produced = update_value v2 consumed_out in
     case txo_into_datum produced of
       Some (Datum d) \<Rightarrow> and_then (unsafe_update_pd_royalty (snd mk) d) (\<lambda>d'. unwrap (set_data d' produced))
     | _ \<Rightarrow> Ok produced))))))"

definition exec_pool :: "(val \<Rightarrow> val \<Rightarrow> val option) \<Rightarrow> (val \<Rightarrow> val \<Rightarrow> val option) \<Rightarrow> 'a validator \<Rightarrow> 'a validator \<Rightarrow>
    'a execution_state \<Rightarrow> royalty_pool make \<Rightarrow> 'a tx_out finalized_tx_out \<Rightarrow>
    (unit, 'a execution_state \<times> (royalty_pool \<times> 'a tx_out, royalty_pool \<times> 'a tx_out finalized_tx_out) exec_eff) res" where
  "exec_pool vsub vadd v1 v1_fixed s mk bearer =
    and_then (pool_output vsub vadd mk (fst bearer)) (\<lambda>updated_output.
    and_then (get_validator v1 v1_fixed (fst mk)) (\<lambda>w.
      let inp = \<lparr> si_reference = reference bearer, si_utxo = fst bearer, si_script_hash = v_hash w,
                  si_cost = (\<lambda>i. ex_add (ex_budget w) (ex_scale (marginal_cost w) i)),
                  si_redeemer = (\<lambda>index_of. pool_redeemer (index_of (reference bearer))),
                  required_signers = [] \<rparr>
      in Ok (s\<lparr> tx_blueprint_of := add_ref_input (reference_utxo w) (add_io inp updated_output (tx_blueprint_of s)) \<rparr>,
             Updated (fst mk, bearer) (snd mk, updated_output))))"

end
