(* ===== verification/Royalty_Correct.thy ===== *)
theory Royalty_Correct
  imports Royalty_Pool Green_Exec_Correct
begin

text \<open>
  Correctness of the pools: a swap keeps a pool well formed and its product from falling, and the quote of a
  pool with little tradable ADA.  Trades into \<open>x\<close> are treated first; the pool with exchanged sides gives the trades into \<open>y\<close>.
\<close>

declare of_nat_unat [simp del]

section \<open>The formula\<close>

definition capped :: "asset_class \<Rightarrow> u64 \<Rightarrow> u128 \<Rightarrow> u64" where
  "capped a liq q =
    (if a = Native then if liq - ucast q < UNTOUCHABLE_LOVELACE_AMOUNT then liq - UNTOUCHABLE_LOVELACE_AMOUNT else ucast q
     else ucast q)"

lemma product_grows:
  fixes ri ro a n d q :: nat and ri' :: rat
  assumes q: "q \<le> (ro * a * n) div (ri * d + a * n)" and pos: "0 < ri" "0 < ro" "0 < d"
    and ri': "of_nat ri + of_nat a * (of_nat n / of_nat d) \<le> ri'"
  shows "q < ro" "of_nat ri * of_nat ro \<le> ri' * (of_nat ro - of_nat q)"
proof -
  let ?D = "ri * d + a * n"
  have D: "0 < ri * d" using pos by simp
  have "q * ?D \<le> ro * a * n" using q by (meson div_times_less_eq_dividend le_trans mult_le_mono1)
  moreover have "ro * a * n < ro * ?D" using pos D by (simp add: algebra_simps)
  ultimately have "q * ?D < ro * ?D" by (rule le_less_trans)
  then show lt: "q < ro" by simp
  have "ro * (ri * d) \<le> (ro - q) * ?D"
    using \<open>q * ?D \<le> ro * a * n\<close> lt by (simp add: diff_mult_distrib algebra_simps)
  then have "(of_nat (ro * (ri * d)) :: rat) \<le> of_nat ((ro - q) * ?D)" by (simp only: of_nat_le_iff)
  then have 1: "(of_nat ro * of_nat ri :: rat) * of_nat d \<le> (of_nat ro - of_nat q) * (of_nat ri * of_nat d + of_nat a * of_nat n)"
    using lt by (simp add: of_nat_diff mult.assoc)
  have "(of_nat ri + of_nat a * (of_nat n / of_nat d)) * of_nat d = (of_nat ri * of_nat d + of_nat a * of_nat n :: rat)"
    using pos(3) by (simp add: field_simps)
  then have "(of_nat ro - of_nat q) * (of_nat ri * of_nat d + of_nat a * of_nat n :: rat) \<le> (of_nat ro - of_nat q) * (ri' * of_nat d)"
    using ri' lt pos(3) by (intro mult_left_mono) (metis mult_right_mono of_nat_0_le_iff, simp)
  with 1 have "(of_nat ri * of_nat ro) * of_nat d \<le> (ri' * (of_nat ro - of_nat q)) * (of_nat d :: rat)"
    by (simp add: algebra_simps)
  then show "of_nat ri * of_nat ro \<le> ri' * (of_nat ro - of_nat q)"
    using pos(3) by (simp add: mult_le_cancel_right)
qed

lemma unat_cfmm_quote:
  assumes "unat ro * unat a * unat n < 2 ^ 128" "unat ri * unat d + unat a * unat n < 2 ^ 128"
  shows "unat (cfmm_quote ri ro a n d) = (unat ro * unat a * unat n) div (unat ri * unat d + unat a * unat n)"
proof -
  have u: "unat (ucast w :: u128) = unat w" for w :: u64 by (simp add: unsigned_ucast_eq take_bit_nat_eq_self_iff order_less_trans [OF u64_lt])
  have "unat (ucast ro * ucast a :: u128) = unat ro * unat a"
  proof -
    have "unat ro * unat a < 2 ^ 64 * 2 ^ 64"
      by (rule mult_strict_mono) (simp_all add: u64_lt)
    then show ?thesis by (simp add: unat_mult_lem [THEN iffD1] u)
  qed
  then have 1: "unat (ucast ro * ucast a * n :: u128) = unat ro * unat a * unat n"
    using assms(1) by (subst unat_mult_lem [THEN iffD1]) simp_all
  have 2: "unat (ucast ri * d :: u128) = unat ri * unat d" "unat (ucast a * n :: u128) = unat a * unat n"
    using assms(2) by (subst unat_mult_lem [THEN iffD1]; simp add: u)+
  then have "unat (ucast ri * d + ucast a * n :: u128) = unat ri * unat d + unat a * unat n"
    using assms(2) by (subst unat_add_lem [THEN iffD1]) simp_all
  with 1 show ?thesis by (simp add: cfmm_quote_def unat_div_distrib)
qed

lemma unat_capped:
  assumes "unat q < unat liq" "a = Native \<Longrightarrow> UNTOUCHABLE_LOVELACE_AMOUNT \<le> liq"
  shows "unat (capped a liq q) \<le> unat q"
proof -
  have uq: "unat (ucast q :: u64) = unat q"
    using assms(1) u64_lt [of liq] by (simp add: unsigned_ucast_eq take_bit_nat_eq_self_iff)
  have le: "(ucast q :: u64) \<le> liq" using assms(1) uq by (simp add: word_le_nat_alt)
  show ?thesis
  proof (cases "a = Native \<and> liq - ucast q < UNTOUCHABLE_LOVELACE_AMOUNT")
    case True
    have "unat (liq - ucast q) = unat liq - unat q" using unat_sub [OF le] uq by simp
    moreover have "unat (liq - UNTOUCHABLE_LOVELACE_AMOUNT) = unat liq - unat UNTOUCHABLE_LOVELACE_AMOUNT"
      using True assms(2) by (intro unat_sub) simp
    moreover have "unat (liq - ucast q) < unat UNTOUCHABLE_LOVELACE_AMOUNT" using True by (simp add: word_less_nat_alt)
    ultimately show ?thesis using True by (simp add: capped_def)
  next
    case False
    then have "capped a liq q = ucast q" by (auto simp: capped_def)
    then show ?thesis using uq by simp
  qed
qed


section \<open>Swaps\<close>

definition fee_rat :: "royalty_pool \<Rightarrow> rat" where
  "fee_rat p = ratio_val (lp_fee p) - ratio_val (treasury_fee p) -
     ratio_val (first_royalty_fee p) - ratio_val (second_royalty_fee p)"

definition pool_ok :: "royalty_pool \<Rightarrow> bool" where
  "pool_ok p \<longleftrightarrow> asset_x p \<noteq> asset_y p \<and>
     unat (treasury_x p) + unat (first_royalty_x p) + unat (second_royalty_x p) < unat (reserves_x p) \<and>
     unat (treasury_y p) + unat (first_royalty_y p) + unat (second_royalty_y p) < unat (reserves_y p) \<and>
     ratio_val (lp_fee p) \<le> 1 \<and> 0 \<le> fee_rat p \<and> snd (quotient_of (fee_rat p)) < 2 ^ 128 \<and>
     (\<forall>r \<in> {treasury_fee p, first_royalty_fee p, second_royalty_fee p}. snd r \<noteq> 0)"

text \<open>The input of a trade goes to the \<open>x\<close> side.\<close>

definition into_x :: "royalty_pool \<Rightarrow> u64 on_side \<Rightarrow> bool" where
  "into_x p inp = (case inp of OnBid _ \<Rightarrow> asset_x p \<noteq> base_asset_of p | OnAsk _ \<Rightarrow> asset_x p = base_asset_of p)"

text \<open>The pool with its sides exchanged: every statement about one side gives the other.\<close>

definition flip_pool :: "royalty_pool \<Rightarrow> royalty_pool" where
  "flip_pool p = p\<lparr> reserves_x := reserves_y p, reserves_y := reserves_x p, asset_x := asset_y p, asset_y := asset_x p,
     treasury_x := treasury_y p, treasury_y := treasury_x p, first_royalty_x := first_royalty_y p,
     first_royalty_y := first_royalty_x p, second_royalty_x := second_royalty_y p, second_royalty_y := second_royalty_x p \<rparr>"

lemma base_quote: "asset_x p \<noteq> asset_y p \<Longrightarrow>
    (base_asset_of p = asset_x p \<and> quote_asset_of p = asset_y p) \<or> (base_asset_of p = asset_y p \<and> quote_asset_of p = asset_x p)"
  by (auto simp: base_asset_of_def quote_asset_of_def order_canonical_eq min_def max_def)

lemma swap_output_x:
  assumes "asset_x p \<noteq> asset_y p" "into_x p inp"
  shows "swap_output p inp = capped (asset_y p) (tradable_y p)
    (cfmm_quote (tradable_x p) (tradable_y p) (on_side_unwrap inp) (fst (pool_fee p)) (snd (pool_fee p)))"
    and "swap p inp = deposit_x (on_side_unwrap inp) (swap_output p inp) p"
  using assms base_quote [OF assms(1)]
  by (auto simp: swap_output_def swap_def output_amount_def classic_cfmm_output_amount_def capped_def into_x_def Let_def
      split: on_side.splits)

lemma swap_output_y:
  assumes "asset_x p \<noteq> asset_y p" "\<not> into_x p inp"
  shows "swap_output p inp = capped (asset_x p) (tradable_x p)
    (cfmm_quote (tradable_y p) (tradable_x p) (on_side_unwrap inp) (fst (pool_fee p)) (snd (pool_fee p)))"
    and "swap p inp = deposit_y (on_side_unwrap inp) (swap_output p inp) p"
  using assms base_quote [OF assms(1)]
  by (auto simp: swap_output_def swap_def output_amount_def classic_cfmm_output_amount_def capped_def into_x_def Let_def
      split: on_side.splits)

lemma flip_flip [simp]: "flip_pool (flip_pool p) = p"
  by (cases p) (simp add: flip_pool_def)

lemma flip_sel [simp]:
  "tradable_x (flip_pool p) = tradable_y p" "tradable_y (flip_pool p) = tradable_x p" "pool_fee (flip_pool p) = pool_fee p"
  "fee_rat (flip_pool p) = fee_rat p" "pool_ok (flip_pool p) \<longleftrightarrow> pool_ok p"
  "asset_x (flip_pool p) = asset_y p" "asset_y (flip_pool p) = asset_x p" "base_asset_of (flip_pool p) = base_asset_of p"
  "reserves_x (flip_pool p) = reserves_y p" "reserves_y (flip_pool p) = reserves_x p"
  "treasury_fee (flip_pool p) = treasury_fee p" "first_royalty_fee (flip_pool p) = first_royalty_fee p"
  "second_royalty_fee (flip_pool p) = second_royalty_fee p"
  by (auto simp: flip_pool_def tradable_x_def tradable_y_def pool_fee_def fee_rat_def pool_ok_def base_asset_of_def
      order_canonical_eq min.commute)

lemma into_x_flip: "asset_x p \<noteq> asset_y p \<Longrightarrow> into_x (flip_pool p) inp \<longleftrightarrow> \<not> into_x p inp"
proof -
  assume "asset_x p \<noteq> asset_y p"
  then have "asset_x p = base_asset_of p \<longleftrightarrow> asset_y p \<noteq> base_asset_of p" using base_quote by metis
  then show ?thesis by (cases inp) (simp_all add: into_x_def)
qed

lemma deposit_flip: "flip_pool (deposit_x n out (flip_pool p)) = deposit_y n out p"
  by (cases p) (simp add: flip_pool_def deposit_x_def deposit_y_def)

lemma swap_flip:
  assumes "asset_x p \<noteq> asset_y p" "\<not> into_x p inp"
  shows "swap p inp = flip_pool (swap (flip_pool p) inp)" "swap_output (flip_pool p) inp = swap_output p inp"
proof -
  have f: "asset_x (flip_pool p) \<noteq> asset_y (flip_pool p)" "into_x (flip_pool p) inp"
    using assms into_x_flip [of p inp] by auto
  show o: "swap_output (flip_pool p) inp = swap_output p inp"
    by (simp add: swap_output_x(1) [OF f] swap_output_y(1) [OF assms])
  show "swap p inp = flip_pool (swap (flip_pool p) inp)"
    by (simp add: swap_output_x(2) [OF f] swap_output_y(2) [OF assms] o deposit_flip)
qed


lemma pool_fee_val:
  assumes "pool_ok p"
  shows "of_nat (unat (fst (pool_fee p))) / of_nat (unat (snd (pool_fee p))) = fee_rat p" "0 < unat (snd (pool_fee p))"
proof -
  obtain n d where q: "quotient_of (fee_rat p) = (n, d)" by fastforce
  have d: "0 < d" "d < 2 ^ 128" using quotient_of_denom_pos [OF q] assms q by (auto simp: pool_ok_def)
  have f: "fee_rat p = of_int n / of_int d" by (rule quotient_of_div [OF q])
  have nn: "0 \<le> n" using assms f d(1) by (auto simp: pool_ok_def zero_le_divide_iff)
  have "ratio_val r \<ge> 0" for r by (simp add: ratio_val_def)
  then have "fee_rat p \<le> 1" using assms unfolding pool_ok_def fee_rat_def
    by (meson add_increasing2 diff_le_eq order_trans)
  then have "n \<le> d" using f d(1) by (simp add: pos_divide_le_eq)
  then have "n < 2 ^ 128" using d by simp
  have u: "(of_nat (unat (word_of_int k :: u128)) :: rat) = of_int k" "unat (word_of_int k :: u128) = nat k"
    if "0 \<le> k" "k < 2 ^ 128" for k
  proof -
    have "uint (word_of_int k :: u128) = k" using that by (simp add: uint_word_of_int_eq take_bit_int_eq_self)
    then show "unat (word_of_int k :: u128) = nat k" by (simp only: unat_eq_nat_uint)
    then show "(of_nat (unat (word_of_int k :: u128)) :: rat) = of_int k" using that(1) by (simp only: of_nat_nat)
  qed
  have p: "pool_fee p = (word_of_int n, word_of_int d)" using q by (simp add: pool_fee_def fee_rat_def)
  show "of_nat (unat (fst (pool_fee p))) / of_nat (unat (snd (pool_fee p))) = fee_rat p"
    using u(1) [OF nn \<open>n < 2 ^ 128\<close>] u(1) [OF less_imp_le [OF d(1)] d(2)] by (simp only: p fst_conv snd_conv f)
  show "0 < unat (snd (pool_fee p))"
    using u(2) [OF less_imp_le [OF d(1)] d(2)] d(1) by (simp only: p snd_conv zero_less_nat_eq)
qed

lemma unat_fee_share:
  assumes "snd r \<noteq> 0" "unat a * unat (fst r) < 2 ^ 64"
  shows "(of_nat (unat (fee_share a r)) :: rat) \<le> of_nat (unat a) * ratio_val r"
proof -
  have "unat (fee_share a r) = unat a * unat (fst r) div unat (snd r)"
    using assms by (simp add: fee_share_def unat_div_distrib unat_mul_small)
  then have "unat (fee_share a r) * unat (snd r) \<le> unat a * unat (fst r)" by simp
  then have "(of_nat (unat (fee_share a r)) :: rat) * of_nat (unat (snd r)) \<le> of_nat (unat a) * of_nat (unat (fst r))"
    by (metis of_nat_le_iff of_nat_mult)
  moreover have "0 < (of_nat (unat (snd r)) :: rat)" using assms(1) by (simp add: unat_gt_0)
  ultimately show ?thesis by (simp add: ratio_val_def pos_le_divide_eq)
qed

definition swap_fits :: "royalty_pool \<Rightarrow> u64 on_side \<Rightarrow> bool" where
  "swap_fits p inp \<longleftrightarrow>
    (let a = unat (on_side_unwrap inp); n = unat (fst (pool_fee p)); d = unat (snd (pool_fee p));
         (ri, ro, res_in, out_asset) =
           (if into_x p inp then (tradable_x p, tradable_y p, reserves_x p, asset_y p)
            else (tradable_y p, tradable_x p, reserves_y p, asset_x p))
     in unat ro * a * n < 2 ^ 128 \<and> unat ri * d + a * n < 2 ^ 128 \<and> unat res_in + a < 2 ^ 64 \<and>
        (\<forall>r \<in> {treasury_fee p, first_royalty_fee p, second_royalty_fee p}. a * unat (fst r) < 2 ^ 64) \<and>
        (out_asset = Native \<longrightarrow> UNTOUCHABLE_LOVELACE_AMOUNT \<le> ro))"

lemma swap_fits_flip: "asset_x p \<noteq> asset_y p \<Longrightarrow> swap_fits (flip_pool p) inp \<longleftrightarrow> swap_fits p inp"
  using into_x_flip [of p inp] by (simp add: swap_fits_def Let_def)

lemma tradable_nat:
  assumes "pool_ok p"
  shows "unat (tradable_x p) + unat (treasury_x p) + unat (first_royalty_x p) + unat (second_royalty_x p) = unat (reserves_x p)"
    and "unat (tradable_y p) + unat (treasury_y p) + unat (first_royalty_y p) + unat (second_royalty_y p) = unat (reserves_y p)"
    and "0 < unat (tradable_x p)" "0 < unat (tradable_y p)"
proof -
  have *: "unat (r - t - a - b) + unat t + unat a + unat b = unat r" if "unat t + unat a + unat b < unat r" for r t a b :: u64
  proof -
    have 1: "unat (r - t) = unat r - unat t" using that by (intro unat_sub) (simp add: word_le_nat_alt)
    have 2: "unat (r - t - a) = unat r - unat t - unat a" using that 1 by (subst unat_sub) (simp_all add: word_le_nat_alt)
    have "unat (r - t - a - b) = unat r - unat t - unat a - unat b" using that 2 by (subst unat_sub) (simp_all add: word_le_nat_alt)
    then show ?thesis using that by linarith
  qed
  show x: "unat (tradable_x p) + unat (treasury_x p) + unat (first_royalty_x p) + unat (second_royalty_x p) = unat (reserves_x p)"
    and y: "unat (tradable_y p) + unat (treasury_y p) + unat (first_royalty_y p) + unat (second_royalty_y p) = unat (reserves_y p)"
    using assms unfolding pool_ok_def tradable_x_def tradable_y_def by (blast intro: *)+
  show "0 < unat (tradable_x p)" "0 < unat (tradable_y p)"
    using x y assms unfolding pool_ok_def by linarith+
qed


text \<open>The shares of treasury and royalties of a trade stay within its input.\<close>

definition fee_shares :: "royalty_pool \<Rightarrow> u64 \<Rightarrow> nat" where
  "fee_shares p a = unat (fee_share a (treasury_fee p)) + unat (fee_share a (first_royalty_fee p)) +
     unat (fee_share a (second_royalty_fee p))"

lemma fee_shares_le:
  assumes "pool_ok p" "\<forall>r \<in> {treasury_fee p, first_royalty_fee p, second_royalty_fee p}. unat a * unat (fst r) < 2 ^ 64"
  shows "(of_nat (fee_shares p a) :: rat) \<le> of_nat (unat a) * (1 - fee_rat p)" "fee_shares p a \<le> unat a"
proof -
  have s: "(of_nat (unat (fee_share a r)) :: rat) \<le> of_nat (unat a) * ratio_val r"
    if "r \<in> {treasury_fee p, first_royalty_fee p, second_royalty_fee p}" for r
    using assms that by (intro unat_fee_share) (auto simp: pool_ok_def)
  have "(of_nat (fee_shares p a) :: rat) \<le>
      of_nat (unat a) * (ratio_val (treasury_fee p) + ratio_val (first_royalty_fee p) + ratio_val (second_royalty_fee p))"
    using s [of "treasury_fee p"] s [of "first_royalty_fee p"] s [of "second_royalty_fee p"]
    by (simp add: fee_shares_def distrib_left)
  also have "\<dots> \<le> of_nat (unat a) * (1 - fee_rat p)"
    using assms(1) by (intro mult_left_mono) (simp_all add: pool_ok_def fee_rat_def)
  finally show 1: "(of_nat (fee_shares p a) :: rat) \<le> of_nat (unat a) * (1 - fee_rat p)" .
  also have "\<dots> \<le> of_nat (unat a) * 1" using assms(1) by (intro mult_left_mono) (simp_all add: pool_ok_def)
  finally show "fee_shares p a \<le> unat a" by simp
qed

lemma swap_output_bound:
  assumes "pool_ok p" "swap_fits p inp" "into_x p inp"
  shows "unat (swap_output p inp) \<le>
    (unat (tradable_y p) * unat (on_side_unwrap inp) * unat (fst (pool_fee p))) div
    (unat (tradable_x p) * unat (snd (pool_fee p)) + unat (on_side_unwrap inp) * unat (fst (pool_fee p)))"
    (is "_ \<le> ?q")
proof -
  let ?Q = "cfmm_quote (tradable_x p) (tradable_y p) (on_side_unwrap inp) (fst (pool_fee p)) (snd (pool_fee p))"
  have fits: "unat (tradable_y p) * unat (on_side_unwrap inp) * unat (fst (pool_fee p)) < 2 ^ 128"
    "unat (tradable_x p) * unat (snd (pool_fee p)) + unat (on_side_unwrap inp) * unat (fst (pool_fee p)) < 2 ^ 128"
    "asset_y p = Native \<Longrightarrow> UNTOUCHABLE_LOVELACE_AMOUNT \<le> tradable_y p"
    using assms(2,3) by (simp_all add: swap_fits_def Let_def)
  have Q: "unat ?Q = ?q" by (rule unat_cfmm_quote [OF fits(1,2)])
  have "?q < unat (tradable_y p)"
    using product_grows(1) [OF order_refl _ _ _ order_refl] tradable_nat(3,4) [OF assms(1)] pool_fee_val(2) [OF assms(1)] by blast
  then have "unat (capped (asset_y p) (tradable_y p) ?Q) \<le> unat ?Q"
    using Q fits(3) by (intro unat_capped) simp_all
  then show ?thesis
    using swap_output_x(1) [OF _ assms(3)] assms(1) Q by (simp add: pool_ok_def)
qed

lemma swap_x:
  assumes ok: "pool_ok p" and fits: "swap_fits p inp" and x: "into_x p inp"
  defines "a \<equiv> on_side_unwrap inp" and "out \<equiv> swap_output p inp"
  shows "unat out < unat (tradable_y p)"
    and "unat (reserves_x (swap p inp)) = unat (reserves_x p) + unat a"
    and "unat (reserves_y (swap p inp)) + unat out = unat (reserves_y p)"
    and "unat (tradable_x (swap p inp)) + fee_shares p a = unat (tradable_x p) + unat a"
    and "unat (tradable_y (swap p inp)) + unat out = unat (tradable_y p)"
    and "pool_ok (swap p inp)"
proof -
  let ?p = "swap p inp"
  note b = swap_output_bound [OF ok fits x, folded a_def out_def]
  note fv = pool_fee_val [OF ok] and t = tradable_nat [OF ok]
  show lt: "unat out < unat (tradable_y p)"
    using product_grows(1) [OF b t(3,4) fv(2) order_refl] .
  have res: "unat (reserves_x p) + unat a < 2 ^ 64"
    and fees: "\<forall>r \<in> {treasury_fee p, first_royalty_fee p, second_royalty_fee p}. unat a * unat (fst r) < 2 ^ 64"
    using fits x by (simp_all add: swap_fits_def Let_def a_def)
  note fs = fee_shares_le [OF ok fees]
  have sw: "?p = deposit_x a out p" using swap_output_x(2) [OF _ x] ok by (simp add: pool_ok_def a_def out_def)
  show rx: "unat (reserves_x ?p) = unat (reserves_x p) + unat a"
    using res by (simp add: sw deposit_x_def unat_add_small)
  have ol: "out \<le> reserves_y p" using lt t(2) by (simp add: word_le_nat_alt)
  then show ry: "unat (reserves_y ?p) + unat out = unat (reserves_y p)"
    by (simp add: sw deposit_x_def unat_sub_le word_le_nat_alt)
  have add: "unat (treasury_x ?p) = unat (treasury_x p) + unat (fee_share a (treasury_fee p))"
    "unat (first_royalty_x ?p) = unat (first_royalty_x p) + unat (fee_share a (first_royalty_fee p))"
    "unat (second_royalty_x ?p) = unat (second_royalty_x p) + unat (fee_share a (second_royalty_fee p))"
    using res t(1) fs(2) by (simp_all add: sw deposit_x_def fee_shares_def unat_add_small)
  have same: "treasury_y ?p = treasury_y p" "first_royalty_y ?p = first_royalty_y p" "second_royalty_y ?p = second_royalty_y p"
    "fee_rat ?p = fee_rat p" "asset_x ?p = asset_x p" "asset_y ?p = asset_y p" "lp_fee ?p = lp_fee p"
    "treasury_fee ?p = treasury_fee p" "first_royalty_fee ?p = first_royalty_fee p" "second_royalty_fee ?p = second_royalty_fee p"
    by (simp_all add: sw deposit_x_def fee_rat_def)
  show ok': "pool_ok ?p"
    using ok fs(2) lt t ry unfolding pool_ok_def same add rx fee_shares_def by auto
  note t' = tradable_nat [OF ok']
  show "unat (tradable_x ?p) + fee_shares p a = unat (tradable_x p) + unat a"
    using t(1) t'(1) rx add by (simp add: fee_shares_def)
  show "unat (tradable_y ?p) + unat out = unat (tradable_y p)"
    using t(2) t'(2) ry unfolding same by linarith
qed

lemma swap_x_product:
  assumes ok: "pool_ok p" and fits: "swap_fits p inp" and x: "into_x p inp"
  shows "unat (tradable_x p) * unat (tradable_y p) \<le> unat (tradable_x (swap p inp)) * unat (tradable_y (swap p inp))"
proof -
  let ?a = "on_side_unwrap inp" and ?p = "swap p inp"
  note sx = swap_x [OF ok fits x] and fv = pool_fee_val [OF ok] and t = tradable_nat [OF ok]
  have "\<forall>r \<in> {treasury_fee p, first_royalty_fee p, second_royalty_fee p}. unat ?a * unat (fst r) < 2 ^ 64"
    using fits x by (simp add: swap_fits_def Let_def)
  note fs = fee_shares_le(1) [OF ok this]
  have "(of_nat (unat (tradable_x ?p)) :: rat) = of_nat (unat (tradable_x p)) + of_nat (unat ?a) - of_nat (fee_shares p ?a)"
    using arg_cong [OF sx(4), of "of_nat :: nat \<Rightarrow> rat"] by (simp add: algebra_simps)
  then have "of_nat (unat (tradable_x p)) + of_nat (unat ?a) * (of_nat (unat (fst (pool_fee p))) / of_nat (unat (snd (pool_fee p))))
      \<le> (of_nat (unat (tradable_x ?p)) :: rat)"
    using fs by (simp only: fv(1)) (simp add: algebra_simps)
  note pg = product_grows(2) [OF swap_output_bound [OF ok fits x] t(3,4) fv(2) this]
  have "(of_nat (unat (tradable_y p)) :: rat) - of_nat (unat (swap_output p inp)) = of_nat (unat (tradable_y ?p))"
    using arg_cong [OF sx(5), of "of_nat :: nat \<Rightarrow> rat"] by (simp add: algebra_simps)
  with pg have "(of_nat (unat (tradable_x p) * unat (tradable_y p)) :: rat) \<le> of_nat (unat (tradable_x ?p) * unat (tradable_y ?p))"
    by simp
  then show ?thesis by (simp only: of_nat_le_iff)
qed

lemma swap_sel [simp]:
  "asset_x (swap p inp) = asset_x p" "asset_y (swap p inp) = asset_y p" "asset_lq (swap p inp) = asset_lq p"
  "rp_id (swap p inp) = rp_id p" "lp_fee (swap p inp) = lp_fee p" "treasury_fee (swap p inp) = treasury_fee p"
  "first_royalty_fee (swap p inp) = first_royalty_fee p" "rp_liquidity (swap p inp) = rp_liquidity p"
  "rp_ver (swap p inp) = rp_ver p"
  by (simp_all add: swap_def deposit_x_def deposit_y_def Let_def split: on_side.splits)

lemma base_asset_swap [simp]: "base_asset_of (swap p inp) = base_asset_of p"
  by (simp add: base_asset_of_def)

lemma swap_sound:
  assumes "pool_ok p" "swap_fits p inp"
  shows "pool_ok (swap p inp) \<and>
    unat (tradable_x p) * unat (tradable_y p) \<le> unat (tradable_x (swap p inp)) * unat (tradable_y (swap p inp)) \<and>
    (let r0 = liquidity_of p; r1 = liquidity_of (swap p inp); out = unat (swap_output p inp)
     in case inp of
          OnBid n \<Rightarrow> unat (quote r1) = unat (quote r0) + unat n \<and> unat (base r1) + out = unat (base r0)
        | OnAsk n \<Rightarrow> unat (base r1) = unat (base r0) + unat n \<and> unat (quote r1) + out = unat (quote r0))"
proof -
  have ne: "asset_x p \<noteq> asset_y p" using assms(1) by (simp add: pool_ok_def)
  show ?thesis
  proof (cases "into_x p inp")
    case True
    note sx = swap_x [OF assms True] swap_x_product [OF assms True]
    then show ?thesis
      using True by (cases inp) (auto simp: liquidity_of_def into_x_def Let_def)
  next
    case False
    have f: "pool_ok (flip_pool p)" "swap_fits (flip_pool p) inp" "into_x (flip_pool p) inp"
      using assms False into_x_flip [OF ne] swap_fits_flip [OF ne] by simp_all
    note sf = swap_flip [OF ne False]
    note sx = swap_x [OF f, unfolded sf(2)] swap_x_product [OF f]
    have sx': "pool_ok (swap p inp)" "unat (reserves_y (swap p inp)) = unat (reserves_y p) + unat (on_side_unwrap inp)"
      "unat (reserves_x (swap p inp)) + unat (swap_output p inp) = unat (reserves_x p)"
      "unat (tradable_x p) * unat (tradable_y p) \<le> unat (tradable_x (swap p inp)) * unat (tradable_y (swap p inp))"
      using sx(2,3,6,7) by (simp_all add: sf(1) mult.commute)
    then show ?thesis
      using False by (cases inp) (auto simp: liquidity_of_def into_x_def Let_def)
  qed
qed


text \<open>What the pool owes on each side: treasury, first and second royalty.\<close>

definition owed_x :: "royalty_pool \<Rightarrow> nat list" where
  "owed_x p = [unat (treasury_x p), unat (first_royalty_x p), unat (second_royalty_x p)]"

definition owed_y :: "royalty_pool \<Rightarrow> nat list" where
  "owed_y p = [unat (treasury_y p), unat (first_royalty_y p), unat (second_royalty_y p)]"

definition fees_on :: "royalty_pool \<Rightarrow> u64 \<Rightarrow> nat list" where
  "fees_on p a = map (\<lambda>r. unat a * unat (fst r) div unat (snd r)) [treasury_fee p, first_royalty_fee p, second_royalty_fee p]"

lemma owed_flip: "owed_x (flip_pool p) = owed_y p" "owed_y (flip_pool p) = owed_x p" "fees_on (flip_pool p) a = fees_on p a"
  by (simp_all add: owed_x_def owed_y_def fees_on_def flip_pool_def)

lemma swap_x_fees:
  assumes ok: "pool_ok p" and fits: "swap_fits p inp" and x: "into_x p inp"
  shows "owed_x (swap p inp) = map2 (+) (owed_x p) (fees_on p (on_side_unwrap inp)) \<and> owed_y (swap p inp) = owed_y p"
proof -
  let ?a = "on_side_unwrap inp"
  have res: "unat (reserves_x p) + unat ?a < 2 ^ 64"
    and fees: "\<forall>r \<in> {treasury_fee p, first_royalty_fee p, second_royalty_fee p}. unat ?a * unat (fst r) < 2 ^ 64"
    using fits x by (simp_all add: swap_fits_def Let_def)
  have f: "unat (fee_share ?a r) = unat ?a * unat (fst r) div unat (snd r)"
    if "r \<in> {treasury_fee p, first_royalty_fee p, second_royalty_fee p}" for r
    using bspec [OF fees that] by (simp add: fee_share_def unat_div_distrib unat_mul_small)
  have sw: "swap p inp = deposit_x ?a (swap_output p inp) p" using swap_output_x(2) [OF _ x] ok by (simp add: pool_ok_def)
  have le: "fee_shares p ?a \<le> unat ?a" by (rule fee_shares_le(2) [OF ok fees])
  have "unat (treasury_x p + fee_share ?a (treasury_fee p)) = unat (treasury_x p) + unat (fee_share ?a (treasury_fee p))"
    "unat (first_royalty_x p + fee_share ?a (first_royalty_fee p)) = unat (first_royalty_x p) + unat (fee_share ?a (first_royalty_fee p))"
    "unat (second_royalty_x p + fee_share ?a (second_royalty_fee p)) = unat (second_royalty_x p) + unat (fee_share ?a (second_royalty_fee p))"
    using res tradable_nat(1) [OF ok] le by (simp_all add: fee_shares_def unat_add_small)
  then show ?thesis by (simp add: sw deposit_x_def owed_x_def owed_y_def fees_on_def f)
qed

lemma swap_fees:
  assumes "pool_ok p" "swap_fits p inp"
  shows "if into_x p inp
    then unat (swap_output p inp) < unat (tradable_y p) \<and>
      owed_x (swap p inp) = map2 (+) (owed_x p) (fees_on p (on_side_unwrap inp)) \<and> owed_y (swap p inp) = owed_y p
    else unat (swap_output p inp) < unat (tradable_x p) \<and>
      owed_y (swap p inp) = map2 (+) (owed_y p) (fees_on p (on_side_unwrap inp)) \<and> owed_x (swap p inp) = owed_x p"
proof (cases "into_x p inp")
  case True
  then show ?thesis using swap_x(1) [OF assms True] swap_x_fees [OF assms True] by simp
next
  case False
  have ne: "asset_x p \<noteq> asset_y p" using assms(1) by (simp add: pool_ok_def)
  have f: "pool_ok (flip_pool p)" "swap_fits (flip_pool p) inp" "into_x (flip_pool p) inp"
    using assms False into_x_flip [OF ne] swap_fits_flip [OF ne] by simp_all
  note sf = swap_flip [OF ne False]
  have "unat (swap_output p inp) < unat (tradable_x p)" using swap_x(1) [OF f, unfolded sf(2)] by simp
  moreover have "owed_y (swap p inp) = map2 (+) (owed_y p) (fees_on p (on_side_unwrap inp)) \<and> owed_x (swap p inp) = owed_x p"
    using swap_x_fees [OF f] by (simp add: sf(1) owed_flip)
  ultimately show ?thesis using False by simp
qed


section \<open>Properties of a swap\<close>

text \<open>
  C38. A swap whose amounts and products fit into the machine integers, on a pool that has at least 3 ada of tradable reserve if ada is what it pays out, keeps a
  well-formed pool well formed and never lowers the product of its tradable reserves.
  It adds exactly the input to the side that is paid in, takes less than the tradable reserve from
  the other side, and on the side paid in adds to the treasury and to each royalty its share of the input, rounded down, while what is owed on
  the other side stays.
\<close>

theorem swap_preserves_pool:
  assumes "pool_ok p" "swap_fits p inp"
  shows "pool_ok (swap p inp) \<and>
    unat (tradable_x p) * unat (tradable_y p) \<le> unat (tradable_x (swap p inp)) * unat (tradable_y (swap p inp)) \<and>
    (let r0 = liquidity_of p; r1 = liquidity_of (swap p inp); out = unat (swap_output p inp)
     in case inp of
          OnBid n \<Rightarrow> unat (quote r1) = unat (quote r0) + unat n \<and> unat (base r1) + out = unat (base r0)
        | OnAsk n \<Rightarrow> unat (base r1) = unat (base r0) + unat n \<and> unat (quote r1) + out = unat (quote r0)) \<and>
    (if into_x p inp
     then unat (swap_output p inp) < unat (tradable_y p) \<and>
       owed_x (swap p inp) = map2 (+) (owed_x p) (fees_on p (on_side_unwrap inp)) \<and> owed_y (swap p inp) = owed_y p
     else unat (swap_output p inp) < unat (tradable_x p) \<and>
       owed_y (swap p inp) = map2 (+) (owed_y p) (fees_on p (on_side_unwrap inp)) \<and> owed_x (swap p inp) = owed_x p)"
  using swap_sound [OF assms] swap_fees [OF assms] by blast

text \<open>
  C39. A pool whose asset x is ada, with less than 3 ada of tradable reserve, quotes a wrapped amount for every bid whose products fit into 128 bits and which
  does not overflow the reserves: the cap \<open>liquidity - 3000000\<close> goes
  below zero, so the quoted output is \<open>2^64\<close> less the missing ada, and the swap
  raises the ada reserves to make up for it and credits the taker nothing.
\<close>

theorem small_ada_pool_wraps:
  assumes "pool_ok p" "asset_x p = Native" "tradable_x p < UNTOUCHABLE_LOVELACE_AMOUNT"
    and "unat (tradable_x p) * unat n * unat (fst (pool_fee p)) < 2 ^ 128"
    and "unat (tradable_y p) * unat (snd (pool_fee p)) + unat n * unat (fst (pool_fee p)) < 2 ^ 128"
    and "unat (reserves_x p) + 3000000 < 2 ^ 64" "unat (reserves_y p) + unat n < 2 ^ 64"
  shows "unat (swap_output p (OnBid n)) = 2 ^ 64 + unat (tradable_x p) - 3000000 \<and>
    unat (reserves_x (swap p (OnBid n))) + unat (tradable_x p) = unat (reserves_x p) + 3000000 \<and>
    target (fst (default_swap_with_taker T (royalty_maker av) t p (OnBid n))) = t \<and>
    result (fst (default_swap_with_taker T (royalty_maker av) t p (OnBid n))) = t_with_applied_trade T t n 0"
proof -
  have ne: "asset_x p \<noteq> asset_y p" using assms(1) by (simp add: pool_ok_def)
  have b: "base_asset_of p = Native"
    using assms(2) by (cases "asset_y p") (simp_all add: base_asset_of_def order_canonical_eq min_def)
  have y: "\<not> into_x p (OnBid n)" using assms(2) b by (simp add: into_x_def)
  let ?Q = "cfmm_quote (tradable_y p) (tradable_x p) n (fst (pool_fee p)) (snd (pool_fee p))"
  have "unat ?Q = (unat (tradable_x p) * unat n * unat (fst (pool_fee p))) div
      (unat (tradable_y p) * unat (snd (pool_fee p)) + unat n * unat (fst (pool_fee p)))"
    by (rule unat_cfmm_quote [OF assms(4,5)])
  then have Q: "unat ?Q < unat (tradable_x p)"
    using product_grows(1) [OF order_refl _ _ _ order_refl] tradable_nat(3,4) [OF assms(1)] pool_fee_val(2) [OF assms(1)] by simp
  have u: "unat (ucast ?Q :: u64) = unat ?Q"
    using Q u64_lt [of "tradable_x p"] by (simp add: unsigned_ucast_eq take_bit_nat_eq_self_iff)
  have "tradable_x p - ucast ?Q \<le> tradable_x p"
    using Q u by (simp add: word_le_nat_alt unat_sub_le)
  then have "tradable_x p - ucast ?Q < UNTOUCHABLE_LOVELACE_AMOUNT" using assms(3) by (rule order_le_less_trans)
  then have out: "swap_output p (OnBid n) = tradable_x p - UNTOUCHABLE_LOVELACE_AMOUNT"
    using swap_output_y(1) [OF ne y] assms(2) by (simp add: capped_def)
  have lt: "unat (tradable_x p) < 3000000" using assms(3) by (simp add: UNTOUCHABLE_LOVELACE_AMOUNT_def word_less_nat_alt)
  have o: "unat (swap_output p (OnBid n)) = 2 ^ 64 + unat (tradable_x p) - 3000000"
    using lt by (simp add: out UNTOUCHABLE_LOVELACE_AMOUNT_def unat_sub_if' word_le_nat_alt)
  have "swap p (OnBid n) = deposit_y n (swap_output p (OnBid n)) p" using swap_output_y(2) [OF ne y] by simp
  then have r: "reserves_x (swap p (OnBid n)) = reserves_x p + (UNTOUCHABLE_LOVELACE_AMOUNT - tradable_x p)"
    "reserves_y (swap p (OnBid n)) = reserves_y p + n"
    by (simp_all add: deposit_y_def out)
  have d: "unat (UNTOUCHABLE_LOVELACE_AMOUNT - tradable_x p) = 3000000 - unat (tradable_x p)"
    using assms(3) by (subst unat_sub) (simp_all add: UNTOUCHABLE_LOVELACE_AMOUNT_def)
  have r1: "unat (reserves_x (swap p (OnBid n))) + unat (tradable_x p) = unat (reserves_x p) + 3000000"
    "unat (reserves_x p) < unat (reserves_x (swap p (OnBid n)))"
    using assms(6) lt d by (simp_all add: r unat_add_small)
  have r2: "unat (reserves_y p) \<le> unat (reserves_y (swap p (OnBid n)))"
    using assms(7) by (simp add: r unat_add_small)
  show ?thesis
    using o r1 r2 b assms(2)
    by (simp add: default_swap_with_taker_def royalty_maker_def with_default_swap_def mk_loss_def liquidity_of_def checked_sub_def
        word_le_nat_alt Let_def flip: word_unat_eq_iff)
qed

definition sample_pool :: "u64 \<Rightarrow> royalty_pool" where
  "sample_pool treasury = \<lparr> rp_id = sample_token, reserves_x = 100000000, reserves_y = 1000000, rp_liquidity = 1000,
     asset_x = Native, asset_y = Token (replicate 28 1, 1, replicate 32 0), asset_lq = Token (replicate 28 2, 1, replicate 32 0),
     lp_fee = (99700, 100000), treasury_fee = (100, 100000), treasury_x = treasury, treasury_y = 10,
     first_royalty_fee = (100, 100000), second_royalty_fee = (0, 100), first_royalty_x = 0, first_royalty_y = 5,
     second_royalty_x = 0, second_royalty_y = 0, lq_lower_bound = 0,
     admin_address = replicate 28 3, treasury_address = replicate 28 4,
     first_royalty_pub_key = replicate 32 5, second_royalty_pub_key = replicate 32 0, rp_ver = V1,
     rp_marginal_cost = \<lparr> mem = 1, steps = 2 \<rparr>, rp_bounds = \<lparr> min_n2t_lovelace = 10000000, min_t2t_lovelace = 2000000 \<rparr>,
     rp_nonce = 0, stake_part_script_hash = None \<rparr>"

lemma sample_fee: "fee_rat (sample_pool t) = 199 / 200" "quotient_of (199 / 200) = (199, 200)"
  "pool_fee (sample_pool t) = (199, 200)"
proof -
  show f: "fee_rat (sample_pool t) = 199 / 200"
    by (simp add: fee_rat_def sample_pool_def ratio_val_def)
  show q: "quotient_of (199 / 200) = (199, 200)" by code_simp
  show "pool_fee (sample_pool t) = (199, 200)"
    unfolding pool_fee_def fee_rat_def [symmetric] f q by simp
qed

lemma sample_pool_ok: "t < 100000000 \<Longrightarrow> pool_ok (sample_pool t)"
  unfolding pool_ok_def sample_fee by (simp add: sample_pool_def ratio_val_def word_less_nat_alt)

lemma sample_pool_tradable: "tradable_x (sample_pool t) = 100000000 - t" "tradable_y (sample_pool t) = 999985"
  by (simp_all add: sample_pool_def tradable_x_def tradable_y_def)

lemma sample_pool_base: "base_asset_of (sample_pool t) = Native"
  by (simp add: sample_pool_def base_asset_of_def order_canonical_eq min_def)

lemma sample_swap_fits: "swap_fits (sample_pool 0) (OnAsk 5000000)"
  unfolding swap_fits_def into_x_def sample_fee sample_pool_tradable sample_pool_base
  by (simp add: sample_pool_def Let_def)

theorem swap_preserves_pool_witness:
  "pool_ok (swap (sample_pool 0) (OnAsk 5000000)) \<and>
   unat (base (liquidity_of (swap (sample_pool 0) (OnAsk 5000000)))) = 105000000 \<and>
   owed_x (swap (sample_pool 0) (OnAsk 5000000)) = [5000, 5000, 0]"
proof -
  have f: "fees_on (sample_pool 0) 5000000 = [5000, 5000, 0]" "owed_x (sample_pool 0) = [0, 0, 0]"
    by (simp_all add: fees_on_def owed_x_def sample_pool_def)
  have i: "into_x (sample_pool 0) (OnAsk 5000000)" unfolding into_x_def sample_pool_base by (simp add: sample_pool_def)
  note x = swap_preserves_pool [OF sample_pool_ok sample_swap_fits]
  have "unat (base (liquidity_of (swap (sample_pool 0) (OnAsk 5000000)))) = 105000000"
    using x by (simp add: liquidity_of_def sample_pool_base) (simp add: sample_pool_def)
  with x i f show ?thesis by simp
qed

theorem small_ada_pool_wraps_witness:
  "is_active (sample_pool 98000000) \<and>
   unat (swap_output (sample_pool 98000000) (OnBid 1000)) = 2 ^ 64 + 2000000 - 3000000"
proof -
  have "unat (swap_output (sample_pool 98000000) (OnBid 1000)) =
      2 ^ 64 + unat (tradable_x (sample_pool 98000000)) - 3000000"
    by (rule small_ada_pool_wraps [THEN conjunct1])
      (simp_all add: sample_pool_ok sample_fee sample_pool_tradable UNTOUCHABLE_LOVELACE_AMOUNT_def, simp_all add: sample_pool_def)
  then show ?thesis by (simp add: sample_pool_tradable) (simp add: sample_pool_def is_active_def)
qed

declare of_nat_unat [simp]

end
