(* ===== verification/Pool_Exec_Correct.thy ===== *)
theory Pool_Exec_Correct
  imports Royalty_Correct
begin

text \<open>
  Correctness of the execution of a pool: the output that \<open>exec_pool\<close> builds is parsed to the pool the book
  predicted.
\<close>

section \<open>The produced pool output\<close>

lemma set_fields_nth:
  "set_fields us flds = Ok flds' \<Longrightarrow> length flds' = length flds \<and> (\<forall>(i, v) \<in> set us. i < length flds)"
  by (induction us flds rule: set_fields.induct)
    (auto simp: set_field_def and_then_eq_Ok split: if_splits)

lemma take_set_fields:
  "set_fields us flds = Ok flds' \<Longrightarrow> distinct (map fst us) \<Longrightarrow>
    take_field flds' i = (case map_of us i of Some v \<Rightarrow> Some v | None \<Rightarrow> take_field flds i)"
proof (induction us arbitrary: flds)
  case (Cons u us)
  obtain j v where u: "u = (j, v)" by (cases u)
  with Cons.prems have s: "j < length flds" "set_fields us (flds[j := v]) = Ok flds'"
    by (auto simp: set_field_def and_then_eq_Ok split: if_splits)
  have "j \<notin> set (map fst us)" using Cons.prems(2) u by simp
  then have "map_of us j = None" by (simp add: map_of_eq_None_iff)
  then show ?case
    using Cons.IH [OF s(2)] Cons.prems(2) s(1) by (auto simp: u take_field_def nth_list_update split: option.splits)
qed simp

lemma admin_of_singleton: "length h = 28 \<Longrightarrow> admin_of_pd (vec_into_pd inline_script_into_pd [h]) = Some h"
  by (simp add: admin_of_pd_def vec_into_pd_def inline_script_into_pd_def inline_credential_try_from_pd_def
      credential_try_from_pd_def take_field_def)

lemma admin_of_length: "admin_of_pd d = Some h \<Longrightarrow> length h = 28"
proof -
  assume "admin_of_pd d = Some h"
  then obtain ds cs where cs: "traverse_opt inline_credential_try_from_pd ds = Some cs"
    "(case cs of Script h # _ \<Rightarrow> Some h | _ \<Rightarrow> None) = Some h"
    unfolding admin_of_pd_def Option.bind_eq_Some_conv by blast
  from cs(2) obtain creds where "cs = Script h # creds" by (auto split: list.splits credential.splits)
  with cs(1) obtain e where "inline_credential_try_from_pd e = Some (Script h)"
    by (cases ds) (auto simp: Option.bind_eq_Some_conv)
  then show ?thesis
    by (auto simp: inline_credential_try_from_pd_def credential_try_from_pd_def Option.bind_eq_Some_conv split: if_splits)
qed

lemma u64_pd_roundtrip [simp]: "into_u64 (u64_into_pd n) = Some n"
  using uint_lt2p [of n] by (simp add: u64_into_pd_def)

text \<open>Writing the pool's changing fields into the datum and parsing it again.\<close>

lemma config_update:
  assumes "config_try_from_pd d = Some c" "unsafe_update_pd_royalty p d = Ok d'"
    and "length (admin_address p) = 28"
  shows "config_try_from_pd d' = Some (c\<lparr> rc_lp_fee_num := fst (lp_fee p), rc_treasury_fee_num := fst (treasury_fee p),
    rc_royalty_fee_num := fst (first_royalty_fee p), rc_treasury_x := treasury_x p, rc_treasury_y := treasury_y p,
    rc_royalty_x := first_royalty_x p, rc_royalty_y := first_royalty_y p, rc_admin_address := admin_address p,
    rc_treasury_address := treasury_address p, rc_nonce := rp_nonce p \<rparr>)"
proof -
  obtain alt flds where d: "d = PConstr alt flds"
    using assms(1) by (cases d) (auto simp: config_try_from_pd_def)
  from assms(2) obtain flds' where s: "set_fields
      [(4, u64_into_pd (fst (lp_fee p))), (5, u64_into_pd (fst (treasury_fee p))), (6, u64_into_pd (fst (first_royalty_fee p))),
       (7, u64_into_pd (treasury_x p)), (8, u64_into_pd (treasury_y p)), (9, u64_into_pd (first_royalty_x p)),
       (10, u64_into_pd (first_royalty_y p)), (11, vec_into_pd inline_script_into_pd [admin_address p]),
       (12, bytes_into_pd (treasury_address p)), (14, u64_into_pd (rp_nonce p))] flds = Ok flds'"
    and d': "d' = PConstr alt flds'"
    by (auto simp: unsafe_update_pd_royalty_def d and_then_eq_Ok unwrap_eq_Ok simp del: set_fields.simps)
  note tf = take_set_fields [OF s, simplified]
  show ?thesis
    using assms(1) unfolding d d'
    by (auto simp: config_try_from_pd_def tf Option.bind_eq_Some_conv admin_of_singleton [OF assms(3)] bytes_into_pd_def)
qed


lemma config_admin: "config_try_from_pd d = Some c \<Longrightarrow> length (rc_admin_address c) = 28"
  by (auto simp: config_try_from_pd_def Option.bind_eq_Some_conv admin_of_length)

lemma amount_of_amt: "amt v a = unat n \<Longrightarrow> n \<noteq> 0 \<Longrightarrow> amount_of v a = Some n"
  by (auto simp: amt_def word_unat_eq_iff split: option.splits)

lemma amt_amount_of: "amount_of v a = Some n \<Longrightarrow> amt v a = unat n"
  by (simp add: amt_def)

lemma fee_share_zero [simp]: "fee_share n (0, d) = 0"
  by (simp add: fee_share_def)

text \<open>A swap of a parsed pool is the pool of the updated configuration.\<close>

lemma swap_of_config:
  assumes p: "p = pool_of_config ctx ver st conf nft rx ry lneg" and q: "q = swap p inp"
  shows "q = pool_of_config ctx ver st (conf\<lparr> rc_lp_fee_num := fst (lp_fee q), rc_treasury_fee_num := fst (treasury_fee q),
    rc_royalty_fee_num := fst (first_royalty_fee q), rc_treasury_x := treasury_x q, rc_treasury_y := treasury_y q,
    rc_royalty_x := first_royalty_x q, rc_royalty_y := first_royalty_y q, rc_admin_address := admin_address q,
    rc_treasury_address := treasury_address q, rc_nonce := rp_nonce q \<rparr>) nft (reserves_x q) (reserves_y q) lneg"
  unfolding q p
  by (cases inp) (simp_all add: swap_def deposit_x_def deposit_y_def pool_of_config_def Let_def)


lemma royalty_sel [simp]: "m_liquidity (royalty_maker av) = liquidity_of" "m_swap (royalty_maker av) = swap" "m_id (royalty_maker av) = rp_id"
  by (simp_all add: royalty_maker_def with_default_swap_def)

text \<open>The value of the produced output holds the reserves after the swap, and every other asset is unchanged.\<close>

lemma trade_of_swap:
  assumes "pool_ok p" "swap_fits p inp" "on_side_unwrap inp \<noteq> 0" "swap_output p inp \<noteq> 0"
  shows "mk_trade_side (royalty_maker av) (p, swap p inp) = Some (case inp of OnBid _ \<Rightarrow> Bid | OnAsk _ \<Rightarrow> Ask)"
    and "map_option on_side_unwrap (mk_loss (royalty_maker av) (p, swap p inp)) = Some (swap_output p inp)"
    and "map_option on_side_unwrap (mk_gain (royalty_maker av) (p, swap p inp)) = Some (on_side_unwrap inp)"
proof -
  let ?r0 = "liquidity_of p" and ?r1 = "liquidity_of (swap p inp)"
  have pos: "0 < unat (on_side_unwrap inp)" "0 < unat (swap_output p inp)" using assms(3,4) by (simp_all add: unat_gt_0)
  have diff: "checked_sub a b = Some c" if "unat a = unat b + unat c" for a b c :: u64
  proof -
    have "unat b + unat c < 2 ^ 64" using that u64_lt [of a] by simp
    then show ?thesis using that by (simp add: checked_sub_eq_Some)
  qed
  have none: "checked_sub a b = None" if "unat a < unat b" for a b :: u64
    using that by (simp add: checked_sub_def word_le_nat_alt)
  note s = swap_sound [OF assms(1,2), THEN conjunct2, THEN conjunct2, unfolded Let_def]
  show "mk_trade_side (royalty_maker av) (p, swap p inp) = Some (case inp of OnBid _ \<Rightarrow> Bid | OnAsk _ \<Rightarrow> Ask)"
    using s pos by (cases inp) (auto simp: mk_trade_side_def word_less_nat_alt Let_def)
  show "map_option on_side_unwrap (mk_loss (royalty_maker av) (p, swap p inp)) = Some (swap_output p inp)"
  proof (cases inp)
    case (OnBid n)
    have "checked_sub (base ?r0) (base ?r1) = Some (swap_output p inp)" using s OnBid by (intro diff) simp
    then show ?thesis by (simp add: mk_loss_def)
  next
    case (OnAsk n)
    have "checked_sub (base ?r0) (base ?r1) = None" using s OnAsk pos by (intro none) simp
    moreover have "checked_sub (quote ?r0) (quote ?r1) = Some (swap_output p inp)" using s OnAsk by (intro diff) simp
    ultimately show ?thesis by (simp add: mk_loss_def)
  qed
  show "map_option on_side_unwrap (mk_gain (royalty_maker av) (p, swap p inp)) = Some (on_side_unwrap inp)"
  proof (cases inp)
    case (OnBid n)
    have "checked_sub (base ?r1) (base ?r0) = None" using s OnBid pos by (intro none) simp
    moreover have "checked_sub (quote ?r1) (quote ?r0) = Some n" using s OnBid by (intro diff) simp
    ultimately show ?thesis by (simp add: mk_gain_def OnBid)
  next
    case (OnAsk n)
    have "checked_sub (base ?r1) (base ?r0) = Some n" using s OnAsk by (intro diff) simp
    then show ?thesis by (simp add: mk_gain_def OnAsk)
  qed
qed


lemma pool_value:
  assumes "value_laws vsub vadd" "pool_ok p" "swap_fits p inp" "on_side_unwrap inp \<noteq> 0" "swap_output p inp \<noteq> 0"
    and ac: "ac_ok (asset_x p)" "ac_ok (asset_y p)"
    and held: "amt (value_of out) (asset_x p) = unat (reserves_x p)" "amt (value_of out) (asset_y p) = unat (reserves_y p)"
    and "pool_output vsub vadd (p, swap p inp) out = Ok out'"
  obtains v where "amt v (asset_x p) = unat (reserves_x (swap p inp))" "amt v (asset_y p) = unat (reserves_y (swap p inp))"
    "\<forall>a. ac_ok a \<longrightarrow> a \<noteq> asset_x p \<longrightarrow> a \<noteq> asset_y p \<longrightarrow> amt v a = amt (value_of out) a"
    "(case txo_into_datum out of
        Some (Datum d) \<Rightarrow> and_then (unsafe_update_pd_royalty (swap p inp) d) (\<lambda>d'. unwrap (set_data d' (update_value v out)))
      | _ \<Rightarrow> Ok (update_value v out)) = Ok out'"
proof -
  let ?s = "case inp of OnBid _ \<Rightarrow> Bid | OnAsk _ \<Rightarrow> Ask"
  note t = trade_of_swap [OF assms(2-5), of "\<lambda>_ _ _ _. (0, 0)"]
  obtain l g where lg: "mk_loss (royalty_maker (\<lambda>_ _ _ _. (0, 0))) (p, swap p inp) = Some l" "on_side_unwrap l = swap_output p inp"
    "mk_gain (royalty_maker (\<lambda>_ _ _ _. (0, 0))) (p, swap p inp) = Some g" "on_side_unwrap g = on_side_unwrap inp"
    using t(2,3) by auto
  obtain deduct add where da: "asset_mapping p ?s = (deduct, add)" by fastforce
  from assms(10) [unfolded pool_output_def fst_conv snd_conv] obtain v1 v where v: "vsub (value_of out) (into_value deduct (swap_output p inp)) = Some v1"
    "vadd v1 (into_value add (on_side_unwrap inp)) = Some v"
    "(case txo_into_datum out of
        Some (Datum d) \<Rightarrow> and_then (unsafe_update_pd_royalty (swap p inp) d) (\<lambda>d'. unwrap (set_data d' (update_value v out)))
      | _ \<Rightarrow> Ok (update_value v out)) = Ok out'"
    by (auto simp: t(1) lg da sub_asset_def add_asset_def and_then_eq_Ok expect_eq_Ok unwrap_eq_Ok Let_def
        simp del: into_value.simps)
  have ne: "asset_x p \<noteq> asset_y p" using assms(2) by (simp add: pool_ok_def)
  have dac: "deduct \<in> {asset_x p, asset_y p}" "add \<in> {asset_x p, asset_y p}"
    using da by (auto simp: asset_mapping_def split: if_splits side.splits on_side.splits)
  have acs: "ac_ok deduct" "ac_ok add" using dac ac by auto
  have moved: "amt v a + (if a = deduct then unat (swap_output p inp) else 0) =
      amt (value_of out) a + (if a = add then unat (on_side_unwrap inp) else 0)" if "ac_ok a" for a
  proof -
    have "amt v1 a + amt (into_value deduct (swap_output p inp)) a = amt (value_of out) a"
      "amt v a = amt v1 a + amt (into_value add (on_side_unwrap inp)) a"
      using assms(1) v(1,2) unfolding value_laws_def by blast+
    then show ?thesis using amt_into_value [OF acs(1) that] amt_into_value [OF acs(2) that] by (auto simp del: into_value.simps)
  qed
  note s = swap_sound [OF assms(2,3), THEN conjunct2, THEN conjunct2, unfolded Let_def]
  have "amt v (asset_x p) = unat (reserves_x (swap p inp)) \<and> amt v (asset_y p) = unat (reserves_y (swap p inp))"
    using moved [OF ac(1)] moved [OF ac(2)] held s da ne base_quote [OF ne]
    by (cases inp) (auto simp: liquidity_of_def asset_mapping_def split: if_splits)
  moreover have "amt v a = amt (value_of out) a" if "ac_ok a" "a \<noteq> asset_x p" "a \<noteq> asset_y p" for a
    using moved [OF that(1)] that dac by auto
  ultimately show thesis using that v(3) by blast
qed


section \<open>The pool the agent predicts is the pool on the ledger\<close>

lemma parsed_pool:
  assumes "pool_try_from_ledger ctx out = Some p"
  obtains ver d conf lneg nft where "try_pool_ver_from_address ctx out = Some ver" "txo_into_datum out = Some (Datum d)"
    "config_try_from_pd d = Some conf" "amount_of (value_of out) (rc_asset_lq conf) = Some lneg"
    "amount_of (value_of out) (rc_asset_x conf) = Some (reserves_x p)" "amount_of (value_of out) (rc_asset_y conf) = Some (reserves_y p)"
    "rc_asset_x conf = Native \<or> rc_asset_y conf = Native \<or> min_t2t_lovelace (pc_validation ctx) \<le> coin (value_of out)"
    "rc_pool_nft conf = Token nft" "length (rc_treasury_address conf) = 28" "length (rc_royalty_pub_key conf) = 32"
    "p = pool_of_config ctx ver (case pc_staking_cred ctx (address out) of Some (Script h) \<Rightarrow> Some h | _ \<Rightarrow> None)
       conf nft (reserves_x p) (reserves_y p) lneg"
proof -
  from assms obtain ver od d conf lneg rx ry nft where *: "try_pool_ver_from_address ctx out = Some ver"
    "txo_into_datum out = Some od" "datum_into_pd od = Some d" "config_try_from_pd d = Some conf"
    "amount_of (value_of out) (rc_asset_lq conf) = Some lneg" "amount_of (value_of out) (rc_asset_x conf) = Some rx"
    "amount_of (value_of out) (rc_asset_y conf) = Some ry"
    "rc_asset_x conf = Native \<or> rc_asset_y conf = Native \<or> min_t2t_lovelace (pc_validation ctx) \<le> coin (value_of out)"
    "rc_pool_nft conf = Token nft" "length (rc_treasury_address conf) = 28" "length (rc_royalty_pub_key conf) = 32"
    "p = pool_of_config ctx ver (case pc_staking_cred ctx (address out) of Some (Script h) \<Rightarrow> Some h | _ \<Rightarrow> None) conf nft rx ry lneg"
    by (auto simp: pool_try_from_ledger_def Option.bind_eq_Some_conv Let_def split: if_splits asset_class.splits)
  have "od = Datum d" using *(3) by (cases od) simp_all
  moreover have "reserves_x p = rx" "reserves_y p = ry" by (simp_all add: *(12) pool_of_config_def)
  ultimately show thesis by (intro that [of ver d conf lneg nft]) (simp_all add: *(1-11), rule *(12))
qed


lemma parse_pool:
  assumes "try_pool_ver_from_address ctx out = Some ver" "txo_into_datum out = Some (Datum d)" "config_try_from_pd d = Some conf"
    and "amount_of (value_of out) (rc_asset_lq conf) = Some lneg"
    and "amount_of (value_of out) (rc_asset_x conf) = Some rx" "amount_of (value_of out) (rc_asset_y conf) = Some ry"
    and "unat (rc_treasury_x conf) + unat (rc_royalty_x conf) < unat rx" "unat (rc_treasury_y conf) + unat (rc_royalty_y conf) < unat ry"
    and "rc_asset_x conf = Native \<or> rc_asset_y conf = Native \<or> min_t2t_lovelace (pc_validation ctx) \<le> coin (value_of out)"
    and "rc_pool_nft conf = Token nft" "length (rc_treasury_address conf) = 28" "length (rc_royalty_pub_key conf) = 32"
  shows "pool_try_from_ledger ctx out = Some (pool_of_config ctx ver
    (case pc_staking_cred ctx (address out) of Some (Script h) \<Rightarrow> Some h | _ \<Rightarrow> None) conf nft rx ry lneg)"
proof -
  have "\<exists>c. checked_sub r (t + u) = Some c \<and> c \<noteq> 0" if "unat t + unat u < unat r" for r t u :: u64
  proof -
    have "unat (t + u) = unat t + unat u" using that u64_lt [of r] by (simp add: unat_add_small)
    then show ?thesis using that by (auto simp: checked_sub_def word_le_nat_alt)
  qed
  from this [OF assms(7)] this [OF assms(8)] show ?thesis
    using assms(1-6,9-12) by (auto simp: pool_try_from_ledger_def Let_def)
qed

lemma produced_pool:
  assumes "value_laws vsub vadd" "pool_try_from_ledger ctx out = Some p"
    and "pool_ok p" "swap_fits p inp" "on_side_unwrap inp \<noteq> 0" "swap_output p inp \<noteq> 0"
    and "ac_ok (asset_x p)" "ac_ok (asset_y p)" "ac_ok (asset_lq p)" "asset_lq p \<noteq> asset_x p" "asset_lq p \<noteq> asset_y p"
    and "rp_liquidity p \<noteq> MAX_LQ_CAP"
    and o: "pool_output vsub vadd (p, swap p inp) out = Ok out'"
  shows "pool_try_from_ledger ctx out' = Some (swap p inp)"
proof -
  let ?q = "swap p inp"
  obtain ver d conf lneg nft where P: "try_pool_ver_from_address ctx out = Some ver" "txo_into_datum out = Some (Datum d)"
    "config_try_from_pd d = Some conf" "amount_of (value_of out) (rc_asset_lq conf) = Some lneg"
    "amount_of (value_of out) (rc_asset_x conf) = Some (reserves_x p)" "amount_of (value_of out) (rc_asset_y conf) = Some (reserves_y p)"
    "rc_asset_x conf = Native \<or> rc_asset_y conf = Native \<or> min_t2t_lovelace (pc_validation ctx) \<le> coin (value_of out)"
    "rc_pool_nft conf = Token nft" "length (rc_treasury_address conf) = 28" "length (rc_royalty_pub_key conf) = 32"
    "p = pool_of_config ctx ver (case pc_staking_cred ctx (address out) of Some (Script h) \<Rightarrow> Some h | _ \<Rightarrow> None)
       conf nft (reserves_x p) (reserves_y p) lneg"
    by (rule parsed_pool [OF assms(2)])
  have sel: "asset_x p = rc_asset_x conf" "asset_y p = rc_asset_y conf" "asset_lq p = rc_asset_lq conf"
    "rp_liquidity p = MAX_LQ_CAP - lneg" "admin_address p = rc_admin_address conf" "treasury_address p = rc_treasury_address conf"
    "second_royalty_x p = 0" "second_royalty_y p = 0" "second_royalty_fee p = (0, 100)"
    by (subst P(11), simp add: pool_of_config_def)+
  have keep: "admin_address ?q = admin_address p" "treasury_address ?q = treasury_address p"
    "second_royalty_x ?q = 0" "second_royalty_y ?q = 0"
    using sel by (simp_all add: swap_def deposit_x_def deposit_y_def Let_def split: on_side.splits)
  have held: "amt (value_of out) (asset_x p) = unat (reserves_x p)" "amt (value_of out) (asset_y p) = unat (reserves_y p)"
    using P(5,6) by (simp_all add: sel amt_amount_of)
  obtain v where v: "amt v (asset_x p) = unat (reserves_x ?q)" "amt v (asset_y p) = unat (reserves_y ?q)"
    "\<forall>a. ac_ok a \<longrightarrow> a \<noteq> asset_x p \<longrightarrow> a \<noteq> asset_y p \<longrightarrow> amt v a = amt (value_of out) a"
    "(case txo_into_datum out of
        Some (Datum d) \<Rightarrow> and_then (unsafe_update_pd_royalty ?q d) (\<lambda>d'. unwrap (set_data d' (update_value v out)))
      | _ \<Rightarrow> Ok (update_value v out)) = Ok out'"
    by (rule pool_value [OF assms(1,3-8) held o])
  then obtain d' where d': "unsafe_update_pd_royalty ?q d = Ok d'" "set_data d' (update_value v out) = Some out'"
    using P(2) by (auto simp: and_then_eq_Ok unwrap_eq_Ok)
  have out': "address out' = address out" "value_of out' = v" "txo_into_datum out' = Some (Datum d')"
    using set_data_Some [OF d'(2)] by simp_all
  have ok: "pool_ok ?q" using swap_sound [OF assms(3,4)] by blast
  then have pos: "0 < unat (reserves_x ?q)" "0 < unat (reserves_y ?q)" by (auto simp: pool_ok_def)
  let ?conf = "conf\<lparr> rc_lp_fee_num := fst (lp_fee ?q), rc_treasury_fee_num := fst (treasury_fee ?q),
    rc_royalty_fee_num := fst (first_royalty_fee ?q), rc_treasury_x := treasury_x ?q, rc_treasury_y := treasury_y ?q,
    rc_royalty_x := first_royalty_x ?q, rc_royalty_y := first_royalty_y ?q, rc_admin_address := admin_address ?q,
    rc_treasury_address := treasury_address ?q, rc_nonce := rp_nonce ?q \<rparr>"
  have c: "config_try_from_pd d' = Some ?conf"
    using P(3) by (intro config_update [OF P(3) d'(1)]) (simp add: keep sel config_admin)
  have lq: "amount_of v (asset_lq p) = Some lneg"
    using v(3) assms(9-12) P(4) by (intro amount_of_amt) (auto simp: sel amt_amount_of)
  have lov: "rc_asset_x conf = Native \<or> rc_asset_y conf = Native \<or> min_t2t_lovelace (pc_validation ctx) \<le> coin v"
    using P(7) v(3) [rule_format, of Native] by (cases "rc_asset_x conf = Native"; cases "rc_asset_y conf = Native") (auto simp: sel amt_def simp flip: word_unat_eq_iff)
  have "pool_try_from_ledger ctx out' = Some (pool_of_config ctx ver
      (case pc_staking_cred ctx (address out') of Some (Script h) \<Rightarrow> Some h | _ \<Rightarrow> None) ?conf nft (reserves_x ?q) (reserves_y ?q) lneg)"
    using ok P(1,8-10) v(1,2) pos lq lov
    by (intro parse_pool [OF _ out'(3) c])
      (simp_all add: try_pool_ver_from_address_def out' sel keep pool_ok_def amount_of_amt unat_gt_0 [symmetric])
  also have "\<dots> = Some ?q" using swap_of_config [OF P(11) refl, of inp] by (simp add: out'(1))
  finally show ?thesis .
qed

text \<open>
  C40. The output that the executor builds for a swapped pool is parsed to exactly the pool the book predicted: the
  reserves moved by the trade and the new shares of treasury and royalties, everything else unchanged.
\<close>

theorem executed_pool_is_predicted:
  assumes "value_laws vsub vadd" "pool_try_from_ledger ctx out = Some p"
    and "pool_ok p" "swap_fits p inp" "on_side_unwrap inp \<noteq> 0" "swap_output p inp \<noteq> 0"
    and "ac_ok (asset_x p)" "ac_ok (asset_y p)" "ac_ok (asset_lq p)" "asset_lq p \<noteq> asset_x p" "asset_lq p \<noteq> asset_y p"
    and "rp_liquidity p \<noteq> MAX_LQ_CAP"
    and "exec_pool vsub vadd v1 v1_fixed s (p, swap p inp) (out, r) = Ok (s', eff)"
  shows "\<exists>out'. eff = Updated (p, (out, r)) (swap p inp, out') \<and> pool_try_from_ledger ctx out' = Some (swap p inp)"
proof -
  from assms(13) obtain out' where o: "pool_output vsub vadd (p, swap p inp) out = Ok out'"
    "eff = Updated (p, (out, r)) (swap p inp, out')"
    by (auto simp: exec_pool_def and_then_eq_Ok Let_def)
  with produced_pool [OF assms(1-12) o(1)] show ?thesis by blast
qed

definition asset_sub :: "val \<Rightarrow> val \<Rightarrow> val option" where
  "asset_sub v w =
    (case multiasset w of
       [(pol, [(n, k)])] \<Rightarrow>
         (case map_of (multiasset v) pol of
            Some b \<Rightarrow> (case map_of b n of
                         Some m \<Rightarrow> if coin w = 0 \<and> k \<le> m
                                   then Some (v\<lparr> multiasset := hm_insert pol (hm_insert n (m - k) b) (multiasset v) \<rparr>) else None
                       | None \<Rightarrow> None)
          | None \<Rightarrow> None)
     | _ \<Rightarrow> None)"

definition coin_add :: "val \<Rightarrow> val \<Rightarrow> val option" where
  "coin_add v w = (if multiasset w = [] \<and> unat (coin v) + unat (coin w) < 2 ^ 64 then Some (v\<lparr> coin := coin v + coin w \<rparr>) else None)"

lemma asset_value_laws: "value_laws asset_sub coin_add"
proof -
  have "amt u a + amt w a = amt v a" if "asset_sub v w = Some u" for v w u a
    using that
    by (cases a rule: ac_ok.cases)
      (auto simp: asset_sub_def amt_def ma_get_def map_of_hm_insert unat_sub_le word_le_nat_alt
        split: list.splits option.splits if_splits)
  moreover have "amt u a = amt v a + amt w a" if "coin_add v w = Some u" for v w u a
    using that by (cases a rule: ac_ok.cases)
      (auto simp: coin_add_def amt_def ma_get_def unat_add_small split: if_splits)
  ultimately show ?thesis by (simp add: value_laws_def)
qed

definition sample_pool_ctx :: "unit pool_ctx" where
  "sample_pool_ctx = \<lparr> pc_payment_cred = (\<lambda>_. Some (Script [1])), pc_staking_cred = (\<lambda>_. None), pc_v1_hash = [1],
     pc_v1_cost = \<lparr> mem = 1, steps = 2 \<rparr>, pc_fixed_hash = [2], pc_fixed_cost = \<lparr> mem = 1, steps = 2 \<rparr>,
     pc_validation = \<lparr> min_n2t_lovelace = 10000000, min_t2t_lovelace = 2000000 \<rparr> \<rparr>"

definition sample_pool_datum :: plutus_data where
  "sample_pool_datum = PConstr 0
    [PConstr 0 [PBytes (replicate 28 1), PBytes [7, 8]], PConstr 0 [PBytes [], PBytes []],
     PConstr 0 [PBytes (replicate 28 1), PBytes [0]], PConstr 0 [PBytes (replicate 28 2), PBytes [0]],
     PInteger 99700, PInteger 100, PInteger 100, PInteger 0, PInteger 10, PInteger 0, PInteger 5,
     PList [inline_script_into_pd (replicate 28 3)], PBytes (replicate 28 4), PBytes (replicate 32 5), PInteger 0]"

definition sample_pool_out :: "unit tx_out" where
  "sample_pool_out = ConwayFormatTxOut ()
    \<lparr> coin = 100000000, multiasset = [(replicate 28 1, [([0], 1000000)]), (replicate 28 2, [([0], 9223372036854774807)])] \<rparr>
    (Some (Datum sample_pool_datum))"

lemma pad_zero: "(0 :: byte) # replicate 31 0 = replicate 32 0"
  by (simp add: numeral_eq_Suc)

lemma sample_config: "config_try_from_pd sample_pool_datum = Some \<lparr> rc_pool_nft = Token sample_token, rc_asset_x = Native,
    rc_asset_y = Token (replicate 28 1, 1, replicate 32 0), rc_asset_lq = Token (replicate 28 2, 1, replicate 32 0),
    rc_lp_fee_num = 99700, rc_treasury_fee_num = 100, rc_royalty_fee_num = 100, rc_treasury_x = 0, rc_treasury_y = 10,
    rc_royalty_x = 0, rc_royalty_y = 5, rc_admin_address = replicate 28 3, rc_treasury_address = replicate 28 4,
    rc_royalty_pub_key = replicate 32 5, rc_nonce = 0 \<rparr>"
  by (simp add: config_try_from_pd_def sample_pool_datum_def take_field_def ac_try_from_pd_def an_try_from_vec_def pad32_def
      sample_token_def admin_of_singleton [unfolded vec_into_pd_def, simplified] pad_zero)

lemma sample_pool_parsed: "pool_try_from_ledger sample_pool_ctx sample_pool_out = Some (sample_pool 0)"
  by (simp add: pool_try_from_ledger_def sample_pool_ctx_def sample_pool_out_def try_pool_ver_from_address_def sample_config
      pool_of_config_def sample_pool_def ma_get_def an_bytes_def checked_sub_def FEE_DEN_def MAX_LQ_CAP_def)


lemma sample_swap_output: "swap_output (sample_pool 0) (OnAsk 5000000) = 47391"
proof -
  have "swap_output (sample_pool 0) (OnAsk 5000000) =
      capped (asset_y (sample_pool 0)) 999985 (cfmm_quote 100000000 999985 5000000 199 200)"
    using swap_output_x(1) [of "sample_pool 0" "OnAsk 5000000"]
    by (simp add: sample_fee sample_pool_tradable into_x_def sample_pool_base) (simp add: sample_pool_def)
  then show ?thesis by (simp add: capped_def sample_pool_def cfmm_quote_def)
qed

lemma sample_swap: "swap (sample_pool 0) (OnAsk 5000000) = (sample_pool 0)\<lparr> reserves_x := 105000000, reserves_y := 952609,
    treasury_x := 5000, first_royalty_x := 5000 \<rparr>"
proof -
  have "swap (sample_pool 0) (OnAsk 5000000) = deposit_x 5000000 47391 (sample_pool 0)"
    using swap_output_x(2) [of "sample_pool 0" "OnAsk 5000000"] sample_swap_output
    by (simp add: into_x_def sample_pool_base) (simp add: sample_pool_def)
  then show ?thesis by (simp add: deposit_x_def sample_pool_def fee_share_def)
qed

lemma sample_pool_executes:
  fixes v :: "unit validator"
  shows "\<exists>s' eff. exec_pool asset_sub coin_add v v new_state (sample_pool 0, swap (sample_pool 0) (OnAsk 5000000)) (sample_pool_out, ([9], 0)) =
    Ok (s', eff)"
proof -
  let ?q = "swap (sample_pool 0) (OnAsk 5000000)"
  have t: "mk_trade_side (royalty_maker (\<lambda>_ _ _ _. (0, 0))) (sample_pool 0, ?q) = Some Ask"
    "mk_loss (royalty_maker (\<lambda>_ _ _ _. (0, 0))) (sample_pool 0, ?q) = Some (OnAsk 47391)"
    "mk_gain (royalty_maker (\<lambda>_ _ _ _. (0, 0))) (sample_pool 0, ?q) = Some (OnAsk 5000000)"
    unfolding sample_swap by (simp_all add: mk_trade_side_def mk_loss_def mk_gain_def liquidity_of_def sample_pool_base base_asset_of_def,
      simp_all add: sample_pool_def order_canonical_eq checked_sub_def)
  have m: "asset_mapping (sample_pool 0) Ask = (Token (replicate 28 1, 1, replicate 32 0), Native)"
    by (simp add: asset_mapping_def sample_pool_base) (simp add: sample_pool_def)
  obtain d' where d': "unsafe_update_pd_royalty ?q sample_pool_datum = Ok d'"
    by (simp add: unsafe_update_pd_royalty_def sample_pool_datum_def set_field_def)
  have "\<exists>o'. pool_output asset_sub coin_add (sample_pool 0, ?q) sample_pool_out = Ok o'"
    by (simp add: pool_output_def t m sub_asset_def add_asset_def sample_pool_out_def asset_sub_def coin_add_def an_bytes_def d')
  moreover have "get_validator v v (sample_pool 0) = Ok v" by (simp add: get_validator_def sample_pool_def)
  ultimately show ?thesis by (auto simp: exec_pool_def Let_def)
qed

theorem executed_pool_is_predicted_witness:
  "\<exists>s' out'. exec_pool asset_sub coin_add (exec_sample_validator []) (exec_sample_validator []) new_state (sample_pool 0, swap (sample_pool 0) (OnAsk 5000000)) (sample_pool_out, ([9], 0)) =
      Ok (s', Updated (sample_pool 0, (sample_pool_out, ([9], 0))) (swap (sample_pool 0) (OnAsk 5000000), out')) \<and>
    pool_try_from_ledger sample_pool_ctx out' = Some (swap (sample_pool 0) (OnAsk 5000000))"
proof -
  let ?q = "swap (sample_pool 0) (OnAsk 5000000)"
  obtain s' eff where e: "exec_pool asset_sub coin_add (exec_sample_validator []) (exec_sample_validator []) new_state (sample_pool 0, ?q) (sample_pool_out, ([9], 0)) = Ok (s', eff)"
    using sample_pool_executes by blast
  have "\<exists>out'. eff = Updated (sample_pool 0, (sample_pool_out, ([9], 0))) (?q, out') \<and> pool_try_from_ledger sample_pool_ctx out' = Some ?q"
    by (rule executed_pool_is_predicted [OF asset_value_laws sample_pool_parsed sample_pool_ok sample_swap_fits _ _ _ _ _ _ _ _ e])
      (simp_all add: sample_swap_output, simp_all add: sample_pool_def token_ok_def an_ok_def MAX_LQ_CAP_def)
  with e show ?thesis by blast
qed

end
