(* ===== verification/Book_State_Correct.thy ===== *)
theory Book_State_Correct
  imports Book_Match
begin

text \<open>
  The states of the liquidity book.  The sorted sets of takers are determined by their elements; a preview \<open>tracks\<close> the
  settled book it comes from, every operation of a preview keeps that book, and \<open>rollback\<close> returns to it.
\<close>


section \<open>Sorted sets of takers\<close>

definition bs_ok :: "('t \<Rightarrow> 'k::linorder) \<Rightarrow> 't list \<Rightarrow> bool" where
  "bs_ok key xs = sorted_wrt (<) (map key xs)"

lemma bs_ok_Cons: "bs_ok key (x # xs) \<longleftrightarrow> (\<forall>y \<in> set xs. key x < key y) \<and> bs_ok key xs"
  by (simp add: bs_ok_def)

lemma bs_ok_Nil [simp]: "bs_ok key []"
  by (simp add: bs_ok_def)

lemma bs_ok_inj: "bs_ok key xs \<Longrightarrow> inj_on key (set xs)"
  by (simp add: bs_ok_def strict_sorted_iff distinct_map)


lemma bs_insert_key: "key ` set (bs_insert key x xs) = insert (key x) (key ` set xs)"
  by (induction key x xs rule: bs_insert.induct) auto

lemma bs_ok_insert: "bs_ok key xs \<Longrightarrow> bs_ok key (bs_insert key x xs)"
proof (induction key x xs rule: bs_insert.induct)
  case (2 key x y ys)
  have "key y < key z" if "z \<in> set (bs_insert key x ys)" "key y < key x" for z
  proof -
    have "key z \<in> insert (key x) (key ` set ys)" using that(1) bs_insert_key [of key x ys] by blast
    then show ?thesis using that(2) 2(2) by (auto simp: bs_ok_Cons)
  qed
  then show ?case using 2 by (auto simp: bs_ok_Cons)
qed (simp add: bs_ok_Cons)

lemma set_bs_insert:
  assumes "bs_ok key xs" "inj_on key (insert x (set xs))"
  shows "set (bs_insert key x xs) = insert x (set xs)"
  using assms
proof (induction key x xs rule: bs_insert.induct)
  case (2 key x y ys)
  have eq: "x = y" if "key x = key y" by (rule inj_onD [OF 2(3) that]) simp_all
  have i: "inj_on key (insert x (set ys))" using 2(3) by (rule inj_on_subset) auto
  consider "key x < key y" | "key x = key y" | "key y < key x" by fastforce
  then show ?case
  proof cases
    case 3
    with 2(1) i 2(2) have "set (bs_insert key x ys) = insert x (set ys)" by (simp add: bs_ok_Cons)
    with 3 show ?thesis by auto
  qed (use eq in auto)
qed simp

lemma bs_ok_remove: "bs_ok key xs \<Longrightarrow> bs_ok key (bs_remove key x xs)"
  by (induction xs) (auto simp: bs_remove_def bs_ok_Cons)

lemma set_bs_remove:
  assumes "inj_on key (insert x (set xs))"
  shows "set (bs_remove key x xs) = set xs - {x}"
proof -
  have "y = x" if "y \<in> set xs" "key y = key x" for y by (rule inj_onD [OF assms that(2)]) (simp_all add: that)
  then show ?thesis by (auto simp: bs_remove_def)
qed

text \<open>A sorted set is determined by its elements.\<close>

lemma bs_unique:
  assumes "bs_ok key xs" "bs_ok key ys" "set xs = set ys"
  shows "xs = ys"
  using assms
proof (induction xs arbitrary: ys)
  case (Cons x xs)
  then obtain y ys' where ys: "ys = y # ys'" by (cases ys) auto
  have xy: "x = y"
  proof (rule ccontr)
    assume "x \<noteq> y"
    with Cons.prems(3) ys have "x \<in> set ys'" "y \<in> set xs" by auto
    with Cons.prems(1,2) ys have "key x < key y" "key y < key x" by (auto simp: bs_ok_Cons)
    then show False by simp
  qed
  have "x \<notin> set xs" "y \<notin> set ys'" using Cons.prems(1,2) ys by (auto simp: bs_ok_Cons)
  then have "set xs = set ys'" using Cons.prems(3) ys xy by auto
  then show ?case using Cons.IH [of ys'] Cons.prems(1,2) ys xy by (simp add: bs_ok_Cons)
qed simp


section \<open>Takers on both sides\<close>

definition mt_ok :: "('t, 'k::linorder, 'i, 'u) book_taker \<Rightarrow> 't market_takers \<Rightarrow> bool" where
  "mt_ok T mt \<longleftrightarrow> bs_ok (t_key T) (asks mt) \<and> bs_ok (t_key T) (bids mt) \<and>
     (\<forall>t \<in> set (asks mt). k_side T t = Ask) \<and> (\<forall>t \<in> set (bids mt). k_side T t = Bid)"

definition mt_set :: "'t market_takers \<Rightarrow> 't set" where
  "mt_set mt = set (asks mt) \<union> set (bids mt)"

text \<open>The position of a taker: its side and the key of its order.\<close>

definition place :: "('t, 'k, 'i, 'u) book_taker \<Rightarrow> 't \<Rightarrow> side \<times> 'k" where
  "place T t = (k_side T t, t_key T t)"

lemma mt_ok_inj: "mt_ok T mt \<Longrightarrow> inj_on (place T) (mt_set mt)"
proof (rule inj_onI)
  assume ok: "mt_ok T mt"
  fix x y assume xy: "x \<in> mt_set mt" "y \<in> mt_set mt" "place T x = place T y"
  then have k: "t_key T x = t_key T y" "k_side T x = k_side T y" by (simp_all add: place_def)
  with ok xy have "x \<in> set (asks mt) \<and> y \<in> set (asks mt) \<or> x \<in> set (bids mt) \<and> y \<in> set (bids mt)"
    by (force simp: mt_ok_def mt_set_def)
  then show "x = y"
    using ok k(1) bs_ok_inj [of "t_key T" "asks mt"] bs_ok_inj [of "t_key T" "bids mt"]
    by (auto simp: mt_ok_def dest: inj_onD)
qed

lemma mt_unique:
  assumes "mt_ok T m" "mt_ok T m'" "mt_set m = mt_set m'"
  shows "m = m'"
proof -
  have "set (asks m) = {t \<in> mt_set m. k_side T t = Ask}" "set (bids m) = {t \<in> mt_set m. k_side T t = Bid}"
    "set (asks m') = {t \<in> mt_set m'. k_side T t = Ask}" "set (bids m') = {t \<in> mt_set m'. k_side T t = Bid}"
    using assms(1,2) by (force simp: mt_ok_def mt_set_def)+
  then have "asks m = asks m'" "bids m = bids m'"
    using assms bs_unique [of "t_key T"] by (auto simp: mt_ok_def)
  then show ?thesis by simp
qed

lemma mt_ok_new [simp]: "mt_ok T mt_new" "mt_set mt_new = {}"
  by (simp_all add: mt_ok_def mt_set_def mt_new_def)

lemma place_side:
  assumes "mt_ok T mt" "inj_on (place T) (insert fr (mt_set mt))"
  shows "k_side T fr = Ask \<Longrightarrow> inj_on (t_key T) (insert fr (set (asks mt)))"
    and "k_side T fr = Bid \<Longrightarrow> inj_on (t_key T) (insert fr (set (bids mt)))"
proof -
  have "t_key T x = t_key T y \<Longrightarrow> k_side T x = k_side T y \<Longrightarrow> x = y" if "x \<in> insert fr (mt_set mt)" "y \<in> insert fr (mt_set mt)" for x y
    by (rule inj_onD [OF assms(2) _ that]) (simp add: place_def)
  then show "k_side T fr = Ask \<Longrightarrow> inj_on (t_key T) (insert fr (set (asks mt)))"
    "k_side T fr = Bid \<Longrightarrow> inj_on (t_key T) (insert fr (set (bids mt)))"
    using assms(1) by (intro inj_onI; fastforce simp: mt_ok_def mt_set_def)+
qed

lemma mt_insert_set:
  assumes "mt_ok T mt" "inj_on (place T) (insert fr (mt_set mt))"
  shows "mt_ok T (mt_insert T fr mt)" "mt_set (mt_insert T fr mt) = insert fr (mt_set mt)"
  using assms(1) place_side [OF assms]
  by (cases "k_side T fr"; auto simp: mt_insert_def mt_ok_def mt_set_def bs_ok_insert set_bs_insert)+

lemma mt_remove_set:
  assumes "mt_ok T mt" "inj_on (place T) (insert fr (mt_set mt))"
  shows "mt_ok T (mt_remove T fr mt)" "mt_set (mt_remove T fr mt) = mt_set mt - {fr}"
  using assms(1) place_side [OF assms]
  by (cases "k_side T fr"; auto simp: mt_remove_def mt_ok_def mt_set_def bs_ok_remove set_bs_remove)+

lemma mt_insert_all_set:
  assumes "mt_ok T mt" "inj_on (place T) (set frs \<union> mt_set mt)"
  shows "mt_ok T (mt_insert_all T frs mt)" "mt_set (mt_insert_all T frs mt) = set frs \<union> mt_set mt"
proof -
  have "mt_ok T (mt_insert_all T frs mt) \<and> mt_set (mt_insert_all T frs mt) = set frs \<union> mt_set mt"
    using assms
  proof (induction frs arbitrary: mt)
    case (Cons fr frs)
    have i: "inj_on (place T) (insert fr (mt_set mt))" using Cons.prems(2) by (rule inj_on_subset) auto
    note m = mt_insert_set [OF Cons.prems(1) i]
    have "inj_on (place T) (set frs \<union> mt_set (mt_insert T fr mt))"
      using Cons.prems(2) by (rule inj_on_subset) (auto simp: m(2))
    then show ?case using Cons.IH [OF m(1)] m(2) by (auto simp: mt_insert_all_def)
  qed (simp add: mt_insert_all_def)
  then show "mt_ok T (mt_insert_all T frs mt)" "mt_set (mt_insert_all T frs mt) = set frs \<union> mt_set mt" by simp_all
qed

lemma mt_remove_all_set:
  assumes "mt_ok T mt" "inj_on (place T) (set frs \<union> mt_set mt)"
  shows "mt_ok T (mt_remove_all T frs mt)" "mt_set (mt_remove_all T frs mt) = mt_set mt - set frs"
proof -
  have "mt_ok T (mt_remove_all T frs mt) \<and> mt_set (mt_remove_all T frs mt) = mt_set mt - set frs"
    using assms
  proof (induction frs arbitrary: mt)
    case (Cons fr frs)
    have i: "inj_on (place T) (insert fr (mt_set mt))" using Cons.prems(2) by (rule inj_on_subset) auto
    note m = mt_remove_set [OF Cons.prems(1) i]
    have "inj_on (place T) (set frs \<union> mt_set (mt_remove T fr mt))"
      using Cons.prems(2) by (rule inj_on_subset) (auto simp: m(2))
    then show ?case using Cons.IH [OF m(1)] m(2) by (auto simp: mt_remove_all_def)
  qed (simp add: mt_remove_all_def)
  then show "mt_ok T (mt_remove_all T frs mt)" "mt_set (mt_remove_all T frs mt) = mt_set mt - set frs" by simp_all
qed


lemma mt_insert_ok:
  assumes "mt_ok T mt"
  shows "mt_ok T (mt_insert T fr mt)" "mt_set (mt_insert T fr mt) \<subseteq> insert fr (mt_set mt)"
proof -
  have sub: "set (bs_insert key x xs) \<subseteq> insert x (set xs)" for key :: "'a \<Rightarrow> 'b" and x xs
    by (induction key x xs rule: bs_insert.induct) auto
  show "mt_ok T (mt_insert T fr mt)"
    using assms sub [of "t_key T" fr "asks mt"] sub [of "t_key T" fr "bids mt"]
    by (cases "k_side T fr") (auto simp: mt_insert_def mt_ok_def bs_ok_insert)
  show "mt_set (mt_insert T fr mt) \<subseteq> insert fr (mt_set mt)"
    using sub [of "t_key T" fr "asks mt"] sub [of "t_key T" fr "bids mt"]
    by (cases "k_side T fr") (auto simp: mt_insert_def mt_set_def)
qed


section \<open>The state a preview comes from\<close>

text \<open>
  \<open>tracks T c mm st\<close>: the state \<open>st\<close> is a preview of the settled state with the takers \<open>c\<close> and the makers \<open>mm\<close>.
\<close>

fun tracks :: "('t, 'k::linorder, 'i, 'u) book_taker \<Rightarrow> 't chronology \<Rightarrow> ('m, 'j) market_makers \<Rightarrow> ('t, 'm, 'j) tlb_state \<Rightarrow> bool" where
  "tracks T c mm (Idle st) \<longleftrightarrow> takers st = c \<and> makers st = mm"
| "tracks T c mm (PartialPreview st) \<longleftrightarrow>
     mt_ok T (active (takers_preview st)) \<and> time_now (takers_preview st) = time_now c \<and> inactive (takers_preview st) = inactive c \<and>
     mt_set (active (takers_preview st)) \<union> set (consumed_active_takers st) \<union> set (pp_stashed st) = mt_set (active c) \<and>
     pp_makers_intact st = mm"
| "tracks T c mm (Preview st) \<longleftrightarrow>
     mt_ok T (active_takers_preview st) \<and> mt_ok T (active (takers_intact st)) \<and>
     time_now (takers_intact st) = time_now c \<and> inactive (takers_intact st) = inactive c \<and>
     mt_set (active (takers_intact st)) \<union> set (pv_stashed st) = mt_set (active c) \<and>
     pv_makers_intact st = mm"

lemma tracks_resume:
  assumes "mt_ok T (active c)" "mt_ok T act" "mt_set act \<union> set stash = mt_set (active c)"
  shows "tracks T c mm (resume (c\<lparr> active := act \<rparr>) stash mm)"
    and "stash = [] \<Longrightarrow> resume (c\<lparr> active := act \<rparr>) stash mm = Idle \<lparr> takers = c, makers = mm \<rparr>"
proof -
  have "act = active c" if "stash = []" using that assms by (intro mt_unique) simp_all
  then show "tracks T c mm (resume (c\<lparr> active := act \<rparr>) stash mm)"
    "stash = [] \<Longrightarrow> resume (c\<lparr> active := act \<rparr>) stash mm = Idle \<lparr> takers = c, makers = mm \<rparr>"
    using assms by (auto simp: resume_def)
qed

text \<open>The takers before the preview, without the stash.\<close>

fun restored :: "('t, 'k::linorder, 'i, 'u) book_taker \<Rightarrow> ('t, 'm, 'j) tlb_state \<Rightarrow> 't market_takers" where
  "restored T (Idle st) = active (takers st)"
| "restored T (PartialPreview st) = mt_insert_all T (rev (consumed_active_takers st)) (active (takers_preview st))"
| "restored T (Preview st) = active (takers_intact st)"

lemma tracks_restored:
  assumes "mt_ok T (active c)" "tracks T c mm st"
  shows "mt_ok T (restored T st)" "mt_set (restored T st) \<union> set (stashed st) = mt_set (active c)"
    and "st \<noteq> Idle \<lparr> takers = c, makers = mm \<rparr> \<Longrightarrow> rollback T opt st =
      (let (act, stash) = apply_stashing T opt (restored T st) (stashed st) in resume (c\<lparr> active := act \<rparr>) stash mm)"
proof -
  have "mt_ok T (restored T st) \<and> mt_set (restored T st) \<union> set (stashed st) = mt_set (active c)"
  proof (cases st)
    case (PartialPreview p)
    have "inj_on (place T) (set (rev (consumed_active_takers p)) \<union> mt_set (active (takers_preview p)))"
      using mt_ok_inj [OF assms(1)] by (rule inj_on_subset) (use assms(2) PartialPreview in auto)
    from mt_insert_all_set [OF _ this] show ?thesis using assms(2) PartialPreview by auto
  qed (use assms in auto)
  then show "mt_ok T (restored T st)" "mt_set (restored T st) \<union> set (stashed st) = mt_set (active c)" by simp_all
  show "rollback T opt st =
      (let (act, stash) = apply_stashing T opt (restored T st) (stashed st) in resume (c\<lparr> active := act \<rparr>) stash mm)"
    if "st \<noteq> Idle \<lparr> takers = c, makers = mm \<rparr>"
  proof (cases st)
    case (PartialPreview p)
    then have e: "(takers_preview p)\<lparr> active := a \<rparr> = c\<lparr> active := a \<rparr>" for a using assms(2) by (intro chronology.equality) simp_all
    show ?thesis using PartialPreview assms(2) by (simp add: pp_rollback_def e Let_def split: prod.splits)
  next
    case (Preview p)
    then have e: "(takers_intact p)\<lparr> active := a \<rparr> = c\<lparr> active := a \<rparr>" for a using assms(2) by (intro chronology.equality) simp_all
    show ?thesis using Preview assms(2) by (simp add: pv_rollback_def e Let_def split: prod.splits)
  qed (use that assms(2) in \<open>auto intro: idle_state.equality\<close>)
qed

lemma rollback_unstash:
  assumes "mt_ok T (active c)" "tracks T c mm st"
  shows "rollback T Unstash st = Idle \<lparr> takers = c, makers = mm \<rparr>"
proof (cases "st = Idle \<lparr> takers = c, makers = mm \<rparr>")
  case False
  note r = tracks_restored [OF assms]
  have "inj_on (place T) (set (stashed st) \<union> mt_set (restored T st))"
    using mt_ok_inj [OF assms(1)] by (rule inj_on_subset) (use r(2) in auto)
  note m = mt_insert_all_set [OF r(1) this]
  have "mt_set (mt_insert_all T (stashed st) (restored T st)) \<union> set [] = mt_set (active c)" using m(2) r(2) by auto
  from tracks_resume(2) [OF assms(1) m(1) this] show ?thesis
    by (simp add: r(3) [OF False] apply_stashing_def)
qed simp

lemma rollback_stash:
  assumes "mt_ok T (active c)" "tracks T c mm st" "set us \<subseteq> mt_set (active c)"
  shows "tracks T c mm (rollback T (Stash us) st)"
    and "st \<noteq> Idle \<lparr> takers = c, makers = mm \<rparr> \<Longrightarrow>
      restored T (rollback T (Stash us) st) = mt_remove_all T us (restored T st) \<and> stashed (rollback T (Stash us) st) = stashed st @ us"
proof -
  note r = tracks_restored [OF assms(1,2)]
  have "inj_on (place T) (set us \<union> mt_set (restored T st))"
    using mt_ok_inj [OF assms(1)] by (rule inj_on_subset) (use r(2) assms(3) in auto)
  note m = mt_remove_all_set [OF r(1) this]
  have "mt_set (mt_remove_all T us (restored T st)) \<union> set (stashed st @ us) = mt_set (active c)" using m(2) r(2) assms(3) by auto
  note t = tracks_resume [OF assms(1) m(1) this]
  show "tracks T c mm (rollback T (Stash us) st)"
    using t(1) r(3) assms(2) by (cases "st = Idle \<lparr> takers = c, makers = mm \<rparr>") (simp_all add: apply_stashing_def)
  show "restored T (rollback T (Stash us) st) = mt_remove_all T us (restored T st) \<and> stashed (rollback T (Stash us) st) = stashed st @ us"
    if "st \<noteq> Idle \<lparr> takers = c, makers = mm \<rparr>"
    by (simp add: r(3) [OF that] apply_stashing_def resume_def mt_insert_all_def)
qed


section \<open>The operations of a preview\<close>

definition picks :: "('t, 'k::linorder, 'i, 'u) book_taker \<Rightarrow> ('t market_takers \<Rightarrow> 't market_takers \<times> 't option) \<Rightarrow> bool" where
  "picks T f \<longleftrightarrow> (\<forall>mt mt' r. mt_ok T mt \<longrightarrow> f mt = (mt', r) \<longrightarrow> mt_ok T mt' \<and>
     (case r of Some c \<Rightarrow> c \<in> mt_set mt \<and> mt_set mt' = mt_set mt - {c} | None \<Rightarrow> mt' = mt))"

lemma picks_choice:
  assumes "\<And>mt c. g mt = Some c \<Longrightarrow> c \<in> mt_set mt"
  shows "picks T (\<lambda>mt. case g mt of Some c \<Rightarrow> (mt_remove T c mt, Some c) | None \<Rightarrow> (mt, None))"
proof -
  have "mt_ok T (mt_remove T c mt) \<and> mt_set (mt_remove T c mt) = mt_set mt - {c}" if "mt_ok T mt" "c \<in> mt_set mt" for mt c
  proof -
    have "inj_on (place T) (insert c (mt_set mt))" using mt_ok_inj [OF that(1)] by (simp only: insert_absorb [OF that(2)])
    from mt_remove_set [OF that(1) this] show ?thesis by simp
  qed
  then show ?thesis using assms by (auto simp: picks_def split: option.splits)
qed

lemma bs_first_in: "bs_first xs = Some x \<Longrightarrow> x \<in> set xs"
  by (cases xs) auto

lemma test_takes: "test_bid T rng t = Some t' \<Longrightarrow> t' = t" "test_ask T rng t = Some t' \<Longrightarrow> t' = t"
  by (auto simp: test_bid_def test_ask_def split: option.splits if_splits)

lemma picks_max_by_distance: "picks T (max_by_distance_to_spot T spot rng)"
proof -
  have "c \<in> mt_set mt" if "choose_by_distance T spot rng mt = Some c" for mt c
  proof -
    let ?a = "Option.bind (bs_first (asks mt)) (test_ask T rng)" and ?b = "Option.bind (bs_first (bids mt)) (test_bid T rng)"
    have "Some c = ?a \<or> Some c = ?b"
      using that by (auto simp: choose_by_distance_def by_volume_def Let_def split: option.splits if_splits)
    then show ?thesis
      by (auto simp: mt_set_def Option.bind_eq_Some_conv dest!: sym [of "Some c"] bs_first_in test_takes)
  qed
  then have "picks T (\<lambda>mt. case choose_by_distance T spot rng mt of Some c \<Rightarrow> (mt_remove T c mt, Some c) | None \<Rightarrow> (mt, None))"
    by (rule picks_choice)
  then show ?thesis by (simp add: max_by_distance_to_spot_def [abs_def])
qed

lemma pop_first:
  assumes "mt_ok T mt" "bids mt = fr # rest"
  shows "mt_ok T (mt\<lparr> bids := rest \<rparr>) \<and> fr \<in> mt_set mt \<and> mt_set (mt\<lparr> bids := rest \<rparr>) = mt_set mt - {fr}"
  using assms by (auto simp: mt_ok_def mt_set_def bs_ok_Cons)

lemma pop_first_ask:
  assumes "mt_ok T mt" "asks mt = fr # rest"
  shows "mt_ok T (mt\<lparr> asks := rest \<rparr>) \<and> fr \<in> mt_set mt \<and> mt_set (mt\<lparr> asks := rest \<rparr>) = mt_set mt - {fr}"
  using assms by (auto simp: mt_ok_def mt_set_def bs_ok_Cons)

lemma bs_reinsert: "bs_ok key (x # xs) \<Longrightarrow> bs_insert key x xs = x # xs"
  by (cases xs) (auto simp: bs_ok_Cons)

lemma picks_try_pick: "picks T (try_pick_fr T s test)"
  unfolding picks_def
proof (intro allI impI)
  fix mt mt' r assume ok: "mt_ok T mt" and f: "try_pick_fr T s test mt = (mt', r)"
  show "mt_ok T mt' \<and> (case r of Some c \<Rightarrow> c \<in> mt_set mt \<and> mt_set mt' = mt_set mt - {c} | None \<Rightarrow> mt' = mt)"
  proof (cases s)
    case Bid
    show ?thesis
    proof (cases "bids mt")
      case (Cons fr rest)
      have "bs_insert (t_key T) fr rest = fr # rest" using ok Cons by (simp add: mt_ok_def bs_reinsert)
      then have re: "mt\<lparr> bids := bs_insert (t_key T) fr rest \<rparr> = mt" using Cons by (cases mt) simp
      have "(mt', r) = (if test fr then (mt\<lparr> bids := rest \<rparr>, Some fr) else (mt, None))"
        using f Bid Cons re by (cases "test fr") (simp_all add: try_pick_fr_def)
      then show ?thesis using pop_first [OF ok Cons] ok by (simp split: if_splits)
    qed (use f ok Bid in \<open>auto simp: try_pick_fr_def\<close>)
  next
    case Ask
    show ?thesis
    proof (cases "asks mt")
      case (Cons fr rest)
      have "bs_insert (t_key T) fr rest = fr # rest" using ok Cons by (simp add: mt_ok_def bs_reinsert)
      then have re: "mt\<lparr> asks := bs_insert (t_key T) fr rest \<rparr> = mt" using Cons by (cases mt) simp
      have "(mt', r) = (if test fr then (mt\<lparr> asks := rest \<rparr>, Some fr) else (mt, None))"
        using f Ask Cons re by (cases "test fr") (simp_all add: try_pick_fr_def)
      then show ?thesis using pop_first_ask [OF ok Cons] ok by (simp split: if_splits)
    qed (use f ok Ask in \<open>auto simp: try_pick_fr_def\<close>)
  qed
qed

lemma reinsert_picked:
  assumes "mt_ok T mt" "mt_ok T mt'" "c \<in> mt_set mt" "mt_set mt' = mt_set mt - {c}"
  shows "mt_insert T c mt' = mt"
proof -
  have "insert c (mt_set mt') = mt_set mt" using assms(3,4) by auto
  then have "inj_on (place T) (insert c (mt_set mt'))" using mt_ok_inj [OF assms(1)] by (simp only:)
  note m = mt_insert_set [OF assms(2) this]
  show ?thesis using m assms by (intro mt_unique [OF m(1) assms(1)]) auto
qed

lemma tracks_active: "mt_ok T (active c) \<Longrightarrow> tracks T c mm st \<Longrightarrow> mt_ok T (active_fragments st)"
  by (cases st) auto

text \<open>What every operation of a preview keeps.\<close>

definition keeps_book :: "('t, 'k::linorder, 'i, 'u) book_taker \<Rightarrow> 't chronology \<Rightarrow> ('m, 'j) market_makers \<Rightarrow>
    ('t, 'm, 'j) tlb_state \<Rightarrow> ('t, 'm, 'j) tlb_state \<Rightarrow> bool" where
  "keeps_book T c mm st st' \<longleftrightarrow> tracks T c mm st' \<and> restored T st' = restored T st \<and> stashed st' = stashed st"

lemma keeps_trans: "keeps_book T c mm st st' \<Longrightarrow> keeps_book T c mm st' st'' \<Longrightarrow> keeps_book T c mm st st''"
  by (simp add: keeps_book_def)

lemma keeps_refl: "tracks T c mm st \<Longrightarrow> keeps_book T c mm st st"
  by (simp add: keeps_book_def)

lemma keeps_pick_taker:
  assumes "mt_ok T (active c)" "tracks T c mm st" "picks T f" "pick_active_taker f st = (st', r)"
  shows "keeps_book T c mm st st'" "pools st' = pools st"
    and "case r of Some t \<Rightarrow> t \<in> mt_set (active_fragments st) \<and> mt_set (active_fragments st') = mt_set (active_fragments st) - {t}
         | None \<Rightarrow> active_fragments st' = active_fragments st"
proof -
  obtain act r' where f: "f (active_fragments st) = (act, r')" by fastforce
  have ok: "mt_ok T (active_fragments st)" by (rule tracks_active [OF assms(1,2)])
  have p: "mt_ok T act" "case r' of Some t \<Rightarrow> t \<in> mt_set (active_fragments st) \<and> mt_set act = mt_set (active_fragments st) - {t}
      | None \<Rightarrow> act = active_fragments st"
    using assms(3) ok f unfolding picks_def by auto
  have re: "mt_insert T t act = active_fragments st" if "r' = Some t" for t
    using p that by (intro reinsert_picked [OF ok p(1)]) auto
  have "keeps_book T c mm st st' \<and> pools st' = pools st \<and> r = r' \<and> active_fragments st' = act"
  proof (cases r')
    case None
    then have "act = active_fragments st" using p(2) by simp
    then have "st' = st \<and> r = None" using assms(4) f None by (cases st) (simp_all add: Let_def)
    then show ?thesis using assms(2) None \<open>act = active_fragments st\<close> by (simp add: keeps_refl)
  next
    case (Some t)
    then have set: "t \<in> mt_set (active_fragments st)" "mt_set act = mt_set (active_fragments st) - {t}" using p(2) by simp_all
    show ?thesis
    proof (cases st)
      case (Idle i)
      then have "r = r'" "st' = PartialPreview \<lparr> takers_preview = (takers i)\<lparr> active := act \<rparr>, consumed_active_takers = [t],
          pp_stashed = [], pp_makers_intact = makers i, pp_makers_preview = makers i \<rparr>"
        using assms(4) f Some by (simp_all add: Let_def move_into_partial_preview_def)
      then show ?thesis using Idle assms(2) p(1) set re [OF Some] by (auto simp: keeps_book_def mt_insert_all_def)
    next
      case (PartialPreview q)
      then have "r = r'" "st' = PartialPreview (q\<lparr> takers_preview := (takers_preview q)\<lparr> active := act \<rparr>,
          consumed_active_takers := consumed_active_takers q @ [t] \<rparr>)"
        using assms(4) f Some by (simp_all add: Let_def)
      then show ?thesis using PartialPreview assms(2) p(1) set re [OF Some] by (auto simp: keeps_book_def mt_insert_all_def)
    next
      case (Preview q)
      then show ?thesis using assms(2,4) f p by (auto simp: keeps_book_def)
    qed
  qed
  then show "keeps_book T c mm st st'" "pools st' = pools st"
    "case r of Some t \<Rightarrow> t \<in> mt_set (active_fragments st) \<and> mt_set (active_fragments st') = mt_set (active_fragments st) - {t}
         | None \<Rightarrow> active_fragments st' = active_fragments st"
    using p(2) by (simp_all split: option.splits)
qed

lemma keeps_into_preview:
  assumes "mt_ok T (active c)" "tracks T c mm st"
  shows "keeps_book T c mm st (Preview (move_into_preview T st))"
    and "active_fragments (Preview (move_into_preview T st)) = active_fragments st"
    and "pools (Preview (move_into_preview T st)) = pools st"
proof -
  note r = tracks_restored [OF assms]
  show "keeps_book T c mm st (Preview (move_into_preview T st))"
    using assms r(1,2) by (cases st) (auto simp: keeps_book_def idle_into_preview_def partial_into_preview_def)
  show "active_fragments (Preview (move_into_preview T st)) = active_fragments st"
    "pools (Preview (move_into_preview T st)) = pools st"
    by (cases st; simp add: idle_into_preview_def partial_into_preview_def)+
qed

lemma keeps_preview:
  assumes "keeps_book T c mm st (Preview q)" "takers_intact q' = takers_intact q" "pv_stashed q' = pv_stashed q"
    "pv_makers_intact q' = pv_makers_intact q" "mt_ok T (active_takers_preview q')"
  shows "keeps_book T c mm st (Preview q')"
  using assms(1) unfolding keeps_book_def tracks.simps restored.simps stashed.simps assms(2-4) using assms(5) by blast

lemma keeps_add_taker:
  assumes "mt_ok T (active c)" "tracks T c mm st"
  shows "keeps_book T c mm st (pre_add_taker T t st)" "pools (pre_add_taker T t st) = pools st"
    and "active_fragments (pre_add_taker T t st) =
      (if deferred T (current_time st) t = None then mt_insert T t (active_fragments st) else active_fragments st)"
proof -
  note p = keeps_into_preview [OF assms]
  have ok: "mt_ok T (active_takers_preview (move_into_preview T st))" using p(1) by (simp add: keeps_book_def)
  show "keeps_book T c mm st (pre_add_taker T t st)"
    unfolding pre_add_taker_def
    by (rule keeps_preview [OF p(1)]; cases "deferred T (current_time st) t"; simp add: preview_add_taker_def ok mt_insert_ok)
  show "pools (pre_add_taker T t st) = pools st"
    using p(3) by (cases "deferred T (current_time st) t") (simp_all add: pre_add_taker_def preview_add_taker_def)
  show "active_fragments (pre_add_taker T t st) =
      (if deferred T (current_time st) t = None then mt_insert T t (active_fragments st) else active_fragments st)"
    using p(2) by (cases "deferred T (current_time st) t") (simp_all add: pre_add_taker_def preview_add_taker_def)
qed

lemma keeps_add_maker:
  assumes "mt_ok T (active c)" "tracks T c mm st"
  shows "keeps_book T c mm st (pre_add_maker T M m st)" "pools (pre_add_maker T M m st) = update_pool M m (pools st)"
    and "active_fragments (pre_add_maker T M m st) = active_fragments st"
proof -
  note p = keeps_into_preview [OF assms]
  have ok: "mt_ok T (active_takers_preview (move_into_preview T st))" using p(1) by (simp add: keeps_book_def)
  show "keeps_book T c mm st (pre_add_maker T M m st)"
    unfolding pre_add_maker_def Let_def by (rule keeps_preview [OF p(1)]) (simp_all add: ok)
  show "pools (pre_add_maker T M m st) = update_pool M m (pools st)" using p(3) by (simp add: pre_add_maker_def Let_def)
  show "active_fragments (pre_add_maker T M m st) = active_fragments st" using p(2) by (simp add: pre_add_maker_def Let_def)
qed

lemma keeps_pick_maker:
  assumes "tracks T c mm st" "pick_maker_by_id j st = (st', r)" "mt_ok T (active c)"
  shows "keeps_book T c mm st st'" "active_fragments st' = active_fragments st" "r = map_of (mm_values (pools st)) j"
    and "pools st' = (pools st)\<lparr> mm_values := hm_remove j (mm_values (pools st)) \<rparr>"
  using assms by (cases st; auto simp: keeps_book_def pick_maker_by_id_def move_into_partial_preview_def Let_def mt_insert_all_def)+

lemma keeps_on_take:
  assumes "mt_ok T (active c)" "tracks T c mm st"
  shows "keeps_book T c mm st (on_take T r st)" "pools (on_take T r st) = pools st"
    and "mt_set (active_fragments (on_take T r st)) \<subseteq> mt_set (active_fragments st) \<union> {t. r = Succ t}"
proof -
  note k = keeps_add_taker [OF assms]
  show "keeps_book T c mm st (on_take T r st)" "pools (on_take T r st) = pools st"
    using k assms(2) by (cases r; simp add: on_take_def keeps_refl)+
  show "mt_set (active_fragments (on_take T r st)) \<subseteq> mt_set (active_fragments st) \<union> {t. r = Succ t}"
    using k(3) mt_insert_ok(2) [OF tracks_active [OF assms]] by (cases r) (auto simp: on_take_def)
qed

end
