(* ===== verification/Book_Round.thy ===== *)
theory Book_Round
  imports Book_State_Correct
begin

text \<open>
  One round of matchmaking.  The choice of a maker and the search for an input return a fill within the demand; two takers
  exchange amounts that neither exceeds; the contract \<open>book_laws\<close> of takers and makers with the book then gives what a
  round does to the active takers and to the batch (\<open>round_ok\<close>).
\<close>


section \<open>The choice of a maker\<close>

lemma min_by_key_in: "min_by_key f xs = Some x \<Longrightarrow> x \<in> set xs"
proof -
  have "fold (\<lambda>y acc. if f y < f acc then y else acc) ys z \<in> set (z # ys)" for ys z
    by (induction ys arbitrary: z) auto
  then show "min_by_key f xs = Some x \<Longrightarrow> x \<in> set xs" by (cases xs) auto
qed

lemma max_by_key_in: "max_by_key f xs = Some x \<Longrightarrow> x \<in> set xs"
proof -
  have "fold (\<lambda>y acc. if f y \<ge> f acc then y else acc) ys z \<in> set (z # ys)" for ys z
    by (induction ys arbitrary: z) auto
  then show "max_by_key f xs = Some x \<Longrightarrow> x \<in> set xs" by (cases xs) auto
qed

lemma filter_map_in: "filter_map f xs = Some ys \<Longrightarrow> y \<in> set ys \<Longrightarrow> \<exists>x \<in> set xs. f x = Some (Some y)"
  by (induction xs arbitrary: ys) (auto simp: Option.bind_eq_Some_conv split: option.splits)

lemma filter_map_total: "\<forall>x \<in> set xs. f x \<noteq> None \<Longrightarrow> filter_map f xs \<noteq> None"
  by (induction xs) auto

text \<open>The binary search ends on every interval that is not the whole range.\<close>

lemma search_input_total: "high < - 1 \<Longrightarrow> search_input price_at accept low high best \<noteq> None"
proof (induction price_at accept low high best rule: search_input.induct)
  case (1 price_at accept low high best)
  let ?c = "low + (high - low + 1) div 2"
  show ?case
  proof (cases "low < high")
    case True
    have nz: "high - low + 1 \<noteq> 0"
    proof
      assume "high - low + 1 = 0"
      then have "high - low = - 1" by (simp add: eq_neg_iff_add_eq_0)
      moreover have "unat (high - low) = unat high - unat low" using True by (intro unat_sub) simp
      ultimately have "unat (- 1 :: u64) \<le> unat high" by simp
      then show False using 1(4) by (simp add: word_less_nat_alt)
    qed
    note m = midpoint [OF True nz]
    have "unat (?c - 1) = unat ?c - 1" using m(2) by (intro unat_minus_one) auto
    then have "?c - 1 < - 1"
      using 1(4) m(2,3) unfolding word_less_nat_alt word_le_nat_alt by linarith
    then show ?thesis
      using 1(1) [OF True nz refl] 1(2) [OF True nz refl] 1(3) [OF True nz refl] 1(4) True nz
      by (subst search_input.simps) (auto simp: Let_def split: option.splits)
  qed (simp add: search_input.simps)
qed

text \<open>What the search finds: an input of the interval with an acceptable price.\<close>

lemma try_optimized_swap_props:
  assumes "try_optimized_swap M taker price demand s mk = Some (Some (j, fp))"
  shows "0 < fp_input fp" "fp_input fp \<le> demand" "overlaps (wrap s price) (fp_price fp)" "j = m_id M mk"
proof -
  obtain av where av: "m_available M mk (wrap s price) = Some av"
    using assms by (cases "m_available M mk (wrap s price)") (simp_all add: try_optimized_swap_def)
  let ?p = "case m_effective_price M mk taker (wrap s (av_input av)) of Some p \<Rightarrow> Some p
    | None \<Rightarrow> (case s of Bid \<Rightarrow> ap_new (av_input av) (av_output av) | Ask \<Rightarrow> ap_new (av_output av) (av_input av))"
  obtain p where p: "?p = Some p"
    using assms av by (cases ?p) (simp_all add: try_optimized_swap_def Let_def)
  have "\<exists>n q. n > 0 \<and> n \<le> demand \<and> overlaps (wrap s price) q \<and> (j, fp) = (m_id M mk, \<lparr> fp_price = q, fp_input = n \<rparr>)"
    using assms unfolding try_optimized_swap_def av option.case Let_def p
    by (auto simp: Option.bind_eq_Some_conv split: if_splits prod.splits)
  then show "0 < fp_input fp" "fp_input fp \<le> demand" "overlaps (wrap s price) (fp_price fp)" "j = m_id M mk" by auto
qed

lemma try_optimized_swap_total:
  assumes "demand < - 1"
  shows "try_optimized_swap M taker price demand s mk \<noteq> None"
proof (cases "m_available M mk (wrap s price)")
  case (Some av)
  let ?p = "case m_effective_price M mk taker (wrap s (av_input av)) of Some p \<Rightarrow> Some p
    | None \<Rightarrow> (case s of Bid \<Rightarrow> ap_new (av_input av) (av_output av) | Ask \<Rightarrow> ap_new (av_output av) (av_input av))"
  show ?thesis
  proof (cases ?p)
    case None
    then show ?thesis by (simp add: try_optimized_swap_def Some Let_def)
  next
    case p: (Some p)
    have "search_input f a 0 (av_input av) b \<noteq> None" if "av_input av \<le> demand" for f a b
      by (rule search_input_total) (use assms that in \<open>simp add: word_less_nat_alt word_le_nat_alt\<close>)
    then show ?thesis unfolding try_optimized_swap_def Some option.case Let_def p
      by (auto simp: Option.bind_eq_None_conv simp del: search_input.simps not_None_eq split: if_splits)
  qed
qed (simp add: try_optimized_swap_def)

lemma preselect_props:
  assumes "preselect_market_maker M price demand s optimized taker st = Some (Some (j, fp))"
  shows "fp_input fp \<le> demand" "0 < fp_input fp \<or> fp_input fp = demand" "\<not> optimized \<Longrightarrow> fp_input fp = demand"
    "overlaps (wrap s price) (fp_price fp)"
proof -
  obtain ps where ps: "filter_map (preview_swap M price demand s optimized taker)
      (filter (m_is_active M) (map snd (mm_values (pools st)))) = Some ps"
    and sel: "(case s of Bid \<Rightarrow> min_by_key (\<lambda>x. fp_price (snd x)) (filter (\<lambda>x. overlaps (wrap s price) (fp_price (snd x))) ps)
      | Ask \<Rightarrow> max_by_key (\<lambda>x. fp_price (snd x)) (filter (\<lambda>x. overlaps (wrap s price) (fp_price (snd x))) ps)) = Some (j, fp)"
    using assms by (auto simp: preselect_market_maker_def Option.bind_eq_Some_conv Let_def)
  then have in_ps: "(j, fp) \<in> set (filter (\<lambda>x. overlaps (wrap s price) (fp_price (snd x))) ps)"
    by (cases s) (auto dest: min_by_key_in max_by_key_in)
  then show "overlaps (wrap s price) (fp_price fp)" by simp
  obtain mk where mk: "preview_swap M price demand s optimized taker mk = Some (Some (j, fp))"
    using filter_map_in [OF ps, of "(j, fp)"] in_ps by auto
  have dummy: "fp_input fp = demand" if "dummy_swap M taker demand s mk = Some (j, fp)"
    using that by (auto simp: dummy_swap_def)
  have cases: "try_optimized_swap M taker price demand s mk = Some (Some (j, fp)) \<and> optimized \<or> fp_input fp = demand"
    using mk dummy by (auto simp: preview_swap_def Option.bind_eq_Some_conv split: if_splits option.splits)
  then show "fp_input fp \<le> demand" "0 < fp_input fp \<or> fp_input fp = demand" "\<not> optimized \<Longrightarrow> fp_input fp = demand"
    using try_optimized_swap_props [of M taker price demand s mk j fp] by auto
qed

lemma preselect_total:
  assumes "demand < - 1"
  shows "preselect_market_maker M price demand s optimized taker st \<noteq> None"
proof -
  have "preview_swap M price demand s optimized taker mk \<noteq> None" for mk
    using try_optimized_swap_total [OF assms, of M taker price s mk] by (auto simp: preview_swap_def)
  then have "filter_map (preview_swap M price demand s optimized taker)
      (filter (m_is_active M) (map snd (mm_values (pools st)))) \<noteq> None"
    by (intro filter_map_total) blast
  then show ?thesis by (auto simp: preselect_market_maker_def Let_def)
qed


section \<open>Trades\<close>

text \<open>A take is a trade that removes at most the input of its target.\<close>

definition traded :: "('t, 'k, 'i, 'u) book_taker \<Rightarrow> 't take_in_progress \<Rightarrow> bool" where
  "traded T tk \<longleftrightarrow> (\<exists>removed added. removed \<le> t_input (ops T) (target tk) \<and>
     result tk = t_with_applied_trade (ops T) (target tk) removed added)"

declare of_nat_unat [simp del]

lemma floor_u64_le: "floor_u64 x = Ok w \<Longrightarrow> 0 \<le> x \<Longrightarrow> of_nat (unat w) \<le> x \<and> x < of_nat (unat w) + 1"
proof -
  assume a: "floor_u64 x = Ok w" "0 \<le> x"
  then have f: "\<lfloor>x\<rfloor> < 2 ^ 64" "w = word_of_int \<lfloor>x\<rfloor>" by (simp_all add: floor_u64_def split: if_splits)
  have nn: "0 \<le> \<lfloor>x\<rfloor>" using a(2) by simp
  have "int (unat w) = \<lfloor>x\<rfloor>"
    using f nn by (simp add: unat_eq_nat_uint uint_word_of_int_eq take_bit_int_eq_self)
  then have e: "(of_nat (unat w) :: rat) = of_int \<lfloor>x\<rfloor>" by (metis of_int_of_nat_eq)
  show ?thesis using floor_correct [of x] unfolding e by simp
qed

lemma clamp_nonneg: "(0 :: rat) \<le> lo \<Longrightarrow> 0 \<le> hi \<Longrightarrow> 0 \<le> clamp v lo hi"
  by (auto simp: clamp_def)

text \<open>What two takers exchange: neither gives more than it has, and one of them gives all.\<close>

lemma taker_trade:
  fixes q b :: u64 and price :: rat
  assumes "linear_output_unsafe quote_input (OnBid price) = Ok demand" "0 \<le> price"
    and "(if supply > demand then Ok (quote_input, demand)
          else if supply < demand then and_then (linear_output_unsafe supply (OnAsk price)) (\<lambda>qe. Ok (qe, supply))
          else Ok (quote_input, demand)) = Ok (q, b)"
  shows "q \<le> quote_input" "b \<le> supply" "q = quote_input \<or> b = supply"
proof -
  have pos: "price \<noteq> 0" and fl: "floor_u64 (of_nat (unat quote_input) / price) = Ok demand"
    using assms(1) by (simp_all split: if_splits)
  have d: "of_nat (unat demand) \<le> of_nat (unat quote_input) / price"
    using floor_u64_le [OF fl] assms(2) by (simp add: divide_nonneg_nonneg)
  have q_le: "q \<le> quote_input" if "supply < demand" "floor_u64 (of_nat (unat supply) * price) = Ok q"
  proof -
    have "(of_nat (unat q) :: rat) \<le> of_nat (unat supply) * price" using floor_u64_le [OF that(2)] assms(2) by simp
    also have "\<dots> \<le> of_nat (unat demand) * price"
      using that(1) assms(2) by (intro mult_right_mono) (simp_all add: word_less_nat_alt)
    also have "\<dots> \<le> of_nat (unat quote_input)" using d pos assms(2) by (simp add: field_simps)
    finally show ?thesis by (simp add: word_le_nat_alt)
  qed
  show "q \<le> quote_input" "b \<le> supply" "q = quote_input \<or> b = supply"
    using assms(3) q_le by (auto simp: and_then_eq_Ok split: if_splits)
qed

declare of_nat_unat [simp]


section \<open>What the book relies on\<close>

text \<open>
  The contract of takers and makers with the book.  Prices are not negative; a trade keeps the identifier of a taker,
  removes what it is told to remove, and ends a taker whose input is used up; the take of a swap is a trade of the chosen
  taker for the input of the swap.
\<close>

locale book_laws =
  fixes T :: "('t, 'k::linorder, 'i, 'u::{plus, zero, ord}) book_taker" and M :: "('m, 't, 'j, 'u) maker"
  assumes price_nonneg: "0 \<le> t_price T t"
    and trade_id: "t_with_applied_trade (ops T) t removed added = Succ t' \<Longrightarrow> t_id T t' = t_id T t"
    and trade_input: "t_with_applied_trade (ops T) t removed added = Succ t' \<Longrightarrow> removed \<le> t_input (ops T) t \<Longrightarrow>
      t_input (ops T) t' = t_input (ops T) t - removed \<and> t_input (ops T) t' \<noteq> 0"
    and swap_take: "\<exists>added. fst (m_swap_with_taker M m t inp) =
      \<lparr> target = t, result = t_with_applied_trade (ops T) t (on_side_unwrap inp) added \<rparr>"
begin

lemma traded_id: "traded T tk \<Longrightarrow> result tk = Succ t \<Longrightarrow> t_id T t = t_id T (target tk)"
  by (auto simp: traded_def trade_id)

lemma traded_input:
  assumes "traded T tk" "result tk = Succ t"
  shows "t_input (ops T) t \<le> t_input (ops T) (target tk)"
proof -
  obtain r a where r: "r \<le> t_input (ops T) (target tk)" "t_with_applied_trade (ops T) (target tk) r a = Succ t"
    using assms by (auto simp: traded_def)
  then have "t_input (ops T) t = t_input (ops T) (target tk) - r" using trade_input [OF r(2,1)] by simp
  then show ?thesis using r(1) by (simp add: word_sub_le)
qed

lemma full_trade_ends: "\<exists>u. t_with_applied_trade (ops T) t (t_input (ops T) t) a = Term u"
  by (cases "t_with_applied_trade (ops T) t (t_input (ops T) t) a") (auto dest: trade_input)

lemma partial_trade_shrinks:
  assumes "t_with_applied_trade (ops T) t r a = Succ t'" "0 < r" "r \<le> t_input (ops T) t"
  shows "t_input (ops T) t' < t_input (ops T) t"
proof -
  have "t_input (ops T) t' = t_input (ops T) t - r" using trade_input [OF assms(1,3)] by simp
  then have "unat (t_input (ops T) t') = unat (t_input (ops T) t) - unat r" "unat r \<le> unat (t_input (ops T) t)"
    using assms(3) by (simp_all add: unat_sub_le word_le_nat_alt)
  then show ?thesis using assms(2) by (simp add: word_less_nat_alt)
qed

lemma maker_take:
  assumes "execute_with_maker M t m chunk = (tk, mk)" "on_side_unwrap chunk \<le> t_input (ops T) t"
    and "0 < on_side_unwrap chunk \<or> on_side_unwrap chunk = t_input (ops T) t"
  shows "target tk = t" "traded T tk" "result tk = Succ s \<Longrightarrow> t_input (ops T) s < t_input (ops T) t"
    and "on_side_unwrap chunk = t_input (ops T) t \<Longrightarrow> \<exists>u. result tk = Term u"
proof -
  obtain a where tk: "tk = \<lparr> target = t, result = t_with_applied_trade (ops T) t (on_side_unwrap chunk) a \<rparr>"
    using swap_take [of m t chunk] assms(1) by (auto simp: execute_with_maker_def)
  then show "target tk = t" "traded T tk" using assms(2) by (auto simp: traded_def)
  show full: "on_side_unwrap chunk = t_input (ops T) t \<Longrightarrow> \<exists>u. result tk = Term u" using tk full_trade_ends by simp
  show "result tk = Succ s \<Longrightarrow> t_input (ops T) s < t_input (ops T) t"
    using full tk assms(2,3) partial_trade_shrinks [of t "on_side_unwrap chunk" a s] by auto
qed

lemma taker_takes:
  assumes "execute_with_taker T a b f = Ok (ta, tb)" "\<And>x y. 0 \<le> f x y"
  shows "(target ta, target tb) = (a, b) \<or> (target ta, target tb) = (b, a)" "traded T ta" "traded T tb"
    and "(\<exists>u. result ta = Term u) \<or> (\<exists>u. result tb = Term u)"
proof -
  obtain ask bid where ab: "(ask, bid) = (case k_side T a of Ask \<Rightarrow> (a, b) | Bid \<Rightarrow> (b, a))" by (cases "k_side T a") auto
  obtain q x demand where d: "linear_output_unsafe (t_input (ops T) bid) (OnBid (f ask bid)) = Ok demand"
      and r: "(if t_input (ops T) ask > demand then Ok (t_input (ops T) bid, demand)
          else if t_input (ops T) ask < demand then
            and_then (linear_output_unsafe (t_input (ops T) ask) (OnAsk (f ask bid))) (\<lambda>qe. Ok (qe, t_input (ops T) ask))
          else Ok (t_input (ops T) bid, demand)) = Ok (q, x)"
      and ta: "ta = \<lparr> target = ask, result = t_with_applied_trade (ops T) ask x q \<rparr>"
      and tb: "tb = \<lparr> target = bid, result = t_with_applied_trade (ops T) bid q x \<rparr>"
    using assms(1) unfolding execute_with_taker_def ab [symmetric] Let_def prod.case
    by (auto simp only: and_then_eq_Ok prod.case split: prod.splits) blast
  note t = taker_trade [OF d assms(2) r]
  show "(target ta, target tb) = (a, b) \<or> (target ta, target tb) = (b, a)" using ab ta tb by (cases "k_side T a") auto
  show "traded T ta" "traded T tb" using t(1,2) ta tb by (auto simp: traded_def)
  show "(\<exists>u. result ta = Term u) \<or> (\<exists>u. result tb = Term u)"
    using t(3) ta tb full_trade_ends by auto
qed

end


section \<open>One round of matchmaking\<close>

definition takes_add :: "('t, 'k, 'i, 'u) book_taker \<Rightarrow> 't take_in_progress \<Rightarrow> ('i, 't take_in_progress) hash_map \<Rightarrow> ('i, 't take_in_progress) hash_map" where
  "takes_add T tk ts =
    (let sid = t_id T (target tk)
     in hm_insert sid (case map_of ts sid of None \<Rightarrow> tk | Some e \<Rightarrow> trans_combine e tk) ts)"

lemma add_take_sel [simp]: "takes (add_take T tk a) = takes_add T tk (takes a)" "makes (add_take T tk a) = makes a"
  by (simp_all add: add_take_def takes_add_def Let_def split: option.splits)

lemma hm_insert_length: "length (hm_insert k v m) \<le> Suc (length m)"
  by (induction m) auto

lemma add_make_sel [simp]: "takes (add_make M mk a) = takes a" "length (makes (add_make M mk a)) \<le> Suc (length (makes a))"
  by (simp_all add: add_make_def Let_def hm_insert_length split: option.splits)

text \<open>
  What a round does to the active takers \<open>A\<close> and to the batch: trades of some of the takers, whose remainders become active
  again.  In a round after which the loop continues one of the trades uses up input, and all of it if the round is not
  optimised and uses a maker.
\<close>

definition round_ok :: "('t, 'k, 'i, 'u) book_taker \<Rightarrow> bool \<Rightarrow> bool \<Rightarrow> 't set \<Rightarrow> ('t, 'm, 'i, 'j, 'u) attempt \<Rightarrow>
    't set \<Rightarrow> ('t, 'm, 'i, 'j, 'u) attempt \<Rightarrow> 't take_in_progress list \<Rightarrow> bool" where
  "round_ok T optimized continue A batch A' batch' tks \<longleftrightarrow>
     (\<forall>tk \<in> set tks. traded T tk \<and> target tk \<in> A) \<and> distinct (map target tks) \<and>
     A' \<subseteq> (A - target ` set tks) \<union> {t. \<exists>tk \<in> set tks. result tk = Succ t} \<and>
     takes batch' = fold (takes_add T) tks (takes batch) \<and>
     (if continue then \<exists>tk \<in> set tks. \<forall>t. result tk = Succ t \<longrightarrow> t_input (ops T) t < t_input (ops T) (target tk) else tks = []) \<and>
     (makes batch' = makes batch \<or> length (makes batch') \<le> Suc (length (makes batch)) \<and>
        (\<exists>tk. tks = [tk] \<and> (\<not> optimized \<longrightarrow> (\<exists>u. result tk = Term u))))"

lemma round_stop:
  assumes "A' \<subseteq> A" "takes batch' = takes batch" "makes batch' = makes batch"
  shows "\<exists>tks. round_ok T optimized False A batch A' batch' tks"
  using assms by (intro exI [of _ "[]"]) (simp add: round_ok_def)

context book_laws
begin

lemma settle_price_nonneg: "0 \<le> settle_price T ask bid ip"
  unfolding settle_price_def Let_def by (intro clamp_nonneg price_nonneg)

lemma match_takers_round:
  assumes ok: "mt_ok T (active c)" and tr: "tracks T c mm st" and m: "match_takers T spot t u (st, batch, evs) = Ok (st', batch', evs')"
    and new: "t \<notin> mt_set (active_fragments st)" "u \<notin> mt_set (active_fragments st)" "t \<noteq> u"
  shows "keeps_book T c mm st st' \<and> (\<exists>tks. round_ok T optimized True (insert t (insert u (mt_set (active_fragments st)))) batch
    (mt_set (active_fragments st')) batch' tks)"
proof -
  let ?A = "mt_set (active_fragments st)"
  obtain ta tb where x: "execute_with_taker T t u (\<lambda>ask bid. settle_price T ask bid (Some spot)) = Ok (ta, tb)"
    and st': "st' = on_take T (result tb) (on_take T (result ta) st)" and batch': "batch' = add_take T tb (add_take T ta batch)"
    using m by (auto simp: match_takers_def and_then_eq_Ok)
  note tt = taker_takes [OF x settle_price_nonneg]
  let ?st1 = "on_take T (result ta) st"
  note k1 = keeps_on_take [OF ok tr, of "result ta"]
  have tr1: "tracks T c mm ?st1" using k1(1) by (simp add: keeps_book_def)
  note k2 = keeps_on_take [OF ok tr1, of "result tb"]
  have A': "mt_set (active_fragments st') \<subseteq> ?A \<union> {s. result ta = Succ s} \<union> {s. result tb = Succ s}"
    using k1(3) k2(3) unfolding st' by blast
  have tg: "{target ta, target tb} = {t, u}" "target ta \<noteq> target tb" using tt(1) new(3) by auto
  have stop: "\<exists>tk \<in> set [ta, tb]. \<forall>s. result tk = Succ s \<longrightarrow> t_input (ops T) s < t_input (ops T) (target tk)"
    using tt(4) by auto
  have "round_ok T optimized True (insert t (insert u ?A)) batch (mt_set (active_fragments st')) batch' [ta, tb]"
    unfolding round_ok_def
  proof (intro conjI)
    show "\<forall>tk \<in> set [ta, tb]. traded T tk \<and> target tk \<in> insert t (insert u ?A)" using tt(2,3) tg by auto
    show "distinct (map target [ta, tb])" using tg(2) by simp
    have "?A = insert t (insert u ?A) - target ` set [ta, tb]" using tg(1) new by auto
    then show "mt_set (active_fragments st') \<subseteq> (insert t (insert u ?A) - target ` set [ta, tb]) \<union>
        {s. \<exists>tk \<in> set [ta, tb]. result tk = Succ s}" using A' by auto
    show "takes batch' = fold (takes_add T) [ta, tb] (takes batch)" by (simp add: batch')
    show "makes batch' = makes batch \<or> length (makes batch') \<le> Suc (length (makes batch)) \<and>
        (\<exists>tk. [ta, tb] = [tk] \<and> (\<not> optimized \<longrightarrow> (\<exists>u. result tk = Term u)))" by (simp add: batch')
  qed (use stop in simp)
  moreover have "keeps_book T c mm st st'" using keeps_trans [OF k1(1) k2(1)] by (simp add: st')
  ultimately show ?thesis by blast
qed

lemma match_maker_round:
  assumes ok: "mt_ok T (active c)" and tr: "tracks T c mm st" and m: "match_maker T M t mk chunk (st, batch, evs) = (st', batch', evs')"
    and new: "t \<notin> mt_set (active_fragments st)"
    and chunk: "on_side_unwrap chunk \<le> t_input (ops T) t" "0 < on_side_unwrap chunk \<or> on_side_unwrap chunk = t_input (ops T) t"
      "\<not> optimized \<Longrightarrow> on_side_unwrap chunk = t_input (ops T) t"
  shows "keeps_book T c mm st st' \<and> (\<exists>tks. round_ok T optimized True (insert t (mt_set (active_fragments st))) batch
    (mt_set (active_fragments st')) batch' tks)"
proof -
  let ?A = "mt_set (active_fragments st)"
  obtain tk mt where x: "execute_with_maker M t mk chunk = (tk, mt)" by (cases "execute_with_maker M t mk chunk")
  then have st': "st' = on_make T M (snd mt) (on_take T (result tk) st)" and batch': "batch' = add_take T tk (add_make M mt batch)"
    using m by (auto simp: match_maker_def)
  note tt = maker_take [OF x chunk(1,2)]
  let ?st1 = "on_take T (result tk) st"
  note k1 = keeps_on_take [OF ok tr, of "result tk"]
  have tr1: "tracks T c mm ?st1" using k1(1) by (simp add: keeps_book_def)
  note k2 = keeps_add_maker [OF ok tr1, of M "snd mt"]
  have A': "mt_set (active_fragments st') \<subseteq> ?A \<union> {s. result tk = Succ s}"
    using k1(3) by (simp add: st' on_make_def k2(3))
  have stop: "\<forall>s. result tk = Succ s \<longrightarrow> t_input (ops T) s < t_input (ops T) (target tk)" using tt(1,3) by auto
  have "round_ok T optimized True (insert t ?A) batch (mt_set (active_fragments st')) batch' [tk]"
    unfolding round_ok_def
  proof (intro conjI)
    show "\<forall>tk \<in> set [tk]. traded T tk \<and> target tk \<in> insert t ?A" using tt(1,2) by simp
    show "mt_set (active_fragments st') \<subseteq> (insert t ?A - target ` set [tk]) \<union> {s. \<exists>tk \<in> set [tk]. result tk = Succ s}"
      using A' new tt(1) by auto
    show "makes batch' = makes batch \<or> length (makes batch') \<le> Suc (length (makes batch)) \<and>
        (\<exists>tk'. [tk] = [tk'] \<and> (\<not> optimized \<longrightarrow> (\<exists>u. result tk' = Term u)))"
      using tt(4) chunk(3) by (auto simp: batch')
  qed (use stop in \<open>simp_all add: batch'\<close>)
  moreover have "keeps_book T c mm st st'" using keeps_trans [OF k1(1) k2(1)] by (simp add: st' on_make_def)
  ultimately show ?thesis by blast
qed

end

lemma on_side_unwrap_wrap [simp]: "on_side_unwrap (wrap s x) = x"
  by (cases s) simp_all

context book_laws
begin

lemma match_target_round:
  assumes ok: "mt_ok T (active c)" and tr: "tracks T c mm st" and new: "t \<notin> mt_set (active_fragments st)"
    and m: "match_target T M o2o optimized spot t (st, batch, evs) = Some (Ok (continue, st', batch', evs'))"
  shows "keeps_book T c mm st st' \<and> (\<exists>tks. round_ok T optimized continue (insert t (mt_set (active_fragments st))) batch
    (mt_set (active_fragments st')) batch' tks)"
proof -
  let ?A = "mt_set (active_fragments st)" and ?s = "k_side T t"
  let ?counter = "best_taker_price T (side_not ?s) st"
  obtain sel where sel: "preselect_market_maker M (t_price T t) (t_input (ops T) t) ?s optimized t st = Some sel"
    and r: "(if prefer_counter_taker o2o (wrap ?s (t_price T t)) ?counter sel then
           (case try_pick_taker T (side_not ?s) (\<lambda>_. True) st of
              (st1, Some u) \<Rightarrow> and_then (match_takers T spot t u (st1, batch, evs)) (\<lambda>p. Ok (True, p))
            | (st1, None) \<Rightarrow> Ok (False, st1, batch, evs))
         else case sel of
           Some (j, fp) \<Rightarrow>
             if overlaps (wrap ?s (t_price T t)) (fp_price fp) then
               (case pick_maker_by_id j st of
                  (st1, Some m) \<Rightarrow> Ok (True, match_maker T M t m (wrap ?s (fp_input fp)) (st1, batch, evs))
                | (st1, None) \<Rightarrow> Ok (False, st1, batch, evs))
             else Ok (False, pre_add_taker T t st, batch, evs)
         | None \<Rightarrow> Ok (False, pre_add_taker T t st, batch, evs)) = Ok (continue, st', batch', evs')"
    using m by (auto simp: match_target_def Let_def Option.bind_eq_Some_conv)
  have readd: ?thesis if "Ok (False, pre_add_taker T t st, batch, evs) = Ok (continue, st', batch', evs')"
  proof -
    note k = keeps_add_taker [OF ok tr, of t]
    have "mt_set (active_fragments (pre_add_taker T t st)) \<subseteq> insert t ?A"
      using mt_insert_ok(2) [OF tracks_active [OF ok tr], of t] by (auto simp: k(3))
    then show ?thesis using that k(1) by (auto intro!: round_stop)
  qed
  show ?thesis
  proof (cases "prefer_counter_taker o2o (wrap ?s (t_price T t)) ?counter sel")
    case True
    obtain st1 ur where p: "try_pick_taker T (side_not ?s) (\<lambda>_. True) st = (st1, ur)" by fastforce
    note k = keeps_pick_taker [OF ok tr picks_try_pick p [unfolded try_pick_taker_def]]
    have tr1: "tracks T c mm st1" using k(1) by (simp add: keeps_book_def)
    show ?thesis
    proof (cases ur)
      case None
      then have "st' = st1 \<and> batch' = batch \<and> \<not> continue" using r True p by simp
      then show ?thesis using None k(1,3) by (auto intro!: round_stop)
    next
      case (Some u)
      then have mt: "match_takers T spot t u (st1, batch, evs) = Ok (st', batch', evs')" and cont: continue
        using r True p by (auto simp: and_then_eq_Ok)
      have A1: "u \<in> ?A" "mt_set (active_fragments st1) = ?A - {u}" using k(3) Some by simp_all
      then have "insert u (mt_set (active_fragments st1)) = ?A" "u \<noteq> t" using new by auto
      then show ?thesis
        using match_takers_round [OF ok tr1 mt] new A1 cont keeps_trans [OF k(1)] by auto
    qed
  next
    case False
    note r' = r [unfolded if_not_P [OF False]]
    show ?thesis
    proof (cases sel)
      case None
      then show ?thesis using readd r' by simp
    next
      case (Some jf)
      obtain j fp where jf: "jf = (j, fp)" by fastforce
      note sp = preselect_props [OF sel [unfolded Some jf]]
      obtain st1 mr where p: "pick_maker_by_id j st = (st1, mr)" by fastforce
      note k = keeps_pick_maker [OF tr p ok]
      have tr1: "tracks T c mm st1" using k(1) by (simp add: keeps_book_def)
      show ?thesis
      proof (cases mr)
        case None
        then have "st' = st1 \<and> batch' = batch \<and> \<not> continue" using r' Some jf p sp(4) by simp
        then show ?thesis using k(1,2) by (auto intro!: round_stop)
      next
        case mk: (Some mk)
        then have mm: "match_maker T M t mk (wrap ?s (fp_input fp)) (st1, batch, evs) = (st', batch', evs')" and cont: continue
          using r' Some jf p sp(4) by auto
        have "keeps_book T c mm st1 st' \<and> (\<exists>tks. round_ok T optimized True (insert t (mt_set (active_fragments st1))) batch
          (mt_set (active_fragments st')) batch' tks)"
          by (rule match_maker_round [OF ok tr1 mm]) (use new k(2) sp in simp_all)
        then show ?thesis using k(2) cont keeps_trans [OF k(1)] by auto
      qed
    qed
  qed
qed

lemma match_step_round:
  assumes ok: "mt_ok T (active c)" and tr: "tracks T c mm st"
    and m: "match_step T M o2o optimized (st, batch, evs) = Some (Ok (continue, st', batch', evs'))"
  shows "keeps_book T c mm st st' \<and> (\<exists>tks. round_ok T optimized continue (mt_set (active_fragments st)) batch
    (mt_set (active_fragments st')) batch' tks)"
proof (cases "spot_price M st")
  case None
  then show ?thesis using m tr by (auto simp: match_step_def keeps_refl intro!: round_stop)
next
  case (Some spot)
  obtain st1 tr' where p: "pick_active_taker (max_by_distance_to_spot T spot (allowed_price_range T st)) st = (st1, tr')" by fastforce
  note k = keeps_pick_taker [OF ok tr picks_max_by_distance p]
  have tr1: "tracks T c mm st1" using k(1) by (simp add: keeps_book_def)
  show ?thesis
  proof (cases tr')
    case None
    then show ?thesis using m Some p k(1,3) by (auto simp: match_step_def intro!: round_stop)
  next
    case t: (Some t)
    then have mt: "match_target T M o2o optimized spot t (st1, batch, evs @ [SpotPrice spot]) = Some (Ok (continue, st', batch', evs'))"
      using m Some p by (simp add: match_step_def)
    have A: "t \<notin> mt_set (active_fragments st1)" "insert t (mt_set (active_fragments st1)) = mt_set (active_fragments st)"
      using k(3) t by auto
    show ?thesis using match_target_round [OF ok tr1 A(1) mt] keeps_trans [OF k(1)] unfolding A(2) by blast
  qed
qed

end

end
