(* ===== verification/Book_Attempt.thy ===== *)
theory Book_Attempt
  imports Book_Round
begin

text \<open>
  The loops of \<open>attempt\<close>: rules of induction for the inner and the outer loop, the batch that a pass collects, the takers a
  failed recipe stashes, and that an attempt leaves the book before it untouched.
\<close>


section \<open>Induction on the loops\<close>

lemma run_bind_eq_Ok: "run_bind m f = Some (Ok b) \<longleftrightarrow> (\<exists>a. m = Some (Ok a) \<and> f a = Some (Ok b))"
proof (cases m)
  case (Some r)
  then show ?thesis by (cases r) simp_all
qed simp

lemma match_loop_induct [consumes 1, case_names stop last step]:
  assumes "match_loop T M conf optimized p = Some (Ok p')"
    and stop: "\<And>p. \<not> attempt_open conf (fst (snd p)) \<Longrightarrow> P p p"
    and last: "\<And>p p'. attempt_open conf (fst (snd p)) \<Longrightarrow> match_step T M (o2o_allowed conf) optimized p = Some (Ok (False, p')) \<Longrightarrow> P p p'"
    and step: "\<And>p p1 p'. attempt_open conf (fst (snd p)) \<Longrightarrow> match_step T M (o2o_allowed conf) optimized p = Some (Ok (True, p1)) \<Longrightarrow>
      P p1 p' \<Longrightarrow> P p p'"
  shows "P p p'"
proof -
  let ?P = "\<lambda>T' M' conf' optimized' p y. (T', M', conf', optimized') = (T, M, conf, optimized) \<longrightarrow> (\<forall>p'. (y :: (unit, _) res) = Ok p' \<longrightarrow> P p p')"
  have "?P T M conf optimized p (Ok p')"
  proof (rule match_loop.raw_induct [where P = ?P, OF _ assms(1)], intro allI impI)
    fix loop T' M' conf' optimized' p y p'
    assume IH: "\<And>T' M' conf' optimized' p y. loop T' M' conf' optimized' p = Some y \<Longrightarrow>
        (T', M', conf', optimized') = (T, M, conf, optimized) \<longrightarrow> (\<forall>p'. y = Ok p' \<longrightarrow> P p p')"
      and body: "(if attempt_open conf' (fst (snd p)) then run_bind (match_step T' M' (o2o_allowed conf') optimized' p)
          (\<lambda>(continue, p'). if continue then loop T' M' conf' optimized' p' else Some (Ok p')) else Some (Ok p)) = Some y"
      and eq: "(T', M', conf', optimized') = (T, M, conf, optimized)" "y = Ok p'"
    show "P p p'"
    proof (cases "attempt_open conf (fst (snd p))")
      case False
      then show ?thesis using body eq stop by simp
    next
      case True
      obtain continue p1 where m: "match_step T M (o2o_allowed conf) optimized p = Some (Ok (continue, p1))"
        and rest: "(if continue then loop T M conf optimized p1 else Some (Ok p1)) = Some (Ok p')"
        using body eq True by (auto simp: run_bind_eq_Ok)
      show ?thesis
      proof (cases continue)
        case c: True
        then have "P p1 p'" using IH [of T M conf optimized p1 "Ok p'"] rest by simp
        then show ?thesis using step [OF True] m c by simp
      next
        case False
        then show ?thesis using last [OF True] m rest by simp
      qed
    qed
  qed
  then show ?thesis by simp
qed

text \<open>The results of the outer loop, by the fate of the last batch.\<close>

lemma attempt_loop_induct [consumes 1, case_names found none stash downgrade]:
  assumes "attempt_loop T M conf optimized st = Some (Ok (st', recipe, evs))"
    and found: "\<And>optimized st st' batch evs recipe.
      match_loop T M conf optimized (st, empty_attempt, [LiquidityBookSizePreAttempt (book_size_of st)]) = Some (Ok (st', batch, evs)) \<Longrightarrow>
      try_from T M (base_step_budget conf) batch = Ok recipe \<Longrightarrow> P optimized st st' (Some recipe)"
    and none: "\<And>optimized st st' batch evs.
      match_loop T M conf optimized (st, empty_attempt, [LiquidityBookSizePreAttempt (book_size_of st)]) = Some (Ok (st', batch, evs)) \<Longrightarrow>
      try_from T M (base_step_budget conf) batch = Err NoMatch \<Longrightarrow> P optimized st (rollback T Unstash st') None"
    and stash: "\<And>optimized st st1 batch evs us st' recipe.
      match_loop T M conf optimized (st, empty_attempt, [LiquidityBookSizePreAttempt (book_size_of st)]) = Some (Ok (st1, batch, evs)) \<Longrightarrow>
      try_from T M (base_step_budget conf) batch = Err (DissatisfiedTakers us) \<Longrightarrow>
      P optimized (rollback T (Stash us) st1) st' recipe \<Longrightarrow> P optimized st st' recipe"
    and downgrade: "\<And>optimized st st1 batch evs st' recipe.
      match_loop T M conf optimized (st, empty_attempt, [LiquidityBookSizePreAttempt (book_size_of st)]) = Some (Ok (st1, batch, evs)) \<Longrightarrow>
      try_from T M (base_step_budget conf) batch = Err DowngradeNeeded \<Longrightarrow>
      P False (rollback T (Stash []) st1) st' recipe \<Longrightarrow> P optimized st st' recipe"
  shows "P optimized st st' recipe"
proof -
  let ?P = "\<lambda>T' M' conf' optimized st y. (T', M', conf') = (T, M, conf) \<longrightarrow>
    (\<forall>st' recipe evs. (y :: (unit, _ \<times> _ \<times> execution_event list) res) = Ok (st', recipe, evs) \<longrightarrow> P optimized st st' recipe)"
  have "?P T M conf optimized st (Ok (st', recipe, evs))"
  proof (rule attempt_loop.raw_induct [where P = ?P, OF _ assms(1)], intro allI impI)
    fix loop T' M' conf' optimized st y st' recipe evs
    assume IH: "\<And>T' M' conf' optimized st y. loop T' M' conf' optimized st = Some y \<Longrightarrow> (T', M', conf') = (T, M, conf) \<longrightarrow>
        (\<forall>st' recipe evs. y = Ok (st', recipe, evs) \<longrightarrow> P optimized st st' recipe)"
      and body: "run_bind (match_loop T' M' conf' optimized (st, empty_attempt, [LiquidityBookSizePreAttempt (book_size_of st)])) (\<lambda>(st', batch, evs).
      case try_from T' M' (base_step_budget conf') batch of
        Ok recipe \<Rightarrow> Some (Ok (st', Some recipe, evs @ [LiquidityBookSizePostAttempt (book_size_of st')]))
      | Err failure \<Rightarrow>
          (case failure of
             NoMatch \<Rightarrow> Some (Ok (rollback T' Unstash st', None, evs @ [LiquidityBookSizePostAttempt (book_size_of st')]))
           | DissatisfiedTakers us \<Rightarrow> loop T' M' conf' optimized (rollback T' (Stash us) st')
           | DowngradeNeeded \<Rightarrow> loop T' M' conf' False (rollback T' (Stash []) st'))
      | Panic \<Rightarrow> Some Panic) = Some y"
      and eq: "(T', M', conf') = (T, M, conf)" "y = Ok (st', recipe, evs)"
    obtain st1 batch evs1 where m: "match_loop T M conf optimized (st, empty_attempt, [LiquidityBookSizePreAttempt (book_size_of st)]) = Some (Ok (st1, batch, evs1))"
      and rest: "(case try_from T M (base_step_budget conf) batch of
        Ok recipe \<Rightarrow> Some (Ok (st1, Some recipe, evs1 @ [LiquidityBookSizePostAttempt (book_size_of st1)]))
      | Err failure \<Rightarrow>
          (case failure of
             NoMatch \<Rightarrow> Some (Ok (rollback T Unstash st1, None, evs1 @ [LiquidityBookSizePostAttempt (book_size_of st1)]))
           | DissatisfiedTakers us \<Rightarrow> loop T M conf optimized (rollback T (Stash us) st1)
           | DowngradeNeeded \<Rightarrow> loop T M conf False (rollback T (Stash []) st1))
      | Panic \<Rightarrow> Some Panic) = Some (Ok (st', recipe, evs))"
      using body eq by (auto simp: run_bind_eq_Ok)
    show "P optimized st st' recipe"
    proof (cases "try_from T M (base_step_budget conf) batch")
      case (Ok r)
      then show ?thesis using found [OF m] rest by auto
    next
      case (Err f)
      show ?thesis
      proof (cases f)
        case NoMatch
        then show ?thesis using none [OF m] Err rest by auto
      next
        case (DissatisfiedTakers us)
        then show ?thesis using stash [OF m] Err rest IH by auto
      next
        case DowngradeNeeded
        then show ?thesis using downgrade [OF m] Err rest IH by auto
      qed
    qed (use rest in simp)
  qed
  then show ?thesis by simp
qed


section \<open>The batch and the book\<close>

text \<open>
  \<open>batch_ok T R A ts\<close>: the takes \<open>ts\<close> of a batch start from takers \<open>R\<close> of the book before the preview, and an active taker is one of them
  or the remainder of a taker in the batch.
\<close>

definition takes_ok :: "('t, 'k, 'i, 'u) book_taker \<Rightarrow> 't set \<Rightarrow> ('i, 't take_in_progress) hash_map \<Rightarrow> bool" where
  "takes_ok T R ts \<longleftrightarrow> hm_ok ts \<and> (\<forall>(sid, tk) \<in> set ts. sid = t_id T (target tk) \<and> target tk \<in> R)"

definition batch_ok :: "('t, 'k, 'i, 'u) book_taker \<Rightarrow> 't set \<Rightarrow> 't set \<Rightarrow> ('i, 't take_in_progress) hash_map \<Rightarrow> bool" where
  "batch_ok T R A ts \<longleftrightarrow> takes_ok T R ts \<and> (\<forall>t \<in> A. t \<in> R \<or> t_id T t \<in> fst ` set ts)"

lemma hm_insert_set: "hm_ok ts \<Longrightarrow> set (hm_insert k v ts) = insert (k, v) {e \<in> set ts. fst e \<noteq> k}"
  by (induction k v ts rule: hm_insert.induct) (auto simp: hm_ok_def image_iff)

lemma takes_add_ok:
  assumes "takes_ok T R ts" "target tk \<in> R \<or> t_id T (target tk) \<in> fst ` set ts"
  shows "takes_ok T R (takes_add T tk ts)" "fst ` set (takes_add T tk ts) = insert (t_id T (target tk)) (fst ` set ts)"
proof -
  have ok: "hm_ok ts" "\<forall>(sid, tk) \<in> set ts. sid = t_id T (target tk) \<and> target tk \<in> R" using assms(1) by (simp_all add: takes_ok_def)
  let ?e = "case map_of ts (t_id T (target tk)) of None \<Rightarrow> tk | Some e \<Rightarrow> trans_combine e tk"
  show "fst ` set (takes_add T tk ts) = insert (t_id T (target tk)) (fst ` set ts)"
    by (simp add: takes_add_def Let_def hm_insert_keys)
  have e: "t_id T (target ?e) = t_id T (target tk) \<and> target ?e \<in> R"
  proof (cases "map_of ts (t_id T (target tk))")
    case None
    then have "t_id T (target tk) \<notin> fst ` set ts" by (simp add: map_of_eq_None_iff)
    then show ?thesis using assms(2) None by simp
  next
    case (Some x)
    then have "(t_id T (target tk), x) \<in> set ts" by (rule map_of_SomeD)
    then show ?thesis using ok(2) Some by (auto simp: trans_combine_def)
  qed
  then show "takes_ok T R (takes_add T tk ts)"
    using ok by (auto simp: takes_ok_def takes_add_def Let_def hm_insert_set hm_ok_insert)
qed

lemma fold_takes_ok:
  assumes "takes_ok T R ts" "\<forall>tk \<in> set tks. target tk \<in> R \<or> t_id T (target tk) \<in> fst ` set ts"
  shows "takes_ok T R (fold (takes_add T) tks ts) \<and>
    fst ` set (fold (takes_add T) tks ts) = (\<lambda>tk. t_id T (target tk)) ` set tks \<union> fst ` set ts"
  using assms
proof (induction tks arbitrary: ts)
  case (Cons tk tks)
  have a: "takes_ok T R (takes_add T tk ts)" "fst ` set (takes_add T tk ts) = insert (t_id T (target tk)) (fst ` set ts)"
    using takes_add_ok [of T R ts tk] Cons.prems by auto
  show ?case using Cons.IH [OF a(1)] Cons.prems(2) a(2) by auto
qed simp

context book_laws
begin

lemma round_batch:
  assumes "batch_ok T R A (takes batch)" "round_ok T optimized continue A batch A' batch' tks"
  shows "batch_ok T R A' (takes batch')"
proof -
  have tks: "\<forall>tk \<in> set tks. target tk \<in> R \<or> t_id T (target tk) \<in> fst ` set (takes batch)"
    using assms by (auto simp: batch_ok_def round_ok_def)
  have f: "takes_ok T R (takes batch') \<and> fst ` set (takes batch') = (\<lambda>tk. t_id T (target tk)) ` set tks \<union> fst ` set (takes batch)"
    using fold_takes_ok [OF _ tks] assms by (simp add: batch_ok_def round_ok_def)
  have "t \<in> R \<or> t_id T t \<in> fst ` set (takes batch')" if "t \<in> A'" for t
  proof -
    consider "t \<in> A" | tk where "tk \<in> set tks" "result tk = Succ t" "traded T tk"
      using assms(2) \<open>t \<in> A'\<close> by (auto simp: round_ok_def)
    then show ?thesis
    proof cases
      case 1
      then show ?thesis using assms(1) f by (auto simp: batch_ok_def)
    next
      case 2
      then show ?thesis using traded_id [of tk t] f by auto
    qed
  qed
  then show ?thesis using f by (simp add: batch_ok_def)
qed

end

text \<open>The inner loop keeps the book before the preview and the batch.\<close>

definition loop_ok :: "('t, 'k::linorder, 'i, 'u) book_taker \<Rightarrow> ('t, 'm, 'i, 'j, 'u) progress \<Rightarrow> bool" where
  "loop_ok T p = batch_ok T (mt_set (restored T (fst p))) (mt_set (active_fragments (fst p))) (takes (fst (snd p)))"

context book_laws
begin

lemma step_keeps:
  assumes "mt_ok T (active c)" "tracks T c mm (fst p)" "loop_ok T p" "match_step T M o2o optimized p = Some (Ok (continue, p'))"
  shows "keeps_book T c mm (fst p) (fst p')" "loop_ok T p'"
proof -
  obtain st batch evs st' batch' evs' where p: "p = (st, batch, evs)" "p' = (st', batch', evs')" by (metis prod_cases3)
  obtain tks where k: "keeps_book T c mm st st'" and
    r: "round_ok T optimized continue (mt_set (active_fragments st)) batch (mt_set (active_fragments st')) batch' tks"
    using match_step_round [OF assms(1) _ assms(4) [unfolded p]] assms(2) p by auto
  then show "keeps_book T c mm (fst p) (fst p')" "loop_ok T p'"
    using round_batch [OF _ r] assms(3) p by (simp_all add: keeps_book_def loop_ok_def)
qed

lemma match_loop_keeps:
  assumes "mt_ok T (active c)" "match_loop T M conf optimized p = Some (Ok p')" "tracks T c mm (fst p)" "loop_ok T p"
  shows "keeps_book T c mm (fst p) (fst p') \<and> loop_ok T p'"
  using assms(2-)
proof (induction rule: match_loop_induct)
  case (stop p)
  then show ?case by (simp add: keeps_refl)
next
  case (last p p')
  then show ?case using step_keeps [OF assms(1)] by blast
next
  case (step p p1 p')
  note s = step_keeps [OF assms(1) step.prems step.hyps(2)]
  have "tracks T c mm (fst p1)" using s(1) by (simp add: keeps_book_def)
  then show ?case using step.IH s keeps_trans [OF s(1)] by blast
qed

end


section \<open>Failed recipes\<close>

lemma finalized_target: "finalized T tr ex = Ok tr' \<Longrightarrow> target tr' = target tr"
  by (auto simp: finalized_def and_then_eq_Ok Let_def)

lemma finalize_takes_targets:
  "finalize_takes T ts b q = Ok (fts, b', q') \<Longrightarrow> map (\<lambda>e. (fst e, target (snd e))) fts = map (\<lambda>e. (fst e, target (snd e))) ts"
  by (induction T ts b q arbitrary: fts b' q' rule: finalize_takes.induct)
    (auto simp: and_then_eq_Ok Let_def split: side.splits dest: finalized_target)

lemma attempt_finalized_targets:
  assumes "attempt_finalized T M a = Ok (Some r)"
  shows "map (\<lambda>e. (fst e, target (snd e))) (fr_takes r) = map (\<lambda>e. (fst e, target (snd e))) (takes a)"
proof -
  obtain ms b q ts b' q' where "finalize_takes T (takes a) b q = Ok (ts, b', q')" "fr_takes r = ts"
    using assms by (auto simp: attempt_finalized_def and_then_eq_Ok split: option.splits if_splits)
  then show ?thesis using finalize_takes_targets by blast
qed

lemma finalize_makes_length: "finalize_makes M ms = Some (fms, b, q) \<Longrightarrow> length fms = length ms"
  by (induction M ms arbitrary: fms b q rule: finalize_makes.induct) (auto simp: Option.bind_eq_Some_conv)

lemma unsatisfied_in: "unsatisfied_fragments T ts = Ok us \<Longrightarrow> set us \<subseteq> (\<lambda>e. target (snd e)) ` set ts"
  by (induction T ts arbitrary: us rule: unsatisfied_fragments.induct) (fastforce simp: and_then_eq_Ok split: if_splits)+

lemma expect_not_Err [simp]: "expect r \<noteq> Err e"
  by (cases r) simp_all

lemma and_then_eq_Err: "and_then m f = Err e \<longleftrightarrow> m = Err e \<or> (\<exists>a. m = Ok a \<and> f a = Err e)"
  by (cases m) auto

lemma try_from_finalized:
  assumes "try_from T M budget a = Err f" "f \<noteq> NoMatch"
  obtains r us where "attempt_finalized T M a = Ok (Some r)" "unsatisfied_fragments T (fr_takes r) = Ok us" "is_complete a"
    and "us \<noteq> [] \<and> f = DissatisfiedTakers us \<or> f = DowngradeNeeded \<and> \<not> check_recipe_complexity T budget r"
proof -
  have c: "is_complete a" using assms by (auto simp: try_from_def split: if_splits)
  then have "and_then (expect (attempt_finalized T M a)) (\<lambda>final.
       case final of
         None \<Rightarrow> Err NoMatch
       | Some r \<Rightarrow>
           and_then (expect (unsatisfied_fragments T (fr_takes r))) (\<lambda>unsatisfied.
             if unsatisfied = [] then
               and_then (sort_takes T (fr_ordering r) (map snd (fr_takes r))) (\<lambda>tks.
                 if \<exists>mk \<in> set (map snd (fr_makes r)). mk_is_zero M mk then Err NoMatch
                 else if check_recipe_complexity T budget r
                   then Ok (map Inl tks @ map (Inr \<circ> snd) (fr_makes r))
                   else Err DowngradeNeeded)
             else Err (DissatisfiedTakers unsatisfied))) = Err f" using assms(1) by (simp add: try_from_def)
  then obtain fin where fin: "attempt_finalized T M a = Ok fin" and
    rest: "(case fin of
         None \<Rightarrow> Err NoMatch
       | Some r \<Rightarrow>
           and_then (expect (unsatisfied_fragments T (fr_takes r))) (\<lambda>unsatisfied.
             if unsatisfied = [] then
               and_then (sort_takes T (fr_ordering r) (map snd (fr_takes r))) (\<lambda>tks.
                 if \<exists>mk \<in> set (map snd (fr_makes r)). mk_is_zero M mk then Err NoMatch
                 else if check_recipe_complexity T budget r
                   then Ok (map Inl tks @ map (Inr \<circ> snd) (fr_makes r))
                   else Err DowngradeNeeded)
             else Err (DissatisfiedTakers unsatisfied))) = Err f"
    by (auto simp: and_then_eq_Err expect_eq_Ok)
  then obtain r where r: "fin = Some r" using assms(2) by (cases fin) auto
  with rest obtain us where us: "unsatisfied_fragments T (fr_takes r) = Ok us" and
    rest': "(if us = [] then
               and_then (sort_takes T (fr_ordering r) (map snd (fr_takes r))) (\<lambda>tks.
                 if \<exists>mk \<in> set (map snd (fr_makes r)). mk_is_zero M mk then Err NoMatch
                 else if check_recipe_complexity T budget r
                   then Ok (map Inl tks @ map (Inr \<circ> snd) (fr_makes r))
                   else Err DowngradeNeeded)
             else Err (DissatisfiedTakers us)) = Err f"
    by (auto simp: and_then_eq_Err expect_eq_Ok)
  have s: "sort_takes T ids tks \<noteq> Err e" for ids and tks :: "'a take_in_progress list" and e
    by (simp add: sort_takes_def Let_def)
  have "us \<noteq> [] \<and> f = DissatisfiedTakers us \<or> f = DowngradeNeeded \<and> \<not> check_recipe_complexity T budget r"
    using rest' assms(2) s by (auto simp: and_then_eq_Err split: if_splits)
  then show ?thesis using that fin r us c by blast
qed

lemma try_from_dissatisfied:
  assumes "try_from T M budget a = Err (DissatisfiedTakers us)"
  shows "us \<noteq> []" "set us \<subseteq> (\<lambda>e. target (snd e)) ` set (takes a)"
proof -
  obtain r us' where r: "attempt_finalized T M a = Ok (Some r)" "unsatisfied_fragments T (fr_takes r) = Ok us'"
      and u: "us' \<noteq> [] \<and> DissatisfiedTakers us = DissatisfiedTakers us' \<or>
        DissatisfiedTakers us = DowngradeNeeded \<and> \<not> check_recipe_complexity T budget r"
    using try_from_finalized [OF assms] by (metis match_failure.distinct(1))
  then show "us \<noteq> []" by simp
  have "(\<lambda>e. target (snd e)) ` set (fr_takes r) = snd ` set (map (\<lambda>e. (fst e, target (snd e))) (fr_takes r))"
    by (simp add: image_image)
  also have "\<dots> = (\<lambda>e. target (snd e)) ` set (takes a)"
    unfolding attempt_finalized_targets [OF r(1)] by (simp add: image_image)
  finally show "set us \<subseteq> (\<lambda>e. target (snd e)) ` set (takes a)" using unsatisfied_in [OF r(2)] u by auto
qed


section \<open>A failed attempt leaves the book as it was\<close>

lemma restored_rollback: "mt_ok T (active c) \<Longrightarrow> tracks T c mm st \<Longrightarrow> restored T (rollback T opt st) = active_fragments (rollback T opt st)"
proof -
  have r: "restored T (resume c' s mm') = active_fragments (resume c' s mm')" for c' s mm'
    by (simp add: resume_def mt_insert_all_def)
  show ?thesis by (cases st) (simp_all add: pp_rollback_def pv_rollback_def Let_def r split: prod.splits)
qed

context book_laws
begin

lemma fresh_loop_ok: "mt_set (active_fragments st) \<subseteq> mt_set (restored T st) \<Longrightarrow> loop_ok T (st, empty_attempt, evs)"
  by (auto simp: loop_ok_def batch_ok_def takes_ok_def empty_attempt_def)

lemma loop_targets: "loop_ok T (st, batch, evs) \<Longrightarrow> (\<lambda>e. target (snd e)) ` set (takes batch) \<subseteq> mt_set (restored T st)"
  by (auto simp: loop_ok_def batch_ok_def takes_ok_def)

lemma attempt_pass:
  assumes "mt_ok T (active c)" "tracks T c mm st" "mt_set (active_fragments st) \<subseteq> mt_set (restored T st)"
    and "match_loop T M conf optimized (st, empty_attempt, evs) = Some (Ok (st', batch, evs'))"
  shows "keeps_book T c mm st st'" "loop_ok T (st', batch, evs')"
    and "try_from T M b batch = Err (DissatisfiedTakers us) \<Longrightarrow> set us \<subseteq> mt_set (restored T st) \<and> us \<noteq> []"
proof -
  have k: "keeps_book T c mm st st' \<and> loop_ok T (st', batch, evs')"
    using match_loop_keeps [OF assms(1,4)] assms(2) fresh_loop_ok [OF assms(3)] by simp
  then show "keeps_book T c mm st st'" "loop_ok T (st', batch, evs')" by simp_all
  show "set us \<subseteq> mt_set (restored T st) \<and> us \<noteq> []" if "try_from T M b batch = Err (DissatisfiedTakers us)"
    using try_from_dissatisfied [OF that] loop_targets [of st' batch evs'] k by (auto simp: keeps_book_def)
qed

lemma pass_stash:
  assumes "mt_ok T (active c)" "tracks T c mm st" "mt_set (active_fragments st) \<subseteq> mt_set (restored T st)"
    and "match_loop T M conf optimized (st, empty_attempt, evs) = Some (Ok (st', batch, evs'))"
    and "set us \<subseteq> mt_set (restored T st)"
  shows "tracks T c mm (rollback T (Stash us) st')"
    "mt_set (active_fragments (rollback T (Stash us) st')) \<subseteq> mt_set (restored T (rollback T (Stash us) st'))"
proof -
  note k = attempt_pass(1) [OF assms(1-4)]
  have tr: "tracks T c mm st'" using k by (simp add: keeps_book_def)
  have us: "set us \<subseteq> mt_set (active c)" using assms(5) tracks_restored(2) [OF assms(1,2)] by auto
  show "tracks T c mm (rollback T (Stash us) st')" by (rule rollback_stash(1) [OF assms(1) tr us])
  show "mt_set (active_fragments (rollback T (Stash us) st')) \<subseteq> mt_set (restored T (rollback T (Stash us) st'))"
    by (simp add: restored_rollback [OF assms(1) tr])
qed

theorem attempt_loop_restores:
  assumes ok: "mt_ok T (active c)" and a: "attempt_loop T M conf optimized st = Some (Ok (st', recipe, evs))"
    and "tracks T c mm st" "mt_set (active_fragments st) \<subseteq> mt_set (restored T st)"
  shows "tracks T c mm st' \<and> (recipe = None \<longrightarrow> st' = Idle \<lparr> takers = c, makers = mm \<rparr>)"
  using a assms(3-)
proof (induction rule: attempt_loop_induct)
  case (found optimized st st' batch evs recipe)
  then show ?case using attempt_pass(1) [OF ok found.prems found.hyps(1)] by (simp add: keeps_book_def)
next
  case (none optimized st st' batch evs)
  have "tracks T c mm st'" using attempt_pass(1) [OF ok none.prems none.hyps(1)] by (simp add: keeps_book_def)
  from rollback_unstash [OF ok this] show ?case by simp
next
  case (stash optimized st st1 batch evs us st' recipe)
  have "set us \<subseteq> mt_set (restored T st)" using attempt_pass(3) [OF ok stash.prems stash.hyps] by simp
  from pass_stash [OF ok stash.prems stash.hyps(1) this] show ?case using stash.IH by simp
next
  case (downgrade optimized st st1 batch evs st' recipe)
  from pass_stash [OF ok downgrade.prems downgrade.hyps(1), of "[]"] show ?case using downgrade.IH by simp
qed

end

end
