(* ===== verification/Book_Termination.thy ===== *)
theory Book_Termination
  imports Book_Attempt
begin

text \<open>
  The loops of \<open>attempt\<close> end.  Every round uses up input of an active taker; a pass that is not optimised uses at least as many
  takers as makers, so that its recipe passes the complexity check if the budgets suffice; every repetition of a pass stashes a
  taker or gives up the optimisation.  A pass that is refused without optimisation is repeated for ever.
\<close>


section \<open>The inner loop ends\<close>

definition taker_weight :: "('t, 'k, 'i, 'u) book_taker \<Rightarrow> 't \<Rightarrow> nat" where
  "taker_weight T t = unat (t_input (ops T) t) + 1"

definition book_weight :: "('t, 'k, 'i, 'u) book_taker \<Rightarrow> 't set \<Rightarrow> nat" where
  "book_weight T A = sum (taker_weight T) A"

fun result_weight :: "('t, 'k, 'i, 'u) book_taker \<Rightarrow> ('t, terminal_take) nxt \<Rightarrow> nat" where
  "result_weight T (Succ t) = taker_weight T t"
| "result_weight T (Term u) = 0"

lemma finite_mt_set [simp]: "finite (mt_set mt)"
  by (simp add: mt_set_def)

lemma finite_succs [simp]: "finite {t. \<exists>tk \<in> set tks. result tk = Succ t}"
  by (rule finite_subset [of _ "(\<lambda>tk. case result tk of Succ t \<Rightarrow> t | Term _ \<Rightarrow> undefined) ` set tks"]) force+

lemma succ_weight:
  fixes tks :: "'t take_in_progress list"
  shows "book_weight T {t. \<exists>tk \<in> set tks. result tk = Succ t} \<le> (\<Sum>tk\<leftarrow>tks. result_weight T (result tk))"
proof (induction tks)
  case (Cons tk tks)
  let ?S = "\<lambda>tks. {t. \<exists>tk \<in> set tks. result tk = Succ t}"
  have "?S (tk # tks) = ?S [tk] \<union> ?S tks" by auto
  then have "book_weight T (?S (tk # tks)) \<le> book_weight T (?S [tk]) + book_weight T (?S tks)"
    using sum_Un_nat [OF finite_succs [of "[tk]"] finite_succs [of tks], of "taker_weight T"] by (simp add: book_weight_def)
  also have "book_weight T (?S [tk]) \<le> result_weight T (result tk)"
    by (cases "result tk") (simp_all add: book_weight_def)
  finally show ?case using Cons by simp
qed (simp add: book_weight_def)

context book_laws
begin

lemma traded_weight: "traded T tk \<Longrightarrow> result_weight T (result tk) \<le> taker_weight T (target tk)"
  using traded_input [of tk] by (cases "result tk") (simp_all add: taker_weight_def word_le_nat_alt)

lemma traded_weight_sum: "\<forall>tk \<in> set tks. traded T tk \<Longrightarrow>
    (\<Sum>tk\<leftarrow>tks. result_weight T (result tk)) \<le> (\<Sum>tk\<leftarrow>tks. taker_weight T (target tk))"
  by (induction tks) (auto intro: add_mono traded_weight)

lemma traded_weight_less:
  assumes "\<forall>tk \<in> set tks. traded T tk" "tk \<in> set tks" "result_weight T (result tk) < taker_weight T (target tk)"
  shows "(\<Sum>tk\<leftarrow>tks. result_weight T (result tk)) < (\<Sum>tk\<leftarrow>tks. taker_weight T (target tk))"
proof -
  obtain xs ys where t: "tks = xs @ tk # ys" using assms(2) by (metis split_list)
  then show ?thesis
    using assms(3) traded_weight_sum [of xs] traded_weight_sum [of ys] assms(1) by auto
qed

lemma round_weight:
  assumes "round_ok T optimized True A batch A' batch' tks" "finite A"
  shows "book_weight T A' < book_weight T A"
proof -
  let ?R = "target ` set tks" and ?S = "{t. \<exists>tk \<in> set tks. result tk = Succ t}"
  have tr: "\<forall>tk \<in> set tks. traded T tk" and R: "?R \<subseteq> A" and A': "A' \<subseteq> (A - ?R) \<union> ?S" and d: "distinct (map target tks)"
    using assms(1) by (auto simp: round_ok_def)
  obtain tk where tk: "tk \<in> set tks" "\<forall>t. result tk = Succ t \<longrightarrow> t_input (ops T) t < t_input (ops T) (target tk)"
    using assms(1) by (auto simp: round_ok_def)
  then have lt: "result_weight T (result tk) < taker_weight T (target tk)"
    by (cases "result tk") (simp_all add: taker_weight_def word_less_nat_alt)
  have "book_weight T A' \<le> book_weight T ((A - ?R) \<union> ?S)"
    unfolding book_weight_def by (rule sum_mono2) (use A' assms(2) in auto)
  also have "\<dots> \<le> book_weight T (A - ?R) + book_weight T ?S"
    using sum_Un_nat [of "A - ?R" ?S "taker_weight T"] assms(2) by (simp add: book_weight_def)
  also have "\<dots> \<le> book_weight T (A - ?R) + (\<Sum>tk\<leftarrow>tks. result_weight T (result tk))" using succ_weight by simp
  also have "\<dots> < book_weight T (A - ?R) + (\<Sum>tk\<leftarrow>tks. taker_weight T (target tk))" using traded_weight_less [OF tr tk(1) lt] by simp
  also have "(\<Sum>tk\<leftarrow>tks. taker_weight T (target tk)) = book_weight T ?R"
    using d sum.distinct_set_conv_list [of "map target tks" "taker_weight T"] by (simp add: book_weight_def comp_def)
  also have "book_weight T (A - ?R) + book_weight T ?R = book_weight T A"
    using sum.subset_diff [OF R assms(2), of "taker_weight T"] by (simp add: book_weight_def)
  finally show ?thesis .
qed

lemma round_input:
  assumes "round_ok T optimized continue A batch A' batch' tks" "\<forall>t \<in> A. t_input (ops T) t < - 1"
  shows "\<forall>t \<in> A'. t_input (ops T) t < - 1"
proof
  fix t assume "t \<in> A'"
  then consider "t \<in> A" | tk where "traded T tk" "target tk \<in> A" "result tk = Succ t"
    using assms(1) unfolding round_ok_def by blast
  then show "t_input (ops T) t < - 1"
  proof cases
    case 2
    then show ?thesis using traded_input [of tk t] assms(2) by (meson order_le_less_trans)
  qed (use assms(2) in auto)
qed

lemma match_step_total:
  assumes "mt_ok T (active c)" "tracks T c mm st" "\<forall>t \<in> mt_set (active_fragments st). t_input (ops T) t < - 1"
  shows "match_step T M o2o optimized (st, batch, evs) \<noteq> None"
proof (cases "spot_price M st")
  case (Some spot)
  obtain st1 r where p: "pick_active_taker (max_by_distance_to_spot T spot (allowed_price_range T st)) st = (st1, r)" by fastforce
  note k = keeps_pick_taker [OF assms(1,2) picks_max_by_distance p]
  show ?thesis
  proof (cases r)
    case t: (Some t)
    then have "t_input (ops T) t < - 1" using k(3) assms(3) by simp
    from preselect_total [OF this, of M "t_price T t" "k_side T t" optimized t st1]
    show ?thesis using Some p t by (auto simp: match_step_def match_target_def Let_def)
  qed (simp add: match_step_def Some p)
qed (simp add: match_step_def)

lemma match_loop_total:
  assumes "mt_ok T (active c)" "tracks T c mm (fst p)" "\<forall>t \<in> mt_set (active_fragments (fst p)). t_input (ops T) t < - 1"
  shows "match_loop T M conf optimized p \<noteq> None"
  using assms(2,3)
proof (induction "book_weight T (mt_set (active_fragments (fst p)))" arbitrary: p rule: less_induct)
  case less
  obtain st batch evs where p: "p = (st, batch, evs)" by (cases p)
  obtain r where m: "match_step T M (o2o_allowed conf) optimized p = Some r"
    using match_step_total [OF assms(1), of mm st] less.prems p by fastforce
  show ?case
  proof (cases r)
    case (Ok cp)
    obtain continue st1 batch1 evs1 where cp: "cp = (continue, st1, batch1, evs1)" by (cases cp)
    obtain tks where k: "keeps_book T c mm st st1" and
      r: "round_ok T optimized continue (mt_set (active_fragments st)) batch (mt_set (active_fragments st1)) batch1 tks"
      using match_step_round [OF assms(1)] less.prems(1) m Ok cp p by (metis fst_conv)
    have "match_loop T M conf optimized (st1, batch1, evs1) \<noteq> None" if continue
      using less.hyps [of "(st1, batch1, evs1)"] round_weight [of optimized _ batch _ batch1 tks] round_input [OF r] r k less.prems(2) p that
      by (simp add: keeps_book_def)
    then show ?thesis by (subst match_loop.simps) (simp add: m Ok cp)
  qed (subst match_loop.simps; simp add: m)+
qed

end


section \<open>A preview is not settled\<close>

fun settled :: "('t, 'm, 'j) tlb_state \<Rightarrow> bool" where
  "settled (Idle _) = True"
| "settled (PartialPreview _) = False"
| "settled (Preview _) = False"

lemma settled_picked: "pick_active_taker f st = (st', Some t) \<Longrightarrow> \<not> settled st'"
  by (cases st) (auto simp: Let_def split: prod.splits option.splits)

lemma settled_pick: "pick_active_taker f st = (st', r) \<Longrightarrow> \<not> settled st \<Longrightarrow> \<not> settled st'"
  by (cases st) (auto simp: Let_def split: prod.splits option.splits)

lemma settled_pick_maker: "pick_maker_by_id j st = (st', r) \<Longrightarrow> \<not> settled st'"
  by (cases st) (auto simp: pick_maker_by_id_def Let_def split: prod.splits)

lemma settled_on_take: "\<not> settled st \<Longrightarrow> \<not> settled (on_take T r st)"
  by (cases r) (auto simp: on_take_def pre_add_taker_def)

lemma settled_match_target:
  assumes "\<not> settled st" "match_target T M o2o optimized spot t (st, batch, evs) = Some (Ok (continue, st', batch', evs'))"
  shows "\<not> settled st'"
proof -
  let ?s = "k_side T t"
  obtain st1 ur where p: "try_pick_taker T (side_not ?s) (\<lambda>_. True) st = (st1, ur)" by fastforce
  have s1: "\<not> settled st1" using settled_pick [OF p [unfolded try_pick_taker_def] assms(1)] .
  have add: "\<not> settled (pre_add_taker T t st)" by (simp add: pre_add_taker_def)
  have mt: "\<not> settled st''" if "match_takers T spot t u (st1, batch, evs) = Ok (st'', b, e)" for u st'' b e
    using that s1 by (auto simp: match_takers_def and_then_eq_Ok settled_on_take)
  have mm: "\<not> settled st''" if "match_maker T M t mk chunk (st2, batch, evs) = (st'', b, e)" for mk chunk st2 st'' b e
    using that by (auto simp: match_maker_def on_make_def pre_add_maker_def Let_def split: prod.splits)
  show ?thesis
    using assms(2) p s1 add mt mm settled_pick_maker [of _ st]
    by (auto simp: match_target_def Let_def Option.bind_eq_Some_conv and_then_eq_Ok split: if_splits option.splits prod.splits)
qed

lemma settled_match_step:
  assumes "match_step T M o2o optimized (st, batch, evs) = Some (Ok (continue, st', batch', evs'))"
  shows "settled st' \<Longrightarrow> batch' = batch \<and> settled st"
proof -
  have "\<not> settled st' \<or> batch' = batch \<and> settled st"
  proof (cases "spot_price M st")
    case None
    then show ?thesis using assms by (auto simp: match_step_def)
  next
    case (Some spot)
    obtain st1 r where p: "pick_active_taker (max_by_distance_to_spot T spot (allowed_price_range T st)) st = (st1, r)" by fastforce
    show ?thesis
    proof (cases r)
      case None
      then show ?thesis using assms Some p settled_pick [OF p] by (auto simp: match_step_def)
    next
      case t: (Some t)
      have "match_target T M o2o optimized spot t (st1, batch, evs @ [SpotPrice spot]) = Some (Ok (continue, st', batch', evs'))"
        using assms Some p t by (simp add: match_step_def)
      from settled_match_target [OF settled_picked [OF p [unfolded t]] this] show ?thesis ..
    qed
  qed
  then show "settled st' \<Longrightarrow> batch' = batch \<and> settled st" by auto
qed

lemma settled_match_loop:
  assumes "match_loop T M conf optimized p = Some (Ok p')" "settled (fst p')"
  shows "fst (snd p') = fst (snd p)"
proof -
  have "settled (fst p') \<longrightarrow> fst (snd p') = fst (snd p) \<and> settled (fst p)" using assms(1)
  proof (induction rule: match_loop_induct)
    case (last p p')
    then show ?case using settled_match_step [of T M "o2o_allowed conf" optimized "fst p" "fst (snd p)" "snd (snd p)"] by (cases p') auto
  next
    case (step p p1 p')
    then show ?case using settled_match_step [of T M "o2o_allowed conf" optimized "fst p" "fst (snd p)" "snd (snd p)"] by (cases p1) auto
  qed simp
  then show ?thesis using assms(2) by simp
qed


section \<open>A pass that is not optimised uses at least as many takers as makers\<close>

definition outcome :: "('i, 't take_in_progress) hash_map \<Rightarrow> 'i \<Rightarrow> ('t, terminal_take) nxt option" where
  "outcome ts sid = map_option result (map_of ts sid)"

definition ended :: "('i, 't take_in_progress) hash_map \<Rightarrow> 'i set" where
  "ended ts = {sid. \<exists>u. outcome ts sid = Some (Term u)}"

lemma outcome_add: "outcome (takes_add T tk ts) = (outcome ts)(t_id T (target tk) \<mapsto> result tk)"
  by (auto simp: fun_eq_iff outcome_def takes_add_def Let_def map_of_hm_insert trans_combine_def split: option.splits)

lemma outcome_fold:
  assumes "distinct (map (\<lambda>tk. t_id T (target tk)) tks)"
  shows "tk \<in> set tks \<Longrightarrow> outcome (fold (takes_add T) tks ts) (t_id T (target tk)) = Some (result tk)"
    and "sid \<notin> (\<lambda>tk. t_id T (target tk)) ` set tks \<Longrightarrow> outcome (fold (takes_add T) tks ts) sid = outcome ts sid"
proof -
  have "(\<forall>tk \<in> set tks. outcome (fold (takes_add T) tks ts) (t_id T (target tk)) = Some (result tk)) \<and>
    (\<forall>sid. sid \<notin> (\<lambda>tk. t_id T (target tk)) ` set tks \<longrightarrow> outcome (fold (takes_add T) tks ts) sid = outcome ts sid)"
    using assms
  proof (induction tks arbitrary: ts)
    case (Cons tk tks)
    then show ?case using Cons.IH [of "takes_add T tk ts"] by (auto simp: outcome_add)
  qed simp
  then show "tk \<in> set tks \<Longrightarrow> outcome (fold (takes_add T) tks ts) (t_id T (target tk)) = Some (result tk)"
    "sid \<notin> (\<lambda>tk. t_id T (target tk)) ` set tks \<Longrightarrow> outcome (fold (takes_add T) tks ts) sid = outcome ts sid" by auto
qed

lemma finite_ended: "finite (ended ts)" "card (ended ts) \<le> length ts"
proof -
  have sub: "ended ts \<subseteq> fst ` set ts"
    by (auto simp: ended_def outcome_def dest!: map_of_SomeD) force
  then show "finite (ended ts)" by (rule finite_subset) simp
  have "card (ended ts) \<le> card (fst ` set ts)" using sub by (intro card_mono) simp_all
  also have "\<dots> \<le> length ts" using card_image_le [of "set ts" fst] card_length [of ts] by simp
  finally show "card (ended ts) \<le> length ts" .
qed

definition makes_covered :: "('t, 'k, 'i, 'u) book_taker \<Rightarrow> 't set \<Rightarrow> ('t, 'm, 'i, 'j, 'u) attempt \<Rightarrow> bool" where
  "makes_covered T A batch \<longleftrightarrow> inj_on (t_id T) A \<and> t_id T ` A \<inter> ended (takes batch) = {} \<and>
     length (makes batch) \<le> card (ended (takes batch))"

context book_laws
begin

lemma round_covered:
  assumes "makes_covered T A batch" "round_ok T False continue A batch A' batch' tks"
  shows "makes_covered T A' batch'"
proof -
  let ?id = "\<lambda>tk. t_id T (target tk)"
  have inj: "inj_on (t_id T) A" and dis: "t_id T ` A \<inter> ended (takes batch) = {}"
    and le: "length (makes batch) \<le> card (ended (takes batch))" using assms(1) by (simp_all add: makes_covered_def)
  have tks: "\<forall>tk \<in> set tks. traded T tk \<and> target tk \<in> A" "distinct (map target tks)"
    and A': "A' \<subseteq> (A - target ` set tks) \<union> {t. \<exists>tk \<in> set tks. result tk = Succ t}"
    and tb: "takes batch' = fold (takes_add T) tks (takes batch)"
    using assms(2) unfolding round_ok_def by blast+
  have d: "distinct (map ?id tks)"
    using tks inj by (auto simp: distinct_map inj_on_def)
  note o = outcome_fold [OF d, of _ "takes batch", folded tb]
  have orig: "\<exists>a \<in> A. t_id T a = t_id T t \<and> (a = t \<and> a \<notin> target ` set tks \<or> (\<exists>tk \<in> set tks. target tk = a \<and> result tk = Succ t))"
    if "t \<in> A'" for t
  proof -
    consider "t \<in> A" "t \<notin> target ` set tks" | tk where "tk \<in> set tks" "result tk = Succ t" using A' \<open>t \<in> A'\<close> by blast
    then show ?thesis
    proof cases
      case 2
      then show ?thesis using tks traded_id [of tk t] by (intro bexI [of _ "target tk"]) auto
    qed auto
  qed
  have inj': "inj_on (t_id T) A'"
  proof (rule inj_onI)
    fix t u assume tu: "t \<in> A'" "u \<in> A'" "t_id T t = t_id T u"
    obtain a where a: "a \<in> A" "t_id T a = t_id T t" "a = t \<and> a \<notin> target ` set tks \<or> (\<exists>tk \<in> set tks. target tk = a \<and> result tk = Succ t)"
      using orig [OF tu(1)] by blast
    obtain b where b: "b \<in> A" "t_id T b = t_id T u" "b = u \<and> b \<notin> target ` set tks \<or> (\<exists>tk \<in> set tks. target tk = b \<and> result tk = Succ u)"
      using orig [OF tu(2)] by blast
    have "a = b" using inj_onD [OF inj _ a(1) b(1)] a(2) b(2) tu(3) by simp
    moreover have "x = y" if "x \<in> set tks" "y \<in> set tks" "target x = target y" for x y
      using tks(2) that by (auto simp: distinct_map dest: inj_onD)
    ultimately show "t = u" using a(3) b(3) by (metis image_eqI nxt.inject(1))
  qed
  have run: "\<exists>s. outcome (takes batch') (t_id T t) = Some (Succ s) \<or> outcome (takes batch') (t_id T t) = outcome (takes batch) (t_id T t) \<and>
      t_id T t \<notin> ended (takes batch)" if t: "t \<in> A'" for t
  proof -
    obtain a where a: "a \<in> A" "t_id T a = t_id T t" "a = t \<and> a \<notin> target ` set tks \<or> (\<exists>tk \<in> set tks. target tk = a \<and> result tk = Succ t)"
      using orig [OF t] by blast
    show ?thesis
    proof (cases "a \<in> target ` set tks")
      case True
      then obtain tk where "tk \<in> set tks" "target tk = a" "result tk = Succ t" using a(3) by auto
      then show ?thesis using o(1) [of tk] a(2) by auto
    next
      case False
      then have "t_id T a \<notin> ?id ` set tks" using a(1) tks(1) inj by (auto dest: inj_onD)
      then show ?thesis using o(2) a(1,2) dis by auto
    qed
  qed
  have dis': "t_id T ` A' \<inter> ended (takes batch') = {}"
    using run by (fastforce simp: ended_def)
  have keep: "ended (takes batch) \<subseteq> ended (takes batch')"
  proof
    fix sid assume s: "sid \<in> ended (takes batch)"
    then have "sid \<notin> ?id ` set tks" using dis tks(1) by auto
    then show "sid \<in> ended (takes batch')" using s o(2) by (simp add: ended_def)
  qed
  have "length (makes batch') \<le> card (ended (takes batch'))"
  proof (cases "makes batch' = makes batch")
    case True
    then show ?thesis using le card_mono [OF finite_ended(1) keep] by simp
  next
    case False
    then obtain tk u where tk: "tks = [tk]" "result tk = Term u" and l: "length (makes batch') \<le> Suc (length (makes batch))"
      using assms(2) unfolding round_ok_def by blast
    have "?id tk \<in> ended (takes batch')" using o(1) [of tk] tk by (simp add: ended_def)
    then have "card (insert (?id tk) (ended (takes batch))) \<le> card (ended (takes batch'))"
      using keep by (intro card_mono finite_ended(1)) auto
    moreover have "?id tk \<notin> ended (takes batch)" using dis tks(1) tk(1) by auto
    ultimately show ?thesis using l le card_insert_disjoint [OF finite_ended(1)] by (metis (no_types, lifting) le_trans not_less_eq_eq)
  qed
  then show ?thesis using inj' dis' by (simp add: makes_covered_def)
qed

lemma match_loop_covered:
  assumes "mt_ok T (active c)" "match_loop T M conf False p = Some (Ok p')" "tracks T c mm (fst p)"
    and "makes_covered T (mt_set (active_fragments (fst p))) (fst (snd p))"
  shows "makes_covered T (mt_set (active_fragments (fst p'))) (fst (snd p'))"
proof -
  have s: "tracks T c mm (fst q') \<and> makes_covered T (mt_set (active_fragments (fst q'))) (fst (snd q'))"
    if ms: "match_step T M o2o False q = Some (Ok (continue, q'))" and tr: "tracks T c mm (fst q)"
      and cov: "makes_covered T (mt_set (active_fragments (fst q))) (fst (snd q))" for q q' o2o continue
  proof -
    obtain st batch evs st' batch' evs' where q: "q = (st, batch, evs)" "q' = (st', batch', evs')" by (metis prod_cases3)
    have tr': "tracks T c mm st" using tr q by simp
    obtain tks where "keeps_book T c mm st st'"
      and r: "round_ok T False continue (mt_set (active_fragments st)) batch (mt_set (active_fragments st')) batch' tks"
      using match_step_round [OF assms(1) tr' ms [unfolded q]] by blast
    then show ?thesis using round_covered [OF _ r] cov q by (simp add: keeps_book_def)
  qed
  show ?thesis using assms(2-)
    by (induction rule: match_loop_induct) (use s in blast)+
qed

end


section \<open>The outer loop ends\<close>

lemma fold_budget:
  fixes f :: "'a \<Rightarrow> u64"
  shows "unat acc + (\<Sum>e\<leftarrow>xs. unat (f (snd e))) < 2 ^ 64 \<Longrightarrow>
    unat (fold (\<lambda>(_, tk) acc. acc + f tk) xs acc) = unat acc + (\<Sum>e\<leftarrow>xs. unat (f (snd e)))"
proof (induction xs arbitrary: acc)
  case (Cons e xs)
  have "unat (acc + f (snd e)) = unat acc + unat (f (snd e))" using Cons.prems by (intro unat_add_small) simp
  then show ?case using Cons by (simp add: case_prod_beta)
qed simp

lemma attempt_finalized_makes:
  assumes "attempt_finalized T M a = Ok (Some r)"
  shows "length (fr_makes r) = length (makes a)"
proof -
  obtain ms b q where "finalize_makes M (makes a) = Some (ms, b, q)" "fr_makes r = ms"
    using assms by (auto simp: attempt_finalized_def and_then_eq_Ok split: option.splits if_splits)
  then show ?thesis using finalize_makes_length by blast
qed

lemma takes_targets:
  assumes "takes_ok T R ts"
  shows "distinct (map (\<lambda>e. target (snd e)) ts)" "(\<lambda>e. target (snd e)) ` set ts \<subseteq> R"
proof -
  have "map fst ts = map (t_id T) (map (\<lambda>e. target (snd e)) ts)" using assms by (auto simp: takes_ok_def)
  moreover have "distinct (map fst ts)" using assms by (simp add: takes_ok_def hm_ok_def)
  ultimately show "distinct (map (\<lambda>e. target (snd e)) ts)" by (metis distinct_map)
  show "(\<lambda>e. target (snd e)) ` set ts \<subseteq> R" using assms by (auto simp: takes_ok_def)
qed

text \<open>
  The budgets of the takers \<open>R\<close> of a book suffice for every recipe without optimisation: each one covers half a step, and their
  sum fits in 64 bits.
\<close>

definition budgets_ok :: "('t, 'k, 'i, 'u) book_taker \<Rightarrow> u64 \<Rightarrow> 't set \<Rightarrow> bool" where
  "budgets_ok T b R \<longleftrightarrow> finite R \<and> (\<Sum>t \<in> R. unat (t_consumable_budget (ops T) t)) < 2 ^ 64 \<and>
     (\<forall>t \<in> R. unat (max b 1) \<le> 2 * unat (t_consumable_budget (ops T) t))"

lemma complexity_ok:
  assumes ok: "takes_ok T R (takes a)" and b: "budgets_ok T b R" and fin: "attempt_finalized T M a = Ok (Some r)"
    and len: "length (makes a) \<le> length (takes a)" and ne: "takes a \<noteq> []"
  shows "check_recipe_complexity T b r"
proof (cases "length (fr_makes r) > 0")
  case True
  let ?bud = "\<lambda>t. unat (t_consumable_budget (ops T) t)" and ?ts = "map (\<lambda>e. target (snd e)) (takes a)"
  have mp: "map (\<lambda>e. target (snd e)) (fr_takes r) = ?ts"
    using arg_cong [OF attempt_finalized_targets [OF fin], of "map snd"] by (simp add: comp_def)
  have nt: "length (fr_takes r) = length (takes a)" using arg_cong [OF mp, of length] by simp
  have sum: "(\<Sum>e\<leftarrow>fr_takes r. ?bud (target (snd e))) = sum ?bud (set ?ts)"
    using sum.distinct_set_conv_list [OF takes_targets(1) [OF ok], of ?bud] arg_cong [OF mp, of "\<lambda>ts. sum_list (map ?bud ts)"]
    by (simp add: comp_def)
  have R: "set ?ts \<subseteq> R" "finite R" using takes_targets(2) [OF ok] b by (auto simp: budgets_ok_def)
  then have "sum ?bud (set ?ts) \<le> sum ?bud R" by (intro sum_mono2) auto
  then have lt: "sum ?bud (set ?ts) < 2 ^ 64" using b by (simp add: budgets_ok_def)
  have total: "unat (fold (\<lambda>(_, tk) acc. acc + t_consumable_budget (ops T) (target tk)) (fr_takes r) 0) = sum ?bud (set ?ts)"
    using fold_budget [of 0 "\<lambda>tk. t_consumable_budget (ops T) (target tk)" "fr_takes r"] sum lt by simp
  obtain e where e: "e \<in> set (takes a)" using ne by (cases "takes a") auto
  then have "?bud (target (snd e)) \<le> sum ?bud (set ?ts)" by (intro member_le_sum) auto
  moreover have "unat (max b 1) \<le> 2 * ?bud (target (snd e))" using b R(1) e by (auto simp: budgets_ok_def)
  ultimately have half: "unat (max b 1) \<le> 2 * sum ?bud (set ?ts)" by simp
  have pos: "0 < unat (max b 1)" by (cases "b = 0") (simp_all add: max_def unat_gt_0)
  have nm: "length (fr_makes r) \<le> length (fr_takes r)" using len nt attempt_finalized_makes [OF fin] by simp
  have "(1 :: rat) \<le> of_nat (length (fr_takes r)) / of_nat (length (fr_makes r))"
    using nm True by (simp add: le_divide_eq)
  moreover have "(1 / 2 :: rat) \<le> of_nat (sum ?bud (set ?ts)) / of_nat (unat (max b 1))"
    using half pos by (simp add: le_divide_eq del: of_nat_sum of_nat_unat)
  ultimately have "(1 :: rat) * (1 / 2) \<le> of_nat (length (fr_takes r)) / of_nat (length (fr_makes r)) *
      (of_nat (sum ?bud (set ?ts)) / of_nat (unat (max b 1)))"
    by (intro mult_mono) auto
  then show ?thesis
    using True unfolding check_recipe_complexity_def Let_def total BASE_TAKE_TO_MAKE_RATIO_def by simp
qed (simp add: check_recipe_complexity_def)

context book_laws
begin

lemma unoptimised_pass:
  assumes ok: "mt_ok T (active c)" and tr: "tracks T c mm st" and A: "mt_set (active_fragments st) \<subseteq> mt_set (restored T st)"
    and inj: "inj_on (t_id T) (mt_set (active c))" and b: "budgets_ok T (base_step_budget conf) (mt_set (active c))"
    and m: "match_loop T M conf False (st, empty_attempt, evs) = Some (Ok (st', batch, evs'))"
  shows "try_from T M (base_step_budget conf) batch \<noteq> Err DowngradeNeeded"
proof
  assume f: "try_from T M (base_step_budget conf) batch = Err DowngradeNeeded"
  obtain r where r: "attempt_finalized T M batch = Ok (Some r)" "is_complete batch" "\<not> check_recipe_complexity T (base_step_budget conf) r"
    using try_from_finalized [OF f] by (metis match_failure.distinct)
  have sub: "mt_set (restored T st) \<subseteq> mt_set (active c)" using tracks_restored(2) [OF ok tr] by auto
  have "takes_ok T (mt_set (restored T st)) (takes batch)"
    using attempt_pass(1,2) [OF ok tr A m] by (simp add: loop_ok_def batch_ok_def keeps_book_def)
  then have tk: "takes_ok T (mt_set (active c)) (takes batch)" using sub by (auto simp: takes_ok_def)
  have "inj_on (t_id T) (mt_set (active_fragments st))" using inj by (rule inj_on_subset) (use A sub in auto)
  then have "makes_covered T (mt_set (active_fragments (fst (st, empty_attempt, evs)))) (fst (snd (st, empty_attempt, evs)))"
    by (simp add: makes_covered_def empty_attempt_def ended_def outcome_def)
  then have "makes_covered T (mt_set (active_fragments st')) batch" using match_loop_covered [OF ok m] tr by simp
  then have "length (makes batch) \<le> length (takes batch)" using finite_ended(2) [of "takes batch"] by (simp add: makes_covered_def)
  moreover have "takes batch \<noteq> []" using r(2) by (auto simp: is_complete_def)
  ultimately show False using complexity_ok [OF tk b r(1)] r(3) by blast
qed

lemma attempt_loop_unfold:
  "attempt_loop T M conf optimized st \<noteq> None \<longleftrightarrow>
    (\<exists>r. match_loop T M conf optimized (st, empty_attempt, [LiquidityBookSizePreAttempt (book_size_of st)]) = Some r \<and>
      (\<forall>st' batch evs. r = Ok (st', batch, evs) \<longrightarrow>
        (\<forall>us. try_from T M (base_step_budget conf) batch = Err (DissatisfiedTakers us) \<longrightarrow>
           attempt_loop T M conf optimized (rollback T (Stash us) st') \<noteq> None) \<and>
        (try_from T M (base_step_budget conf) batch = Err DowngradeNeeded \<longrightarrow>
           attempt_loop T M conf False (rollback T (Stash []) st') \<noteq> None)))"
  by (subst attempt_loop.simps)
    (auto simp: run_bind_def Option.bind_eq_None_conv split: res.splits match_failure.splits)

end

context book_laws
begin

lemma stash_shrinks:
  assumes ok: "mt_ok T (active c)" and tr: "tracks T c mm st" and A: "mt_set (active_fragments st) \<subseteq> mt_set (restored T st)"
    and m: "match_loop T M conf optimized (st, empty_attempt, evs) = Some (Ok (st', batch, evs'))"
    and us: "try_from T M b batch = Err (DissatisfiedTakers us)"
  shows "card (mt_set (restored T (rollback T (Stash us) st'))) < card (mt_set (restored T st))"
proof -
  note k = attempt_pass(1,2) [OF ok tr A m]
  have u: "set us \<subseteq> mt_set (restored T st)" "us \<noteq> []" using attempt_pass(3) [OF ok tr A m us] by simp_all
  have tr': "tracks T c mm st'" and res: "restored T st' = restored T st" using k by (simp_all add: keeps_book_def)
  have sub: "set us \<subseteq> mt_set (active c)" using u(1) tracks_restored(2) [OF ok tr] by auto
  have "takes batch \<noteq> []" using try_from_dissatisfied [OF us] by auto
  then have "\<not> settled st'" using settled_match_loop [OF m] by (auto simp: empty_attempt_def)
  then have "st' \<noteq> Idle \<lparr> takers = c, makers = mm \<rparr>" by auto
  then have r: "restored T (rollback T (Stash us) st') = mt_remove_all T us (restored T st)"
    using rollback_stash(2) [OF ok tr' sub] res by simp
  have "inj_on (place T) (set us \<union> mt_set (restored T st))"
    using mt_ok_inj [OF ok] by (rule inj_on_subset) (use tracks_restored(2) [OF ok tr] u(1) in auto)
  from mt_remove_all_set(2) [OF tracks_restored(1) [OF ok tr] this]
  have "mt_set (restored T (rollback T (Stash us) st')) = mt_set (restored T st) - set us" by (simp add: r)
  moreover obtain x where "x \<in> set us" using u(2) by (cases us) auto
  ultimately show ?thesis using u(1) by (intro psubset_card_mono) auto
qed

lemma restored_card:
  assumes "mt_ok T (active c)" "tracks T c mm st"
  shows "card (mt_set (restored T st)) \<le> card (mt_set (active c))"
  using tracks_restored(2) [OF assms] by (intro card_mono) auto

theorem attempt_loop_total:
  assumes ok: "mt_ok T (active c)" and inj: "inj_on (t_id T) (mt_set (active c))"
    and b: "budgets_ok T (base_step_budget conf) (mt_set (active c))" and inp: "\<forall>t \<in> mt_set (active c). t_input (ops T) t < - 1"
    and "tracks T c mm st" "mt_set (active_fragments st) \<subseteq> mt_set (restored T st)"
  shows "attempt_loop T M conf optimized st \<noteq> None"
  using assms(5,6)
proof (induction "(if optimized then Suc (card (mt_set (active c))) else 0) + card (mt_set (restored T st))"
    arbitrary: optimized st rule: less_induct)
  case less
  note tr = less.prems(1) and A = less.prems(2)
  have "mt_set (active_fragments st) \<subseteq> mt_set (active c)" using A tracks_restored(2) [OF ok tr] by auto
  then have "match_loop T M conf optimized (st, empty_attempt, [LiquidityBookSizePreAttempt (book_size_of st)]) \<noteq> None"
    by (intro match_loop_total [OF ok, of mm]) (use tr inp in auto)
  moreover have "attempt_loop T M conf optimized (rollback T (Stash us) st') \<noteq> None"
    if m: "match_loop T M conf optimized (st, empty_attempt, [LiquidityBookSizePreAttempt (book_size_of st)]) = Some (Ok (st', batch, evs))"
      and f: "try_from T M (base_step_budget conf) batch = Err (DissatisfiedTakers us)" for st' batch evs us
  proof -
    have "set us \<subseteq> mt_set (restored T st)" using attempt_pass(3) [OF ok tr A m f] by simp
    note p = pass_stash [OF ok tr A m this]
    show ?thesis using less.hyps [OF _ p] stash_shrinks [OF ok tr A m f] by simp
  qed
  moreover have "attempt_loop T M conf False (rollback T (Stash []) st') \<noteq> None"
    if m: "match_loop T M conf optimized (st, empty_attempt, [LiquidityBookSizePreAttempt (book_size_of st)]) = Some (Ok (st', batch, evs))"
      and f: "try_from T M (base_step_budget conf) batch = Err DowngradeNeeded" for st' batch evs
  proof -
    have o: optimized
    proof (rule ccontr)
      assume "\<not> optimized"
      with m have "match_loop T M conf False (st, empty_attempt, [LiquidityBookSizePreAttempt (book_size_of st)]) = Some (Ok (st', batch, evs))"
        by simp
      from unoptimised_pass [OF ok tr A inj b this] f show False by simp
    qed
    note p = pass_stash [OF ok tr A m, of "[]", simplified]
    show ?thesis using less.hyps [OF _ p, of False] restored_card [OF ok p(1)] o by simp
  qed
  ultimately show ?case by (intro attempt_loop_unfold [THEN iffD2]) blast
qed

end

text \<open>
  A pass over a settled book that is refused for its complexity although it was not optimised is repeated for ever.
\<close>

lemma rejected_pass_repeats:
  assumes ok: "mt_ok T (active (takers s))"
    and m: "match_loop T M conf False (Idle s, empty_attempt, [LiquidityBookSizePreAttempt (book_size_of (Idle s))]) = Some (Ok (st', batch, evs))"
    and f: "try_from T M (base_step_budget conf) batch = Err DowngradeNeeded"
    and again: "rollback T (Stash []) st' = Idle s"
  shows "attempt_loop T M conf False (Idle s) = None"
proof (rule ccontr)
  let ?P = "\<lambda>T' M' conf' optimized' st (y :: (unit, _ \<times> _ \<times> execution_event list) res). (T', M', conf', optimized', st) \<noteq> (T, M, conf, False, Idle s)"
  assume "attempt_loop T M conf False (Idle s) \<noteq> None"
  then obtain y where y: "attempt_loop T M conf False (Idle s) = Some y" by blast
  have "?P T M conf False (Idle s) y"
  proof (rule attempt_loop.raw_induct [where P = ?P, OF _ y], rule notI)
    fix loop T' M' conf' optimized st y
    assume IH: "\<And>T' M' conf' optimized st y. loop T' M' conf' optimized st = Some y \<Longrightarrow> (T', M', conf', optimized, st) \<noteq> (T, M, conf, False, Idle s)"
      and body: "run_bind (match_loop T' M' conf' optimized (st, empty_attempt, [LiquidityBookSizePreAttempt (book_size_of st)])) (\<lambda>(st', batch, evs).
      case try_from T' M' (base_step_budget conf') batch of
        Ok recipe \<Rightarrow> Some (Ok (st', Some recipe, evs @ [LiquidityBookSizePostAttempt (book_size_of st')]))
      | Err failure \<Rightarrow>
          (case failure of
             NoMatch \<Rightarrow> Some (Ok (rollback T' Unstash st', None, evs @ [LiquidityBookSizePostAttempt (book_size_of st')]))
           | DissatisfiedTakers us \<Rightarrow> loop T' M' conf' optimized (rollback T' (Stash us) st')
           | DowngradeNeeded \<Rightarrow> loop T' M' conf' False (rollback T' (Stash []) st'))
      | Panic \<Rightarrow> Some Panic) = Some y"
      and eq: "(T', M', conf', optimized, st) = (T, M, conf, False, Idle s)"
    have "loop T M conf False (Idle s) = Some y" using body eq m f again by simp
    from IH [OF this] show False by simp
  qed
  then show False by simp
qed

end
