(* ===== verification/Book_Wellformed.thy ===== *)
theory Book_Wellformed
  imports Book_Termination Royalty_Pool Green_Exec_Correct
begin

text \<open>
  The liquidity book of Green orders and royalty pools: both satisfy the laws of \<open>book_laws\<close> (Book_Round), a well-formedness
  invariant of the book that every event, every matchmaking attempt and every feedback keeps, and the runs of the book.
\<close>

section \<open>Green orders and royalty pools in the book\<close>

lemma go_price_nonneg: "go_price ord = Ok p \<Longrightarrow> 0 \<le> p"
  by (auto simp: go_price_def Let_def simp del: of_nat_unat split: if_splits side.splits)

lemma green_book_sel [simp]:
  "ops (green_book H) = green_taker" "t_key (green_book H) = go_key" "t_id (green_book H) ord = goi_stable_token H (go_id ord)"
  "t_cost (green_book H) ord = \<lparr> mem = 0, steps = 0 \<rparr>"
  by (simp_all add: green_book_def)

interpretation green_royalty: book_laws "green_book H" "royalty_maker curve" for H curve
proof unfold_locales
  fix t show "0 \<le> t_price (green_book H) t"
    using go_price_nonneg [of t] by (auto simp: green_book_def split: res.splits)
next
  fix t removed added t'
  assume s: "t_with_applied_trade (ops (green_book H)) t removed added = Succ t'"
  then show "t_id (green_book H) t' = t_id (green_book H) t"
    by (auto simp: go_with_applied_trade_def go_try_terminate_def split: if_splits)
  assume "removed \<le> t_input (ops (green_book H)) t"
  then show "t_input (ops (green_book H)) t' = t_input (ops (green_book H)) t - removed \<and> t_input (ops (green_book H)) t' \<noteq> 0"
    using s by (auto simp: go_with_applied_trade_def go_try_terminate_def saturating_sub_def split: if_splits)
next
  fix m t inp
  show "\<exists>added. fst (m_swap_with_taker (royalty_maker curve) m t inp) =
      \<lparr> target = t, result = t_with_applied_trade (ops (green_book H)) t (on_side_unwrap inp) added \<rparr>"
    by (auto simp: royalty_maker_def with_default_swap_def default_swap_with_taker_def Let_def)
qed


section \<open>Well-formed books\<close>

definition chron_ok :: "('t, 'k::linorder, 'i, 'u) book_taker \<Rightarrow> 't chronology \<Rightarrow> bool" where
  "chron_ok T c \<longleftrightarrow> mt_ok T (active c) \<and> bt_ok (inactive c) \<and> (\<forall>(lb, mt) \<in> set (inactive c). mt_ok T mt)"

definition makers_ok :: "('m, 't, 'j, 'u) maker \<Rightarrow> ('m, 'j) market_makers \<Rightarrow> bool" where
  "makers_ok M mm \<longleftrightarrow> hm_ok (mm_values mm) \<and> (\<forall>(j, m) \<in> set (mm_values mm). j = m_id M m) \<and> bt_ok (quality_index mm)"

fun book_ok :: "('t, 'k::linorder, 'i, 'u) book_taker \<Rightarrow> ('m, 't, 'j, 'u) maker \<Rightarrow> ('t, 'm, 'j) tlb_state \<Rightarrow> bool" where
  "book_ok T M (Idle st) \<longleftrightarrow> chron_ok T (takers st) \<and> makers_ok M (makers st)"
| "book_ok T M (PartialPreview st) \<longleftrightarrow> chron_ok T (takers_preview st) \<and> makers_ok M (pp_makers_intact st) \<and> makers_ok M (pp_makers_preview st)"
| "book_ok T M (Preview st) \<longleftrightarrow> chron_ok T (takers_intact st) \<and> mt_ok T (active_takers_preview st) \<and>
     makers_ok M (pv_makers_intact st) \<and> makers_ok M (pv_makers_preview st)"


lemma bt_insert_set: "set (bt_insert k v m) \<subseteq> insert (k, v) (set m)"
  by (induction k v m rule: bt_insert.induct) auto

lemma mt_insert_all_ok: "mt_ok T mt \<Longrightarrow> mt_ok T (mt_insert_all T frs mt)"
  by (induction frs arbitrary: mt) (simp_all add: mt_insert_all_def mt_insert_ok)

lemma mt_remove_ok: "mt_ok T mt \<Longrightarrow> mt_ok T (mt_remove T fr mt)"
  by (cases "k_side T fr") (auto simp: mt_remove_def mt_ok_def bs_ok_remove, auto simp: bs_remove_def)

lemma mt_remove_all_ok: "mt_ok T mt \<Longrightarrow> mt_ok T (mt_remove_all T frs mt)"
  by (induction frs arbitrary: mt) (simp_all add: mt_remove_all_def mt_remove_ok)

lemma chron_ok_active: "chron_ok T c \<Longrightarrow> mt_ok T act \<Longrightarrow> chron_ok T (c\<lparr> active := act \<rparr>)"
  by (simp add: chron_ok_def)

lemma inactive_slot_ok: "chron_ok T c \<Longrightarrow> map_of (inactive c) lb = Some mt \<Longrightarrow> mt_ok T mt"
  by (auto simp: chron_ok_def dest!: map_of_SomeD)

lemma inactive_bt_insert:
  assumes "chron_ok T c" "mt_ok T mt"
  shows "chron_ok T (c\<lparr> inactive := bt_insert lb mt (inactive c) \<rparr>)"
proof -
  have "(lb', mt') \<in> set (bt_insert lb mt (inactive c)) \<Longrightarrow> mt_ok T mt'" for lb' mt'
    using bt_insert_set [of lb mt "inactive c"] assms by (auto simp: chron_ok_def)
  then show ?thesis using assms by (auto simp: chron_ok_def bt_ok_insert)
qed

lemma inactive_insert_ok: "chron_ok T c \<Longrightarrow> chron_ok T (c\<lparr> inactive := inactive_insert T lb fr (inactive c) \<rparr>)"
  unfolding inactive_insert_def
  by (rule inactive_bt_insert) (auto intro!: mt_insert_ok(1) dest: inactive_slot_ok split: option.splits)

lemma chron_add_ok: "chron_ok T c \<Longrightarrow> chron_ok T (chron_add_fragment T fr c)"
  by (auto simp: chron_add_fragment_def inactive_insert_ok chron_ok_active mt_insert_ok chron_ok_def [of T c] split: option.splits)

lemma chron_remove_ok: "chron_ok T c \<Longrightarrow> chron_ok T (chron_remove_fragment T fr c)"
  by (auto simp: chron_remove_fragment_def split: option.splits
      intro!: inactive_bt_insert chron_ok_active mt_remove_ok dest: inactive_slot_ok) (simp add: chron_ok_def)

lemma keep_updated_ok:
  assumes "bs_ok (t_key T) slot" "\<forall>t \<in> set slot. k_side T t = s" "\<forall>t \<in> set frs. k_side T t = s"
    and keep: "\<And>t now t'. t_with_updated_time (ops T) t now = Succ t' \<Longrightarrow> k_side T t' = k_side T t"
  shows "bs_ok (t_key T) (keep_updated T now frs slot) \<and> (\<forall>t \<in> set (keep_updated T now frs slot). k_side T t = s)"
  using assms(1-3)
proof (induction frs arbitrary: slot)
  case (Cons fr frs)
  have sub: "set (bs_insert key x xs) \<subseteq> insert x (set xs)" for key :: "'a \<Rightarrow> 'b" and x xs
    by (induction key x xs rule: bs_insert.induct) auto
  show ?case
  proof (cases "t_with_updated_time (ops T) fr now")
    case (Succ fr')
    have "bs_ok (t_key T) (bs_insert (t_key T) fr' slot)" "\<forall>t \<in> set (bs_insert (t_key T) fr' slot). k_side T t = s"
      using Cons.prems keep [OF Succ] sub [of "t_key T" fr' slot] by (auto simp: bs_ok_insert)
    from Cons.IH [OF this] Succ Cons.prems(3) show ?thesis by (simp add: keep_updated_def)
  next
    case (Term u)
    then show ?thesis using Cons.IH [OF Cons.prems(1,2)] Cons.prems(3) by (simp add: keep_updated_def)
  qed
qed (simp add: keep_updated_def)

lemma chron_advance_ok:
  assumes "chron_ok T c" and keep: "\<And>t now t'. t_with_updated_time (ops T) t now = Succ t' \<Longrightarrow> k_side T t' = k_side T t"
  shows "chron_ok T (chron_advance_clocks T now c)"
proof -
  let ?slot = "case map_of (inactive c) now of None \<Rightarrow> mt_new | Some mt \<Rightarrow> mt"
  have slot: "mt_ok T ?slot" using inactive_slot_ok [OF assms(1), of now] by (auto split: option.splits)
  have act: "mt_ok T (active c)" using assms(1) by (simp add: chron_ok_def)
  note sides = slot [unfolded mt_ok_def] act [unfolded mt_ok_def]
  have "bs_ok (t_key T) (keep_updated T now (asks (active c)) (asks ?slot)) \<and>
      (\<forall>t \<in> set (keep_updated T now (asks (active c)) (asks ?slot)). k_side T t = Ask)"
    "bs_ok (t_key T) (keep_updated T now (bids (active c)) (bids ?slot)) \<and>
      (\<forall>t \<in> set (keep_updated T now (bids (active c)) (bids ?slot)). k_side T t = Bid)"
    by (rule keep_updated_ok; use sides keep in blast)+
  then have "mt_ok T \<lparr> asks = keep_updated T now (asks (active c)) (asks ?slot), bids = keep_updated T now (bids (active c)) (bids ?slot) \<rparr>"
    by (simp add: mt_ok_def)
  moreover have "set (bt_remove now (inactive c)) \<subseteq> set (inactive c)" by (auto simp: bt_remove_def)
  ultimately show ?thesis using assms(1) bt_ok_remove [of "inactive c" now] unfolding chron_ok_def chron_advance_clocks_def Let_def by auto
qed

lemma update_pool_ok: "makers_ok M mm \<Longrightarrow> makers_ok M (update_pool M pool mm)"
  by (auto simp: makers_ok_def update_pool_def Let_def hm_ok_insert hm_insert_set bt_ok_insert bt_ok_remove split: option.splits)

lemma set_hm_remove: "set (hm_remove k m) \<subseteq> set m"
  by (auto simp: hm_remove_def)

lemma remove_pool_ok: "makers_ok M mm \<Longrightarrow> makers_ok M (remove_pool M pool mm)"
  using set_hm_remove [of "m_id M pool" "mm_values mm"] by (auto simp: makers_ok_def remove_pool_def hm_ok_remove bt_ok_remove)

lemma pick_values_ok: "makers_ok M mm \<Longrightarrow> makers_ok M (mm\<lparr> mm_values := hm_remove j (mm_values mm) \<rparr>)"
  using set_hm_remove [of j "mm_values mm"] by (auto simp: makers_ok_def hm_ok_remove)

subsection \<open>Every operation keeps a book well formed\<close>

lemma book_ok_event:
  assumes "book_ok T M st" "apply_event T M e st = Ok st'"
    and keep: "\<And>t now t'. t_with_updated_time (ops T) t now = Succ t' \<Longrightarrow> k_side T t' = k_side T t"
  shows "book_ok T M st' \<and> settled st'"
proof -
  obtain s where s: "st = Idle s" using assms(2) by (cases st; cases e) auto
  show ?thesis using assms(1,2) s keep
    by (cases e) (auto simp: idle_advance_clocks_def idle_add_fragment_def idle_remove_fragment_def idle_update_pool_def
        idle_remove_pool_def chron_advance_ok chron_add_ok chron_remove_ok update_pool_ok remove_pool_ok)
qed

lemma book_ok_resume: "chron_ok T c \<Longrightarrow> makers_ok M mm \<Longrightarrow> book_ok T M (resume c stash mm)"
  by (simp add: resume_def)

lemma book_ok_rollback:
  assumes "book_ok T M st"
  shows "book_ok T M (rollback T opt st)"
proof (cases st)
  case (PartialPreview p)
  have "mt_ok T (fst (apply_stashing T opt (mt_insert_all T (rev (consumed_active_takers p)) (active (takers_preview p))) (pp_stashed p)))"
    using assms PartialPreview by (cases opt) (simp_all add: apply_stashing_def mt_remove_all_ok mt_insert_all_ok chron_ok_def)
  then show ?thesis using assms PartialPreview
    by (auto simp: pp_rollback_def Let_def split_beta intro!: book_ok_resume chron_ok_active)
next
  case (Preview p)
  have "mt_ok T (fst (apply_stashing T opt (active (takers_intact p)) (pv_stashed p)))"
    using assms Preview by (cases opt) (simp_all add: apply_stashing_def mt_remove_all_ok mt_insert_all_ok chron_ok_def)
  then show ?thesis using assms Preview
    by (auto simp: pv_rollback_def Let_def split_beta intro!: book_ok_resume chron_ok_active)
qed (use assms in simp)

lemma fold_inactive_ok: "chron_ok T c \<Longrightarrow> chron_ok T (c\<lparr> inactive := fold (\<lambda>(time, t). inactive_insert T time t) xs (inactive c) \<rparr>)"
proof (induction xs arbitrary: c)
  case (Cons x xs)
  obtain time t where x: "x = (time, t)" by (cases x)
  show ?case using Cons.IH [OF inactive_insert_ok [OF Cons.prems, of time t]] x by simp
qed simp

lemma book_ok_commit: "book_ok T M st \<Longrightarrow> book_ok T M (commit T st)"
proof (cases st)
  case (Preview p)
  assume ok: "book_ok T M st"
  let ?act = "mt_insert_all T (pv_stashed p) (active_takers_preview p)"
  have "chron_ok T ((takers_intact p)\<lparr> active := ?act \<rparr>)"
    using ok Preview by (simp add: chron_ok_active mt_insert_all_ok)
  from fold_inactive_ok [OF this, of "rev (inactive_takers_changeset p)"] show ?thesis using ok Preview by (simp add: pv_commit_def)
qed (simp_all add: pp_commit_def)

lemma book_ok_pick:
  assumes "book_ok T M st" "picks T f" "pick_active_taker f st = (st', r)"
  shows "book_ok T M st'"
proof -
  have act: "mt_ok T (active_fragments st)" using assms(1) by (cases st) (simp_all add: chron_ok_def)
  obtain a ch where f: "f (active_fragments st) = (a, ch)" by fastforce
  have "mt_ok T a" using assms(2) act f by (auto simp: picks_def)
  then show ?thesis using assms(1,3) f
    by (cases st) (auto simp: Let_def move_into_partial_preview_def chron_ok_active split: option.splits)
qed

lemma book_ok_into_preview: "book_ok T M st \<Longrightarrow> book_ok T M (Preview (move_into_preview T st))"
  by (cases st) (auto simp: idle_into_preview_def partial_into_preview_def chron_ok_active mt_insert_all_ok chron_ok_def)

lemma book_ok_add_taker: "book_ok T M st \<Longrightarrow> book_ok T M (pre_add_taker T t st)"
  using book_ok_into_preview [of T M st] by (auto simp: pre_add_taker_def preview_add_taker_def mt_insert_ok split: option.splits)

lemma book_ok_add_maker: "book_ok T M st \<Longrightarrow> book_ok T M (pre_add_maker T M m st)"
  using book_ok_into_preview [of T M st] by (auto simp: pre_add_maker_def Let_def update_pool_ok)

lemma book_ok_pick_maker: "book_ok T M st \<Longrightarrow> pick_maker_by_id j st = (st', r) \<Longrightarrow> book_ok T M st'"
  by (cases st) (auto simp: pick_maker_by_id_def move_into_partial_preview_def Let_def pick_values_ok)

lemma book_ok_on_take: "book_ok T M st \<Longrightarrow> book_ok T M (on_take T r st)"
  by (cases r) (simp_all add: on_take_def book_ok_add_taker)

lemma book_ok_match_target:
  assumes ok: "book_ok T M st" and m: "match_target T M o2o optimized spot t (st, batch, evs) = Some (Ok (continue, st', batch', evs'))"
  shows "book_ok T M st'"
proof -
  let ?s = "k_side T t"
  obtain st1 ur where p: "try_pick_taker T (side_not ?s) (\<lambda>_. True) st = (st1, ur)" by fastforce
  have ok1: "book_ok T M st1" using book_ok_pick [OF ok picks_try_pick p [unfolded try_pick_taker_def]] .
  have add: "book_ok T M (pre_add_taker T t st)" by (rule book_ok_add_taker [OF ok])
  have mt: "book_ok T M st''" if "match_takers T spot t u (st1, batch, evs) = Ok (st'', b, e)" for u st'' b e
    using that ok1 by (auto simp: match_takers_def and_then_eq_Ok book_ok_on_take)
  have mm: "book_ok T M st''" if "match_maker T M t mk chunk (st2, batch, evs) = (st'', b, e)" "book_ok T M st2" for mk chunk st2 st'' b e
    using that by (auto simp: match_maker_def on_make_def book_ok_add_maker book_ok_on_take Let_def split: prod.splits)
  show ?thesis
    using m p ok1 add mt mm book_ok_pick_maker [OF ok]
    by (auto simp: match_target_def Let_def Option.bind_eq_Some_conv and_then_eq_Ok split: if_splits option.splits prod.splits)
qed

lemma book_ok_match_step:
  assumes ok: "book_ok T M (fst p)" and m: "match_step T M o2o optimized p = Some (Ok (continue, p'))"
  shows "book_ok T M (fst p')"
proof -
  obtain st batch evs st' batch' evs' where p: "p = (st, batch, evs)" "p' = (st', batch', evs')" by (metis prod_cases3)
  show ?thesis
  proof (cases "spot_price M st")
    case None
    then show ?thesis using m ok p by (simp add: match_step_def)
  next
    case (Some spot)
    obtain st1 r where pick: "pick_active_taker (max_by_distance_to_spot T spot (allowed_price_range T st)) st = (st1, r)" by fastforce
    have ok1: "book_ok T M st1" using book_ok_pick [OF _ picks_max_by_distance pick] ok p by simp
    then show ?thesis using m p Some pick book_ok_match_target [OF ok1] by (cases r) (auto simp: match_step_def)
  qed
qed

lemma book_ok_match_loop:
  assumes "match_loop T M conf optimized p = Some (Ok p')" "book_ok T M (fst p)"
  shows "book_ok T M (fst p')"
  using assms by (induction rule: match_loop_induct) (use book_ok_match_step in blast)+

lemma book_ok_attempt:
  assumes "attempt_loop T M conf optimized st = Some (Ok (st', recipe, evs))" "book_ok T M st"
  shows "book_ok T M st'"
  using assms
proof (induction rule: attempt_loop_induct)
  case (found optimized st st' batch evs recipe)
  then show ?case using book_ok_match_loop by fastforce
next
  case (none optimized st st' batch evs)
  then show ?case using book_ok_match_loop book_ok_rollback by fastforce
next
  case (stash optimized st st1 batch evs us st' recipe)
  then show ?case using book_ok_match_loop [OF stash.hyps(1)] book_ok_rollback by fastforce
next
  case (downgrade optimized st st1 batch evs st' recipe)
  then show ?case using book_ok_match_loop [OF downgrade.hyps(1)] book_ok_rollback by fastforce
qed

section \<open>Runs of a book\<close>

text \<open>
  The states a book of Green orders and royalty pools can reach: external events, attempts on a settled book, and the
  feedback on a recipe.  Announced orders have a price (see \<open>go_price\<close>).
\<close>

inductive green_run :: "(bytes \<Rightarrow> bytes) \<Rightarrow> (rat \<Rightarrow> u64 \<Rightarrow> u64 \<Rightarrow> absolute_price \<Rightarrow> int \<times> int) \<Rightarrow> ex_units execution_config \<Rightarrow>
    (green_order, royalty_pool, token) tlb_state \<Rightarrow> bool"
  for H :: "bytes \<Rightarrow> bytes" and curve :: "rat \<Rightarrow> u64 \<Rightarrow> u64 \<Rightarrow> absolute_price \<Rightarrow> int \<times> int" and conf :: "ex_units execution_config" where
  start: "green_run H curve conf (tlb_new time)"
| event: "green_run H curve conf st \<Longrightarrow> (\<forall>ord. e = UpdateTaker ord \<longrightarrow> go_price ord \<noteq> Panic) \<Longrightarrow>
    apply_event (green_book H) (royalty_maker curve) e st = Ok st' \<Longrightarrow> green_run H curve conf st'"
| attempted: "green_run H curve conf st \<Longrightarrow> settled st \<Longrightarrow>
    attempt_recipe (green_book H) (royalty_maker curve) conf st = Some (Ok (st', recipe, evs)) \<Longrightarrow> green_run H curve conf st'"
| succeeded: "green_run H curve conf st \<Longrightarrow> green_run H curve conf (on_recipe_succeeded (green_book H) st)"
| failed: "green_run H curve conf st \<Longrightarrow> green_run H curve conf (on_recipe_failed (green_book H) st)"

lemma run_book_ok: "green_run H curve conf st \<Longrightarrow> book_ok (green_book H) (royalty_maker curve) st"
proof (induction rule: green_run.induct)
  case (start time)
  show ?case by (simp add: tlb_new_def idle_new_def chron_new_def chron_ok_def makers_ok_def mm_new_def)
next
  case (event st e st')
  show ?case
    by (rule book_ok_event [OF event.IH event.hyps(3), THEN conjunct1]) (auto simp: green_taker_def)
next
  case (attempted st st' recipe evs)
  then show ?case using book_ok_attempt by (simp add: attempt_recipe_def)
qed (simp_all add: on_recipe_succeeded_def on_recipe_failed_def book_ok_commit book_ok_rollback)

text \<open>Feedback settles a book, and only a settled book accepts events.\<close>

lemma settled_feedback: "settled (on_recipe_succeeded T st)" 
  by (cases st) (simp_all add: on_recipe_succeeded_def)

lemma settled_failed: "settled (on_recipe_failed T st)"
  by (cases st) (simp_all add: on_recipe_failed_def pp_rollback_def pv_rollback_def apply_stashing_def resume_def Let_def)

lemma unsettled_event: "\<not> settled st \<Longrightarrow> apply_event T M e st = Panic"
  by (cases st; cases e) simp_all

lemma settled_event: "settled st \<Longrightarrow> \<exists>st'. apply_event T M e st = Ok st' \<and> settled st'"
  by (cases st; cases e) simp_all

lemma found_unsettled:
  assumes "attempt_loop T M conf optimized st = Some (Ok (st', Some recipe, evs))"
  shows "\<not> settled st'"
proof -
  have "recipe' \<noteq> None \<longrightarrow> \<not> settled st'" if "attempt_loop T M conf optimized st = Some (Ok (st', recipe', evs))" for recipe'
    using that
  proof (induction rule: attempt_loop_induct)
    case (found optimized st st' batch evs recipe)
    have "takes batch \<noteq> []" using found.hyps(2) by (auto simp: try_from_def is_complete_def split: if_splits)
    then show ?case using settled_match_loop [OF found.hyps(1)] by (auto simp: empty_attempt_def)
  qed simp_all
  then show ?thesis using assms by blast
qed

lemma settled_attempt:
  assumes "book_ok (green_book H) (royalty_maker curve) (Idle s)"
    and "attempt_recipe (green_book H) (royalty_maker curve) conf (Idle s) = Some (Ok (st', recipe, evs))"
  shows "rollback (green_book H) Unstash st' = Idle s" "recipe = None \<Longrightarrow> st' = Idle s"
proof -
  have ok: "mt_ok (green_book H) (active (takers s))" using assms(1) by (simp add: chron_ok_def)
  have s: "s = \<lparr> takers = takers s, makers = makers s \<rparr>" by simp
  have r: "tracks (green_book H) (takers s) (makers s) st' \<and> (recipe = None \<longrightarrow> st' = Idle \<lparr> takers = takers s, makers = makers s \<rparr>)"
    using green_royalty.attempt_loop_restores [OF ok assms(2) [unfolded attempt_recipe_def], of "makers s"] by simp
  then show "rollback (green_book H) Unstash st' = Idle s" using rollback_unstash [OF ok] s by metis
  show "recipe = None \<Longrightarrow> st' = Idle s" using r s by metis
qed

end
