(* ===== verification/Book_Correct.thy ===== *)
theory Book_Correct
  imports Book_Wellformed Pool_Exec_Correct
begin

text \<open>
  What the liquidity book promises over a whole run: well-formed states, attempts that end and lose no order, recipes whose failure
  restores the book, and fair trades between orders.  The sample book at the start, one order against one pool, serves as the concrete
  instance of each.
\<close>

section \<open>A sample book\<close>

definition sample_ask :: "u64 \<Rightarrow> green_order" where
  "sample_ask fee = (sample_order (Token (replicate 28 1, 1, replicate 32 0)))\<lparr>
     intention := \<lparr> input_asset = Native, output_asset = Token (replicate 28 1, 1, replicate 32 0), gi_leaving_amount = 5000000,
       gi_expected_arriving_amount = 40000, gi_fee_lovelace = fee, target_nonce_slot = 0, gi_target_nonce_value = 7,
       operator_key_hash = replicate 28 2 \<rparr>, current_remainder := 5000000 \<rparr>"

definition sample_book :: "u64 \<Rightarrow> (green_order, royalty_pool, token) idle_state" where
  "sample_book fee = \<lparr> takers = \<lparr> time_now = 0, active = \<lparr> asks = [sample_ask fee], bids = [] \<rparr>, inactive = [] \<rparr>,
     makers = \<lparr> mm_values = [(sample_token, sample_pool 0)], quality_index = [(1000, sample_token)] \<rparr> \<rparr>"

definition sample_curve :: "rat \<Rightarrow> u64 \<Rightarrow> u64 \<Rightarrow> absolute_price \<Rightarrow> int \<times> int" where
  "sample_curve fee reserves_in reserves_out price = (0, 0)"

definition sample_conf :: "u64 \<Rightarrow> ex_units execution_config" where
  "sample_conf budget = \<lparr> soft_cap = \<lparr> mem = 100, steps = 100 \<rparr>, hard_cap = \<lparr> mem = 100, steps = 100 \<rparr>, o2o_allowed = True, base_step_budget = budget \<rparr>"

lemma sample_ask_facts:
  "current_remainder (sample_ask fee) = 5000000" "accumulated_output (sample_ask fee) = 0" "t_side green_taker (sample_ask fee) = Ask"
  "gi_fee_lovelace (intention (sample_ask fee)) = fee" "go_price (sample_ask fee) = Ok (1 / 125)" "t_price (green_book H) (sample_ask fee) = 1 / 125"
proof -
  show s: "t_side green_taker (sample_ask fee) = Ask"
    by (simp add: green_taker_def sample_ask_def side_of_def order_canonical_eq min_def)
  show p: "go_price (sample_ask fee) = Ok (1 / 125)" unfolding go_price_def Let_def s by (simp add: sample_ask_def)
  then show "t_price (green_book H) (sample_ask fee) = 1 / 125" by (simp add: green_book_def)
qed (simp_all add: sample_ask_def sample_order_def)

lemma sample_book_run: "green_run H curve conf (Idle (sample_book fee))"
proof -
  let ?T = "green_book H" and ?M = "royalty_maker curve"
  have "apply_event ?T ?M (UpdateMaker (sample_pool 0)) (tlb_new 0) = Ok (Idle \<lparr> takers = chron_new 0,
      makers = \<lparr> mm_values = [(sample_token, sample_pool 0)], quality_index = [(1000, sample_token)] \<rparr> \<rparr>)" (is "_ = Ok ?st1")
    by (simp add: tlb_new_def idle_new_def idle_update_pool_def update_pool_def mm_new_def royalty_maker_def with_default_swap_def
        sample_pool_def quality_def)
  then have r1: "green_run H curve conf ?st1" using green_run.event [OF green_run.start] by blast
  have "deferred ?T 0 (sample_ask fee) = None" by (simp add: deferred_def green_taker_def)
  moreover have "mt_insert ?T (sample_ask fee) mt_new = \<lparr> asks = [sample_ask fee], bids = [] \<rparr>"
    by (simp add: mt_insert_def mt_new_def sample_ask_facts)
  ultimately have "apply_event ?T ?M (UpdateTaker (sample_ask fee)) ?st1 = Ok (Idle (sample_book fee))"
    by (simp add: idle_add_fragment_def chron_add_fragment_def chron_new_def sample_book_def)
  then show ?thesis using green_run.event [OF r1, of "UpdateTaker (sample_ask fee)"] sample_ask_facts(5) by auto
qed

abbreviation sample_maker :: "(royalty_pool, green_order, token, ex_units) maker" where
  "sample_maker \<equiv> royalty_maker sample_curve"

definition sample_take :: "u64 \<Rightarrow> green_order take_in_progress" where
  "sample_take fee = \<lparr> target = sample_ask fee, result = Term \<lparr> remaining_input = 0, tt_accumulated_output = 47391, remaining_budget = 0,
     remaining_fee = fee \<rparr> \<rparr>"

definition swapped_pool :: royalty_pool where
  "swapped_pool = swap (sample_pool 0) (OnAsk 5000000)"

definition sample_batch :: "(bytes \<Rightarrow> bytes) \<Rightarrow> u64 \<Rightarrow> (green_order, royalty_pool, token, token, ex_units) attempt" where
  "sample_batch H fee = \<lparr> takes = [(goi_stable_token H (go_id (sample_ask fee)), sample_take fee)], makes = [(sample_token, (sample_pool 0, swapped_pool))],
     ordering = [goi_stable_token H (go_id (sample_ask fee))], execution_units_consumed = \<lparr> mem = 1, steps = 2 \<rparr>, num_aggregated_makes = 0 \<rparr>"

definition sample_preview :: "u64 \<Rightarrow> (green_order, royalty_pool, token) tlb_state" where
  "sample_preview fee = Preview \<lparr> takers_intact = takers (sample_book fee), active_takers_preview = mt_new, pv_stashed = [],
     inactive_takers_changeset = [], pv_makers_intact = makers (sample_book fee),
     pv_makers_preview = \<lparr> mm_values = [(sample_token, swapped_pool)], quality_index = [(1000, sample_token)] \<rparr> \<rparr>"

lemma sample_maker_sel [simp]:
  "m_static_price (royalty_maker c) = static_price" "m_effective_price (royalty_maker c) = (\<lambda>p _. real_price p)" "m_quality (royalty_maker c) = quality"
  "m_cost (royalty_maker c) = rp_marginal_cost" "m_is_active (royalty_maker c) = is_active" "m_preserve (royalty_maker c) = (\<lambda>_ _ r. r)"
  "m_available (royalty_maker c) = available_liquidity c"
  "m_swap_with_taker (royalty_maker c) p t inp = default_swap_with_taker green_taker (royalty_maker c) t p inp"
  by (simp_all add: royalty_maker_def with_default_swap_def default_swap_with_taker_def mk_loss_def Let_def)

lemma sample_real_price: "real_price (sample_pool 0) (OnAsk 5000000) = Some (47391 / 5000000)"
  by (simp add: real_price_def sample_swap_output ap_new_def)

lemma sample_pool_active: "is_active (sample_pool 0)"
  by (simp add: is_active_def sample_pool_def)

lemma sample_optimized: "try_optimized_swap sample_maker t p d Ask (sample_pool 0) = Some None"
proof -
  have "total_fee (sample_pool 0) = Some (199 / 200)" by (simp add: total_fee_def sample_pool_def ratio_val_def Let_def)
  moreover have "base_asset_of (sample_pool 0) = asset_x (sample_pool 0)" unfolding sample_pool_base by (simp add: sample_pool_def)
  ultimately have "available_liquidity sample_curve (sample_pool 0) (OnAsk p) = None"
    by (simp add: available_liquidity_def sample_curve_def Let_def sample_pool_tradable try_u64_def checked_sub_def
        UNTOUCHABLE_LOVELACE_AMOUNT_def)
  then show ?thesis by (simp add: try_optimized_swap_def)
qed

lemma sample_preselect:
  assumes "pools st = makers (sample_book fee)"
  shows "preselect_market_maker sample_maker (1 / 125) 5000000 Ask optimized t st = Some (Some (sample_token, \<lparr> fp_price = 47391 / 5000000, fp_input = 5000000 \<rparr>))"
proof -
  have d: "dummy_swap sample_maker t 5000000 Ask (sample_pool 0) = Some (sample_token, \<lparr> fp_price = 47391 / 5000000, fp_input = 5000000 \<rparr>)"
    by (simp add: dummy_swap_def sample_real_price) (simp add: sample_pool_def)
  then have "preview_swap sample_maker (1 / 125) 5000000 Ask optimized t (sample_pool 0) =
      Some (Some (sample_token, \<lparr> fp_price = 47391 / 5000000, fp_input = 5000000 \<rparr>))"
    by (simp add: preview_swap_def sample_optimized)
  then show ?thesis using assms by (simp add: preselect_market_maker_def sample_book_def sample_pool_active)
qed

lemma sample_loss: "mk_loss sample_maker (sample_pool 0, swapped_pool) = Some (OnAsk 47391)"
  "mk_finalized sample_maker (sample_pool 0, swapped_pool) = Some ((sample_pool 0, swapped_pool), \<lparr> ex_base = 0, ex_quote = 0 \<rparr>)"
  "mk_is_zero sample_maker (sample_pool 0, swapped_pool) = False"
proof -
  have l: "liquidity_of (sample_pool 0) = \<lparr> base = 100000000, quote = 1000000 \<rparr>" "liquidity_of swapped_pool = \<lparr> base = 105000000, quote = 952609 \<rparr>"
    unfolding swapped_pool_def sample_swap by (simp_all add: liquidity_of_def sample_pool_base base_asset_of_def, simp_all add: sample_pool_def order_canonical_eq)
  show "mk_loss sample_maker (sample_pool 0, swapped_pool) = Some (OnAsk 47391)"
    by (simp add: mk_loss_def l checked_sub_def)
  show "mk_finalized sample_maker (sample_pool 0, swapped_pool) = Some ((sample_pool 0, swapped_pool), \<lparr> ex_base = 0, ex_quote = 0 \<rparr>)"
    by (simp add: mk_finalized_def l checked_sub_def Let_def flip: swapped_pool_def)
  show "mk_is_zero sample_maker (sample_pool 0, swapped_pool) = False"
    by (simp add: mk_is_zero_def mk_trade_side_def l)
qed

lemma sample_first_step:
  "match_step (green_book H) sample_maker o2o optimized (Idle (sample_book fee), empty_attempt, evs) =
     Some (Ok (True, sample_preview fee, sample_batch H fee, evs @ [SpotPrice (static_price (sample_pool 0))]))"
proof -
  let ?T = "green_book H" and ?p = "static_price (sample_pool 0)"
  let ?st1 = "PartialPreview \<lparr> takers_preview = (takers (sample_book fee))\<lparr> active := mt_new \<rparr>, consumed_active_takers = [sample_ask fee], pp_stashed = [],
      pp_makers_intact = makers (sample_book fee), pp_makers_preview = makers (sample_book fee) \<rparr>"
  have spot: "spot_price sample_maker (Idle (sample_book fee)) = Some ?p" by (simp add: spot_price_def best_market_maker_def sample_book_def)
  have pick: "pick_active_taker (max_by_distance_to_spot ?T ?p (allowed_price_range ?T (Idle (sample_book fee)))) (Idle (sample_book fee)) =
      (?st1, Some (sample_ask fee))"
    by (simp add: max_by_distance_to_spot_def choose_by_distance_def sample_book_def allowed_price_range_def test_ask_def
        mt_remove_def sample_ask_facts bs_remove_def mt_new_def move_into_partial_preview_def)
  have pm: "pick_maker_by_id sample_token ?st1 = (PartialPreview \<lparr> takers_preview = (takers (sample_book fee))\<lparr> active := mt_new \<rparr>,
      consumed_active_takers = [sample_ask fee], pp_stashed = [], pp_makers_intact = makers (sample_book fee),
      pp_makers_preview = \<lparr> mm_values = [], quality_index = [(1000, sample_token)] \<rparr> \<rparr>, Some (sample_pool 0))" (is "_ = (?st2, _)")
    by (simp add: pick_maker_by_id_def sample_book_def hm_remove_def)
  have ex: "execute_with_maker sample_maker (sample_ask fee) (sample_pool 0) (OnAsk 5000000) = (sample_take fee, (sample_pool 0, swapped_pool))"
    by (simp add: execute_with_maker_def default_swap_with_taker_def sample_loss flip: swapped_pool_def)
      (simp add: sample_take_def go_with_applied_trade_def go_try_terminate_def sample_ask_facts saturating_sub_def saturating_add_def)
  have q: "quality swapped_pool = 1000" "rp_id swapped_pool = sample_token" "quality (sample_pool 0) = 1000" "rp_id (sample_pool 0) = sample_token"
    "rp_marginal_cost (sample_pool 0) = \<lparr> mem = 1, steps = 2 \<rparr>"
    unfolding swapped_pool_def sample_swap by (simp_all add: quality_def sample_pool_def)
  have st: "on_make ?T sample_maker swapped_pool (on_take ?T (result (sample_take fee)) ?st2) = sample_preview fee"
    by (simp add: on_make_def on_take_def sample_take_def pre_add_maker_def partial_into_preview_def update_pool_def q sample_preview_def Let_def
        mt_insert_all_def mt_insert_def sample_ask_facts mt_new_def) (simp add: sample_book_def)
  have b: "add_take ?T (sample_take fee) (add_make sample_maker (sample_pool 0, swapped_pool) empty_attempt) = sample_batch H fee"
    by (simp add: add_take_def add_make_def empty_attempt_def sample_batch_def sample_take_def q ex_units_ops ex_add_def Let_def)
  have "match_target ?T sample_maker o2o optimized ?p (sample_ask fee) (?st1, empty_attempt, evs @ [SpotPrice ?p]) =
      Some (Ok (True, sample_preview fee, sample_batch H fee, evs @ [SpotPrice ?p]))"
    using sample_preselect [of ?st1 fee optimized "sample_ask fee"]
    by (simp add: match_target_def sample_ask_facts best_taker_price_def mt_new_def prefer_counter_taker_def pm [unfolded mt_new_def, simplified] match_maker_def ex
        st [unfolded mt_new_def, simplified] b)
  then show ?thesis using spot pick by (simp add: match_step_def)
qed

lemma sample_second_step:
  "match_step (green_book H) sample_maker o2o optimized (sample_preview fee, batch, evs) =
     Some (Ok (False, sample_preview fee, batch, evs @ [SpotPrice (static_price swapped_pool)]))"
  by (simp add: match_step_def spot_price_def best_market_maker_def sample_preview_def max_by_distance_to_spot_def choose_by_distance_def mt_new_def)

lemma sample_open: "attempt_open (sample_conf b) empty_attempt" "attempt_open (sample_conf b) (sample_batch H fee)"
  by (simp_all add: attempt_open_def empty_attempt_def sample_batch_def sample_conf_def less_ex_units_ext_def zero_ex_units_ext_def)

lemma sample_pass:
  "match_loop (green_book H) sample_maker (sample_conf b) optimized (Idle (sample_book fee), empty_attempt, evs) =
     Some (Ok (sample_preview fee, sample_batch H fee, evs @ [SpotPrice (static_price (sample_pool 0)), SpotPrice (static_price swapped_pool)]))"
  by (subst match_loop.simps, simp add: sample_open sample_first_step, subst match_loop.simps, simp add: sample_open sample_second_step)

lemma sample_complexity:
  "check_recipe_complexity (green_book H) b \<lparr> fr_takes = [(i, tk)], fr_makes = [m], fr_ordering = ids \<rparr> \<longleftrightarrow>
     unat (max b 1) \<le> 2 * unat (gi_fee_lovelace (intention (target tk)))"
proof -
  have pos: "0 < unat (max b 1)" by (cases "b = 0") (simp_all add: max_def unat_gt_0)
  have "(1 / 2 \<le> (of_nat f / of_nat n :: rat)) \<longleftrightarrow> n \<le> 2 * f" if "0 < n" for f n :: nat
    using that by (simp add: le_divide_eq) (metis of_nat_le_iff of_nat_mult of_nat_numeral mult.commute)
  from this [OF pos, of "unat (gi_fee_lovelace (intention (target tk)))"] show ?thesis
    unfolding check_recipe_complexity_def Let_def BASE_TAKE_TO_MAKE_RATIO_def by (simp del: of_nat_unat)
qed

lemma sample_finalized:
  "finalized green_taker (sample_take fee) 0 = Ok \<lparr> target = sample_ask fee, result = Term \<lparr> remaining_input = 0, tt_accumulated_output = 47391,
     remaining_budget = remaining_budget (snd (tt_with_budget_corrected \<lparr> remaining_input = 0, tt_accumulated_output = 47391,
       remaining_budget = 0, remaining_fee = 0 \<rparr> (wrap_i64 (- sint fee)))), remaining_fee = fee - go_operator_fee (sample_ask fee) 5000000 \<rparr> \<rparr>"
  by (simp add: finalized_def tip_removed_input_def sample_take_def checked_sub_def sample_ask_facts tt_with_fee_charged_def
      tt_with_output_added_def tt_with_budget_corrected_def Let_def)

lemma sample_try_from:
  "2 * unat fee < unat (max b 1) \<Longrightarrow> try_from (green_book H) sample_maker b (sample_batch H fee) = Err DowngradeNeeded"
  "unat (max b 1) \<le> 2 * unat fee \<Longrightarrow> \<exists>tk. finalized green_taker (sample_take fee) 0 = Ok tk \<and>
    try_from (green_book H) sample_maker b (sample_batch H fee) = Ok [Inl tk, Inr (sample_pool 0, swapped_pool)]"
proof -
  obtain tk where tk: "finalized green_taker (sample_take fee) 0 = Ok tk" "target tk = sample_ask fee"
      "tip_added_output green_taker tk = Ok 47391"
    unfolding sample_finalized by (simp add: tip_added_output_def checked_sub_def sample_ask_facts)
  let ?i = "goi_stable_token H (go_id (sample_ask fee))"
  let ?r = "\<lparr> fr_takes = [(?i, tk)], fr_makes = [(sample_token, (sample_pool 0, swapped_pool))], fr_ordering = [?i] \<rparr>"
  have fin: "attempt_finalized (green_book H) sample_maker (sample_batch H fee) = Ok (Some ?r)"
    by (simp add: attempt_finalized_def sample_batch_def sample_loss tk sample_take_def [THEN arg_cong, of target] sample_ask_facts)
  have un: "unsatisfied_fragments (green_book H) (fr_takes ?r) = Ok []"
    using tk(3) by (simp add: green_taker_def [THEN arg_cong, of t_min_marginal_output])
  have so: "sort_takes (green_book H) [?i] [tk] = Ok [tk]"
    by (simp add: sort_takes_def positions_def tk(2))
  have cx: "check_recipe_complexity (green_book H) b ?r \<longleftrightarrow> unat (max b 1) \<le> 2 * unat fee"
    by (simp add: sample_complexity tk(2) sample_ask_facts)
  have "try_from (green_book H) sample_maker b (sample_batch H fee) =
      (if unat (max b 1) \<le> 2 * unat fee then Ok [Inl tk, Inr (sample_pool 0, swapped_pool)] else Err DowngradeNeeded)"
    using fin un so cx by (simp add: try_from_def is_complete_def sample_loss sample_ask_facts sample_batch_def)
  then show "2 * unat fee < unat (max b 1) \<Longrightarrow> try_from (green_book H) sample_maker b (sample_batch H fee) = Err DowngradeNeeded"
    "unat (max b 1) \<le> 2 * unat fee \<Longrightarrow> \<exists>tk. finalized green_taker (sample_take fee) 0 = Ok tk \<and>
      try_from (green_book H) sample_maker b (sample_batch H fee) = Ok [Inl tk, Inr (sample_pool 0, swapped_pool)]"
    using tk(1) by auto
qed

lemma sample_attempt:
  "2 * unat fee \<ge> unat (max b 1) \<Longrightarrow> \<exists>tk evs. finalized green_taker (sample_take fee) 0 = Ok tk \<and>
     attempt_recipe (green_book H) sample_maker (sample_conf b) (Idle (sample_book fee)) =
       Some (Ok (sample_preview fee, Some [Inl tk, Inr (sample_pool 0, swapped_pool)], evs))"
  using sample_try_from(2) [of b fee H]
  by (subst attempt_recipe_def, subst attempt_loop.simps) (auto simp: sample_pass sample_conf_def [THEN arg_cong, of base_step_budget])

section \<open>The book in every run\<close>

text \<open>A reachable book that is not settled is the one recipe found on the last settled book.\<close>

lemma unsettled_origin:
  assumes "green_run H curve conf st" "\<not> settled st"
  shows "\<exists>s recipe evs. green_run H curve conf (Idle s) \<and>
    attempt_recipe (green_book H) (royalty_maker curve) conf (Idle s) = Some (Ok (st, Some recipe, evs)) \<and>
    on_recipe_failed (green_book H) st = Idle s"
  using assms
proof (cases rule: green_run.cases)
  case (event st0 e)
  then have "settled st0" using unsettled_event [of st0 "green_book H" "royalty_maker curve" e] by auto
  then have "settled st" using settled_event [of st0 "green_book H" "royalty_maker curve" e] event(3) by auto
  then show ?thesis using assms(2) by simp
next
  case (attempted st0 recipe evs)
  then obtain s where s: "st0 = Idle s" by (cases st0) auto
  note a = settled_attempt [OF run_book_ok [OF attempted(1) [unfolded s]] attempted(3) [unfolded s]]
  obtain r where "recipe = Some r" using a(2) assms(2) by (cases recipe) auto
  then show ?thesis using a(1) attempted(1,3) s by (auto simp: on_recipe_failed_def)
qed (simp_all add: tlb_new_def settled_feedback settled_failed)

text \<open>
  C14. Every reachable book is well formed: its orders are on their own side, strictly ordered and so without duplicates,
  its pools are stored under their identifiers, and the same holds of the state a preview would return to.  A settled book accepts every event
  and stays settled.  A book that is not settled is waiting for the outcome of one recipe, found by an attempt on a reachable settled book; every
  external event panics on it, and both outcomes settle it, the failure by returning to exactly that book.
\<close>

theorem reachable_book_wellformed:
  assumes "green_run H curve conf st"
  shows "book_ok (green_book H) (royalty_maker curve) st \<and>
    settled (on_recipe_succeeded (green_book H) st) \<and> settled (on_recipe_failed (green_book H) st) \<and>
    (if settled st then \<exists>st'. apply_event (green_book H) (royalty_maker curve) e st = Ok st' \<and> settled st'
     else apply_event (green_book H) (royalty_maker curve) e st = Panic \<and>
       (\<exists>s recipe evs. green_run H curve conf (Idle s) \<and>
          attempt_recipe (green_book H) (royalty_maker curve) conf (Idle s) = Some (Ok (st, Some recipe, evs)) \<and>
          on_recipe_failed (green_book H) st = Idle s))"
  using run_book_ok [OF assms] unsettled_origin [OF assms] by (simp add: settled_event unsettled_event settled_feedback settled_failed)

lemma sample_preview_run: "green_run (\<lambda>_. []) sample_curve (sample_conf 50) (sample_preview 30)"
proof -
  obtain recipe evs where a: "attempt_recipe (green_book (\<lambda>_. [])) (royalty_maker sample_curve) (sample_conf 50) (Idle (sample_book 30)) =
      Some (Ok (sample_preview 30, Some recipe, evs))"
    using sample_attempt [of 50 30 "\<lambda>_. []"] by (auto simp: max_def word_le_nat_alt)
  show ?thesis by (rule green_run.attempted [OF sample_book_run _ a]) simp
qed

theorem reachable_book_wellformed_witness:
  "book_ok (green_book (\<lambda>_. [])) (royalty_maker sample_curve) (sample_preview 30) \<and>
   apply_event (green_book (\<lambda>_. [])) (royalty_maker sample_curve) (AdvanceClocks 5) (sample_preview 30) = Panic \<and>
   settled (on_recipe_failed (green_book (\<lambda>_. [])) (sample_preview 30))"
  using reachable_book_wellformed [OF sample_preview_run, of "AdvanceClocks 5"] by (simp add: sample_preview_def)

text \<open>
  C12. An attempt never loses the book.  If an attempt on a settled book finds no recipe, the book is exactly as it was before; if it finds one,
  the book is in preview, and reporting the failure of the recipe returns exactly the book before the attempt.
\<close>

theorem failed_recipe_restores_book:
  assumes "green_run H curve conf (Idle s)"
    and "attempt_recipe (green_book H) (royalty_maker curve) conf (Idle s) = Some (Ok (st, recipe, evs))"
  shows "on_recipe_failed (green_book H) st = Idle s \<and> (case recipe of None \<Rightarrow> st = Idle s | Some _ \<Rightarrow> \<not> settled st)"
  using settled_attempt [OF run_book_ok [OF assms(1)] assms(2)] assms(2)
  by (cases recipe) (auto simp: on_recipe_failed_def attempt_recipe_def dest: found_unsettled)

theorem failed_recipe_restores_book_witness:
  "\<exists>recipe evs. attempt_recipe (green_book (\<lambda>_. [])) (royalty_maker sample_curve) (sample_conf 50) (Idle (sample_book 30)) = Some (Ok (sample_preview 30, Some recipe, evs)) \<and>
     on_recipe_failed (green_book (\<lambda>_. [])) (sample_preview 30) = Idle (sample_book 30)"
proof -
  obtain recipe evs where a: "attempt_recipe (green_book (\<lambda>_. [])) (royalty_maker sample_curve) (sample_conf 50) (Idle (sample_book 30)) =
      Some (Ok (sample_preview 30, Some recipe, evs))"
    using sample_attempt [of 50 30 "\<lambda>_. []"] by (auto simp: max_def word_le_nat_alt)
  from failed_recipe_restores_book [OF sample_book_run a] a show ?thesis by auto
qed

text \<open>
  C13. An attempt ends.  On a reachable settled book whose orders have distinct identifiers, an input below the largest 64-bit number, and fees
  that each cover half of the base step budget and together fit in 64 bits, matchmaking returns (a recipe, no recipe, or a panic): neither the
  search for an input, nor the rounds of a pass, nor the repetition of passes runs for ever.
\<close>

theorem attempt_returns:
  fixes s :: "(green_order, royalty_pool, token) idle_state"
  defines "A \<equiv> mt_set (active (takers s))"
  assumes "green_run H curve conf (Idle s)"
    and "inj_on (\<lambda>ord. goi_stable_token H (go_id ord)) A"
    and "\<forall>ord \<in> A. current_remainder ord < - 1 \<and> unat (max (base_step_budget conf) 1) \<le> 2 * unat (gi_fee_lovelace (intention ord))"
    and "(\<Sum>ord \<in> A. unat (gi_fee_lovelace (intention ord))) < 2 ^ 64"
  shows "\<exists>r. attempt_recipe (green_book H) (royalty_maker curve) conf (Idle s) = Some r"
proof -
  have ok: "mt_ok (green_book H) (active (takers s))" using run_book_ok [OF assms(2)] by (simp add: chron_ok_def)
  have "attempt_loop (green_book H) (royalty_maker curve) conf True (Idle s) \<noteq> None"
    by (rule green_royalty.attempt_loop_total [where mm = "makers s", OF ok])
      (use assms in \<open>auto simp: A_def budgets_ok_def inj_on_def\<close>)
  then show ?thesis by (auto simp: attempt_recipe_def)
qed

theorem attempt_returns_witness:
  "\<exists>r. attempt_recipe (green_book (\<lambda>_. [])) (royalty_maker sample_curve) (sample_conf 50) (Idle (sample_book 30)) = Some r"
  by (rule attempt_returns [OF sample_book_run])
    (simp_all add: sample_book_def mt_set_def sample_ask_facts sample_conf_def max_def word_le_nat_alt)

lemma rejected_pass_restores:
  assumes run: "green_run H curve conf (Idle s)"
    and m: "match_loop (green_book H) (royalty_maker curve) conf optimized (Idle s, empty_attempt, evs) = Some (Ok (st', batch, evs'))"
  shows "rollback (green_book H) (Stash []) st' = Idle s"
proof (cases "st' = Idle s")
  case False
  let ?T = "green_book H"
  have s: "\<lparr> takers = takers s, makers = makers s \<rparr> = s" by simp
  have ok: "mt_ok ?T (active (takers s))" using run_book_ok [OF run] by (simp add: chron_ok_def)
  have k: "keeps_book ?T (takers s) (makers s) (Idle s) st'"
    using green_royalty.attempt_pass(1) [OF ok _ _ m] by simp
  then have tr: "tracks ?T (takers s) (makers s) st'" and st: "stashed st' = []" by (simp_all add: keeps_book_def)
  have "rollback ?T (Stash []) st' = resume ((takers s)\<lparr> active := restored ?T st' \<rparr>) [] (makers s)"
    using tracks_restored(3) [OF ok tr, of "Stash []", unfolded s] False st by (simp add: apply_stashing_def mt_remove_all_def)
  moreover have "mt_set (restored ?T st') \<union> set [] = mt_set (active (takers s))" using tracks_restored(2) [OF ok tr] st by simp
  ultimately show ?thesis using tracks_resume(2) [OF ok tracks_restored(1) [OF ok tr], of "[]" "makers s", unfolded s] by simp
qed simp

text \<open>
  C16. An attempt need not end.  If on a reachable settled book the pass with and the pass without optimisation are both refused for
  their complexity, matchmaking never returns: the outer loop repeats the second pass on the same book for ever.
\<close>

theorem low_budget_attempt_diverges:
  assumes "green_run H curve conf (Idle s)"
    and "\<forall>optimized. \<exists>st batch evs.
      match_loop (green_book H) (royalty_maker curve) conf optimized
        (Idle s, empty_attempt, [LiquidityBookSizePreAttempt (book_size_of (Idle s))]) = Some (Ok (st, batch, evs)) \<and>
      try_from (green_book H) (royalty_maker curve) (base_step_budget conf) batch = Err DowngradeNeeded"
  shows "attempt_recipe (green_book H) (royalty_maker curve) conf (Idle s) = None"
proof -
  let ?T = "green_book H" and ?M = "royalty_maker curve"
  have ok: "mt_ok ?T (active (takers s))" using run_book_ok [OF assms(1)] by (simp add: chron_ok_def)
  obtain st batch evs where p: "match_loop ?T ?M conf True (Idle s, empty_attempt, [LiquidityBookSizePreAttempt (book_size_of (Idle s))]) =
      Some (Ok (st, batch, evs))" "try_from ?T ?M (base_step_budget conf) batch = Err DowngradeNeeded" using assms(2) by blast
  obtain st2 batch2 evs2 where p2: "match_loop ?T ?M conf False (Idle s, empty_attempt, [LiquidityBookSizePreAttempt (book_size_of (Idle s))]) =
      Some (Ok (st2, batch2, evs2))" "try_from ?T ?M (base_step_budget conf) batch2 = Err DowngradeNeeded" using assms(2) by blast
  have "attempt_loop ?T ?M conf False (Idle s) = None"
    by (rule rejected_pass_repeats [OF ok p2 rejected_pass_restores [OF assms(1) p2(1)]])
  then have "attempt_loop ?T ?M conf True (Idle s) = None"
    using rejected_pass_restores [OF assms(1) p(1)] p by (subst attempt_loop.simps) simp
  then show ?thesis by (simp add: attempt_recipe_def)
qed

theorem low_budget_attempt_diverges_witness:
  "go_price (sample_ask 20) = Ok (1 / 125) \<and>
   attempt_recipe (green_book (\<lambda>_. [])) (royalty_maker sample_curve) (sample_conf 50) (Idle (sample_book 20)) = None"
proof -
  have "attempt_recipe (green_book (\<lambda>_. [])) (royalty_maker sample_curve) (sample_conf 50) (Idle (sample_book 20)) = None"
    by (rule low_budget_attempt_diverges [OF sample_book_run])
      (simp add: sample_pass sample_try_from sample_conf_def [THEN arg_cong, of base_step_budget] max_def word_le_nat_alt)
  then show ?thesis by (simp add: sample_ask_facts)
qed

section \<open>Trades between two orders\<close>

declare of_nat_unat [simp del]

lemma clamp_between: "lo \<le> hi \<Longrightarrow> lo \<le> clamp v lo hi \<and> clamp v lo hi \<le> (hi :: 'a::linorder)"
  by (auto simp: clamp_def)

lemma settle_price_between:
  assumes "t_price T ask \<le> t_price T bid"
  shows "t_price T ask \<le> settle_price T ask bid ip \<and> settle_price T ask bid ip \<le> t_price T bid"
  unfolding settle_price_def Let_def by (rule clamp_between [OF assms])

lemma taker_trade_total:
  assumes "linear_output_unsafe quote_input (OnBid price) = Ok demand" "0 < price"
  shows "\<exists>q b. (if supply > demand then Ok (quote_input, demand)
          else if supply < demand then and_then (linear_output_unsafe supply (OnAsk price)) (\<lambda>qe. Ok (qe, supply))
          else Ok (quote_input, demand)) = Ok (q, b) \<and>
    of_nat (unat b) * price < of_nat (unat q) + 1 \<and> of_nat (unat q) < (of_nat (unat b) + 1) * price"
proof -
  let ?Q = "of_nat (unat quote_input) :: rat" and ?D = "of_nat (unat demand) :: rat" and ?S = "of_nat (unat supply) :: rat"
  have fl: "floor_u64 (?Q / price) = Ok demand" using assms by simp
  have d: "?D \<le> ?Q / price" "?Q / price < ?D + 1" using floor_u64_le [OF fl] assms(2) by simp_all
  then have dp: "?D * price \<le> ?Q" "?Q < (?D + 1) * price" using assms(2) by (simp_all add: field_simps)
  show ?thesis
  proof (cases "supply < demand")
    case True
    have "?S * price \<le> ?D * price" using True assms(2) by (intro mult_right_mono) (simp_all add: word_less_nat_alt)
    then have le: "?S * price \<le> ?Q" using dp(1) by simp
    then have "\<lfloor>?S * price\<rfloor> \<le> int (unat quote_input)" by (simp add: floor_le_iff)
    then have "\<lfloor>?S * price\<rfloor> < 18446744073709551616" using u64_lt [of quote_input] by linarith
    then obtain q where q: "floor_u64 (?S * price) = Ok q" by (simp add: floor_u64_def)
    have "of_nat (unat q) \<le> ?S * price \<and> ?S * price < of_nat (unat q) + 1" using floor_u64_le [OF q] assms(2) by simp
    moreover have "?S * price < (?S + 1) * price" using assms(2) by (simp add: field_simps)
    ultimately show ?thesis using True q by auto
  next
    case False
    then show ?thesis using dp by (auto simp: not_less)
  qed
qed

text \<open>
  C15. A trade between two orders is fair, whichever of the two is the target.  For an ask priced at most as a bid the settled price lies between the
  two limits; the trade panics exactly when that price is zero or buys \<open>2^64\<close> or more of the base asset; otherwise the ask gives the base amount
  the bid receives and the bid gives the quote amount the ask receives, neither gives more than it has, one of them gives all, and each is served within
  its own limit up to one unit.
\<close>

theorem order_trade_fair:
  assumes "k_side T ask = Ask" "k_side T bid = Bid" "(tgt, counter) = (ask, bid) \<or> (tgt, counter) = (bid, ask)" "0 \<le> t_price T ask" "t_price T ask \<le> t_price T bid"
  shows "let p = settle_price T ask bid ip in t_price T ask \<le> p \<and> p \<le> t_price T bid \<and>
    (case execute_with_taker T tgt counter (\<lambda>a b. settle_price T a b ip) of
       Err _ \<Rightarrow> False
     | Panic \<Rightarrow> p = 0 \<or> 2 ^ 64 \<le> of_nat (unat (t_input (ops T) bid)) / p
     | Ok (ta, tb) \<Rightarrow> 0 < p \<and> of_nat (unat (t_input (ops T) bid)) / p < 2 ^ 64 \<and> (\<exists>q b.
         ta = \<lparr> target = ask, result = t_with_applied_trade (ops T) ask b q \<rparr> \<and>
         tb = \<lparr> target = bid, result = t_with_applied_trade (ops T) bid q b \<rparr> \<and>
         b \<le> t_input (ops T) ask \<and> q \<le> t_input (ops T) bid \<and> (b = t_input (ops T) ask \<or> q = t_input (ops T) bid) \<and>
         of_nat (unat b) * t_price T ask < of_nat (unat q) + 1 \<and> of_nat (unat q) < (of_nat (unat b) + 1) * t_price T bid))"
proof -
  let ?p = "settle_price T ask bid ip" and ?f = "\<lambda>a b. settle_price T a b ip" and ?Q = "of_nat (unat (t_input (ops T) bid)) :: rat"
  have bt: "t_price T ask \<le> ?p" "?p \<le> t_price T bid" using settle_price_between [OF assms(5), of ip] by simp_all
  then have nn: "0 \<le> ?p" using assms(4) by linarith
  define ex where "ex = (\<lambda>demand :: u64. if t_input (ops T) ask > demand then Ok (t_input (ops T) bid, demand)
          else if t_input (ops T) ask < demand then
            and_then (linear_output_unsafe (t_input (ops T) ask) (OnAsk ?p)) (\<lambda>qe. Ok (qe, t_input (ops T) ask))
          else Ok (t_input (ops T) bid, demand))"
  have e: "execute_with_taker T tgt counter ?f = and_then (linear_output_unsafe (t_input (ops T) bid) (OnBid ?p)) (\<lambda>demand.
      and_then (ex demand) (\<lambda>(q, b). Ok (\<lparr> target = ask, result = t_with_applied_trade (ops T) ask b q \<rparr>,
        \<lparr> target = bid, result = t_with_applied_trade (ops T) bid q b \<rparr>)))"
    using assms(1-3) by (auto simp: execute_with_taker_def ex_def Let_def)
  show ?thesis
  proof (cases "linear_output_unsafe (t_input (ops T) bid) (OnBid ?p)")
    case (Ok demand)
    then have pos: "0 < ?p" and fit: "?Q / ?p < 2 ^ 64" using nn by (auto simp: floor_u64_def floor_less_iff split: if_splits)
    obtain q b where x: "ex demand = Ok (q, b)" and fair: "of_nat (unat b) * ?p < of_nat (unat q) + 1" "of_nat (unat q) < (of_nat (unat b) + 1) * ?p"
      using taker_trade_total [OF Ok pos, of "t_input (ops T) ask"] by (auto simp: ex_def)
    note t = taker_trade [OF Ok nn x [unfolded ex_def]]
    have "of_nat (unat b) * t_price T ask \<le> of_nat (unat b) * ?p" using bt(1) by (intro mult_left_mono) simp_all
    then have lim: "of_nat (unat b) * t_price T ask < of_nat (unat q) + 1" using fair(1) by linarith
    have "(of_nat (unat b) + 1) * ?p \<le> (of_nat (unat b) + 1) * t_price T bid" using bt(2) by (intro mult_left_mono) simp_all
    then have "of_nat (unat q) < (of_nat (unat b) + 1) * t_price T bid" using fair(2) by linarith
    with lim t have "b \<le> t_input (ops T) ask \<and> q \<le> t_input (ops T) bid \<and> (b = t_input (ops T) ask \<or> q = t_input (ops T) bid) \<and>
      of_nat (unat b) * t_price T ask < of_nat (unat q) + 1 \<and> of_nat (unat q) < (of_nat (unat b) + 1) * t_price T bid" by blast
    moreover have "execute_with_taker T tgt counter ?f = Ok (\<lparr> target = ask, result = t_with_applied_trade (ops T) ask b q \<rparr>,
        \<lparr> target = bid, result = t_with_applied_trade (ops T) bid q b \<rparr>)" using e Ok x by simp
    ultimately show ?thesis using bt pos fit by (simp add: Let_def) blast
  next
    case Panic
    then have "?p = 0 \<or> 2 ^ 64 \<le> ?Q / ?p"
      by (auto simp: floor_u64_def le_floor_iff split: if_splits)
    then show ?thesis using e Panic bt by simp
  qed (simp add: floor_u64_def split: if_splits)
qed

declare of_nat_unat [simp]

definition sample_bid :: green_order where
  "sample_bid = (sample_order Native)\<lparr>
     intention := \<lparr> input_asset = Token (replicate 28 1, 1, replicate 32 0), output_asset = Native, gi_leaving_amount = 40000,
       gi_expected_arriving_amount = 4000000, gi_fee_lovelace = 30, target_nonce_slot = 1, gi_target_nonce_value = 7,
       operator_key_hash = replicate 28 2 \<rparr>, current_remainder := 40000 \<rparr>"

lemma sample_bid_facts:
  "current_remainder sample_bid = 40000" "t_side green_taker sample_bid = Bid" "t_price (green_book H) sample_bid = 1 / 100"
proof -
  show s: "t_side green_taker sample_bid = Bid"
    by (simp add: green_taker_def sample_bid_def side_of_def order_canonical_eq min_def)
  have "go_price sample_bid = Ok (1 / 100)" unfolding go_price_def Let_def s by (simp add: sample_bid_def)
  then show "t_price (green_book H) sample_bid = 1 / 100" by (simp add: green_book_def)
qed (simp add: sample_bid_def)

theorem order_trade_fair_witness:
  "(case execute_with_taker (green_book (\<lambda>_. [])) (sample_ask 30) sample_bid (\<lambda>a b. settle_price (green_book (\<lambda>_. [])) a b (Some (1 / 110))) of
     Ok (ta, tb) \<Rightarrow> \<exists>q b. ta = \<lparr> target = sample_ask 30, result = t_with_applied_trade green_taker (sample_ask 30) b q \<rparr> \<and>
       tb = \<lparr> target = sample_bid, result = t_with_applied_trade green_taker sample_bid q b \<rparr> \<and> (b = 5000000 \<or> q = 40000)
   | _ \<Rightarrow> False) \<and>
   (case execute_with_taker (green_book (\<lambda>_. [])) sample_bid (sample_ask 30) (\<lambda>a b. settle_price (green_book (\<lambda>_. [])) a b (Some (1 / 110))) of
     Ok (ta, tb) \<Rightarrow> \<exists>q b. ta = \<lparr> target = sample_ask 30, result = t_with_applied_trade green_taker (sample_ask 30) b q \<rparr> \<and>
       tb = \<lparr> target = sample_bid, result = t_with_applied_trade green_taker sample_bid q b \<rparr> \<and> (b = 5000000 \<or> q = 40000)
   | _ \<Rightarrow> False)"
proof -
  have w: "(case execute_with_taker (green_book (\<lambda>_. [])) tgt counter (\<lambda>a b. settle_price (green_book (\<lambda>_. [])) a b (Some (1 / 110))) of
     Ok (ta, tb) \<Rightarrow> \<exists>q b. ta = \<lparr> target = sample_ask 30, result = t_with_applied_trade green_taker (sample_ask 30) b q \<rparr> \<and>
       tb = \<lparr> target = sample_bid, result = t_with_applied_trade green_taker sample_bid q b \<rparr> \<and> (b = 5000000 \<or> q = 40000)
   | _ \<Rightarrow> False)"
    if tc: "(tgt, counter) = (sample_ask 30, sample_bid) \<or> (tgt, counter) = (sample_bid, sample_ask 30)" for tgt counter
  proof -
    let ?T = "green_book (\<lambda>_. [])"
    have q: "t_input (ops ?T) sample_bid = 40000" "t_input (ops ?T) (sample_ask 30) = 5000000" "ops ?T = green_taker"
      by (simp_all add: green_book_def green_taker_def sample_bid_facts sample_ask_facts)
    note f = order_trade_fair [of ?T "sample_ask 30" sample_bid tgt counter "Some (1 / 110)", OF _ _ tc]
    have "k_side ?T (sample_ask 30) = Ask" "k_side ?T sample_bid = Bid" "0 \<le> t_price ?T (sample_ask 30)" "t_price ?T (sample_ask 30) \<le> t_price ?T sample_bid"
      by (simp_all add: sample_ask_facts sample_bid_facts)
    note g = f [OF this, unfolded Let_def]
    then have p: "1 / 125 \<le> settle_price ?T (sample_ask 30) sample_bid (Some (1 / 110))" by (simp add: sample_ask_facts)
    then have "40000 / settle_price ?T (sample_ask 30) sample_bid (Some (1 / 110)) \<le> 40000 / (1 / 125)" by (intro divide_left_mono) auto
    then have "\<not> 2 ^ 64 \<le> 40000 / settle_price ?T (sample_ask 30) sample_bid (Some (1 / 110))" by simp
    then show ?thesis using g p
      by (cases "execute_with_taker ?T tgt counter (\<lambda>a b. settle_price ?T a b (Some (1 / 110)))")
        (auto simp: sample_ask_facts sample_bid_facts)
  qed
  show ?thesis by (intro conjI w) simp_all
qed

end
