(* ===== verification/State_Index.thy ===== *)
theory State_Index
  imports Entity_Events Royalty_Pool
begin

text \<open>
  The index of on-chain states (\<open>bloom-offchain/src/execution_engine/storage/mod.rs\<close>) and the resolution of the
  latest state of an entity (\<open>resolver.rs\<close>), generic in the entity as in the code: \<open>entity_ops\<close> holds what
  \<open>Stable\<close>, \<open>EntitySnapshot\<close> and the conversion of an identifier into 60 bytes provide.

  An entity is stored once under its version; the index maps a modality and an identifier to a version.  The
  modalities are the prefix bytes of the code.  The wrapper \<open>StateIndexWithTracing\<close> only logs.
\<close>

section \<open>The index\<close>

record ('e, 'i, 'v) entity_ops =
  e_id :: "'e \<Rightarrow> 'i"
  e_version :: "'e \<Rightarrow> 'v"
  e_quasi_permanent :: "'e \<Rightarrow> bool"
  id_bytes :: "'i \<Rightarrow> bytes"

record ('e, 'v) state_index =
  si_store :: "('v, 'e) hash_map"
  si_index :: "(bytes, 'v) hash_map"

definition si_new :: "('e, 'v) state_index" where
  "si_new = \<lparr> si_store = [], si_index = [] \<rparr>"

definition LAST_CONFIRMED_PREFIX :: u8 where "LAST_CONFIRMED_PREFIX = 3"
definition LAST_UNCONFIRMED_PREFIX :: u8 where "LAST_UNCONFIRMED_PREFIX = 4"
definition LAST_PREDICTED_PREFIX :: u8 where "LAST_PREDICTED_PREFIX = 5"
definition FALLBACK_PREFIX :: u8 where "FALLBACK_PREFIX = 6"

definition ALL_STATE_KEYS :: "u8 list" where
  "ALL_STATE_KEYS = [LAST_CONFIRMED_PREFIX, LAST_UNCONFIRMED_PREFIX, LAST_PREDICTED_PREFIX, FALLBACK_PREFIX]"

definition EPHEMERAL_STATE_KEYS :: "u8 list" where
  "EPHEMERAL_STATE_KEYS = [LAST_UNCONFIRMED_PREFIX, LAST_PREDICTED_PREFIX, FALLBACK_PREFIX]"

lemmas state_keys = LAST_CONFIRMED_PREFIX_def LAST_UNCONFIRMED_PREFIX_def LAST_PREDICTED_PREFIX_def FALLBACK_PREFIX_def
  ALL_STATE_KEYS_def EPHEMERAL_STATE_KEYS_def

definition index_key :: "u8 \<Rightarrow> bytes \<Rightarrow> bytes" where
  "index_key prefix raw_id = prefix # raw_id"

definition si_put :: "('e, 'i, 'v) entity_ops \<Rightarrow> u8 \<Rightarrow> 'i \<Rightarrow> 'e \<Rightarrow> ('e, 'v) state_index \<Rightarrow> ('e, 'v) state_index" where
  "si_put E prefix sid val ix =
    (let bound_versions = List.map_filter (\<lambda>p. if p \<noteq> prefix then map_of (si_index ix) (index_key p (id_bytes E sid)) else None) ALL_STATE_KEYS;
         key = index_key prefix (id_bytes E sid);
         kept = (case map_of (si_index ix) key of
                   Some old_ver \<Rightarrow> if old_ver \<in> set bound_versions then si_store ix else hm_remove old_ver (si_store ix)
                 | None \<Rightarrow> si_store ix);
         new_ver = e_version E val
     in \<lparr> si_store = hm_insert new_ver val kept, si_index = hm_insert key new_ver (si_index ix) \<rparr>)"

definition si_get :: "('e, 'i, 'v) entity_ops \<Rightarrow> u8 \<Rightarrow> ('e, 'v) state_index \<Rightarrow> 'i \<Rightarrow> 'e option" where
  "si_get E prefix ix sid = Option.bind (map_of (si_index ix) (index_key prefix (id_bytes E sid))) (map_of (si_store ix))"

definition get_last_confirmed :: "('e, 'i, 'v) entity_ops \<Rightarrow> ('e, 'v) state_index \<Rightarrow> 'i \<Rightarrow> 'e option" where
  "get_last_confirmed E = si_get E LAST_CONFIRMED_PREFIX"

definition get_last_unconfirmed :: "('e, 'i, 'v) entity_ops \<Rightarrow> ('e, 'v) state_index \<Rightarrow> 'i \<Rightarrow> 'e option" where
  "get_last_unconfirmed E = si_get E LAST_UNCONFIRMED_PREFIX"

definition get_last_predicted :: "('e, 'i, 'v) entity_ops \<Rightarrow> ('e, 'v) state_index \<Rightarrow> 'i \<Rightarrow> 'e option" where
  "get_last_predicted E = si_get E LAST_PREDICTED_PREFIX"

definition get_fallback :: "('e, 'i, 'v) entity_ops \<Rightarrow> ('e, 'v) state_index \<Rightarrow> 'i \<Rightarrow> 'e option" where
  "get_fallback E = si_get E FALLBACK_PREFIX"

definition put_confirmed :: "('e, 'i, 'v) entity_ops \<Rightarrow> 'e \<Rightarrow> ('e, 'v) state_index \<Rightarrow> ('e, 'v) state_index" where
  "put_confirmed E e = si_put E LAST_CONFIRMED_PREFIX (e_id E e) e"

definition put_unconfirmed :: "('e, 'i, 'v) entity_ops \<Rightarrow> 'e \<Rightarrow> ('e, 'v) state_index \<Rightarrow> ('e, 'v) state_index" where
  "put_unconfirmed E e = si_put E LAST_UNCONFIRMED_PREFIX (e_id E e) e"

definition put_predicted :: "('e, 'i, 'v) entity_ops \<Rightarrow> 'e \<Rightarrow> ('e, 'v) state_index \<Rightarrow> ('e, 'v) state_index" where
  "put_predicted E e = si_put E LAST_PREDICTED_PREFIX (e_id E e) e"

definition put_fallback :: "('e, 'i, 'v) entity_ops \<Rightarrow> 'e \<Rightarrow> ('e, 'v) state_index \<Rightarrow> ('e, 'v) state_index" where
  "put_fallback E e = si_put E FALLBACK_PREFIX (e_id E e) e"

text \<open>\<open>entry(key)\<close> removed when it holds the version.\<close>

definition unbind :: "'v \<Rightarrow> bytes \<Rightarrow> (bytes, 'v) hash_map \<Rightarrow> (bytes, 'v) hash_map" where
  "unbind ver key m = (if map_of m key = Some ver then hm_remove key m else m)"

definition invalidate_version :: "('e, 'i, 'v) entity_ops \<Rightarrow> 'v \<Rightarrow> ('e, 'v) state_index \<Rightarrow> ('e, 'v) state_index \<times> 'i option" where
  "invalidate_version E ver ix =
    (case map_of (si_store ix) ver of
       None \<Rightarrow> (ix, None)
     | Some e \<Rightarrow>
         let sid = e_id E e; raw = id_bytes E sid; confirmed = index_key LAST_CONFIRMED_PREFIX raw; removed = hm_remove ver (si_store ix);
             (store, index) =
               (if map_of (si_index ix) confirmed = Some ver
                then if e_quasi_permanent E e then (hm_insert ver e removed, si_index ix)
                     else (removed, hm_remove confirmed (si_index ix))
                else (removed, si_index ix))
         in (\<lparr> si_store = store, si_index = fold (\<lambda>prefix. unbind ver (index_key prefix raw)) EPHEMERAL_STATE_KEYS index \<rparr>, Some sid))"

definition eliminate :: "('e, 'i, 'v) entity_ops \<Rightarrow> 'i \<Rightarrow> ('e, 'v) state_index \<Rightarrow> ('e, 'v) state_index" where
  "eliminate E sid ix = fold (\<lambda>prefix ix.
     let key = index_key prefix (id_bytes E sid)
     in case map_of (si_index ix) key of
          Some ver \<Rightarrow> \<lparr> si_store = hm_remove ver (si_store ix), si_index = hm_remove key (si_index ix) \<rparr>
        | None \<Rightarrow> ix) ALL_STATE_KEYS ix"

definition si_exists :: "'v \<Rightarrow> ('e, 'v) state_index \<Rightarrow> bool" where
  "si_exists ver ix = (map_of (si_store ix) ver \<noteq> None)"

definition get_state :: "'v \<Rightarrow> ('e, 'v) state_index \<Rightarrow> 'e option" where
  "get_state ver ix = map_of (si_store ix) ver"

fun or_else :: "'a option \<Rightarrow> 'a option \<Rightarrow> 'a option" where
  "or_else (Some a) _ = Some a"
| "or_else None b = b"

definition resolve_state :: "('e, 'i, 'v) entity_ops \<Rightarrow> 'i \<Rightarrow> ('e, 'v) state_index \<Rightarrow> 'e option" where
  "resolve_state E sid ix =
    or_else (get_last_predicted E ix sid)
      (or_else (get_last_unconfirmed E ix sid)
        (or_else (get_fallback E ix sid) (get_last_confirmed E ix sid)))"

end
