(* ===== verification/Engine.thy ===== *)
theory Engine
  imports State_Index Book_Match Green_Exec
begin

text \<open>
  The executor (\<open>bloom-offchain/src/execution_engine/mod.rs\<close>) with the helpers it owns: the focus set (\<open>focus_set.rs\<close>), the books and
  backlogs of the pairs (\<open>multi_pair.rs\<close>), the filter of processed versions (\<open>spectrum-offchain/src/data/circular_filter.rs\<close>) and the
  execution report (\<open>report.rs\<close>), at the types \<open>green-order-cardano-agent/src/main.rs\<close> gives it.

  \<^item> Its type parameters that are interfaces are the record \<open>engine_env\<close>: the recipe interpreter with the prover (\<open>en_run\<close>), the interpreter
    of specialised orders (\<open>en_spec_run\<close>), the backlog, and the bounded buffer of another library (\<open>ring\<close>).  \<open>en_run\<close> may panic and may
    change the context, which shares the account index.
  \<^item> Handlers return \<open>res\<close>: a book that is not settled panics on an event.  Matchmaking may also not return, so it is an option.
  \<^item> A submission error is the set of missing inputs it can be converted to, or \<open>None\<close>.  The order in which a hash set is traversed is
    \<open>en_order\<close>.
  \<^item> One call of \<open>poll_next\<close> takes what the streams have ready, \<open>poll_input\<close>; the beacons keep their values during the call.
\<close>

section \<open>Helpers of the executor\<close>

subsection \<open>Circular filter\<close>

record ('v, 'q) ring =
  ring_new :: 'q
  ring_try_push_back :: "'v \<Rightarrow> 'q \<Rightarrow> 'q option"
  ring_push_back :: "'v \<Rightarrow> 'q \<Rightarrow> 'q"
  ring_pop_front :: "'q \<Rightarrow> 'v option \<times> 'q"

record ('v, 'q) circular_filter =
  cf_buffer :: 'q
  cf_filter :: "'v set"

definition cf_new :: "('v, 'q) ring \<Rightarrow> ('v, 'q) circular_filter" where
  "cf_new R = \<lparr> cf_buffer = ring_new R, cf_filter = {} \<rparr>"

definition cf_add :: "('v, 'q) ring \<Rightarrow> 'v \<Rightarrow> ('v, 'q) circular_filter \<Rightarrow> ('v, 'q) circular_filter \<times> 'v option" where
  "cf_add R a f =
    (if a \<notin> cf_filter f then
       let flt = insert a (cf_filter f)
       in case ring_try_push_back R a (cf_buffer f) of
            Some q \<Rightarrow> (\<lparr> cf_buffer = q, cf_filter = flt \<rparr>, None)
          | None \<Rightarrow>
              (case ring_pop_front R (cf_buffer f) of
                 (Some evicted, q) \<Rightarrow> (\<lparr> cf_buffer = ring_push_back R a q, cf_filter = flt - {evicted} \<rparr>, Some evicted)
               | (None, q) \<Rightarrow> (\<lparr> cf_buffer = q, cf_filter = flt \<rparr>, None))
     else (f, None))"

definition cf_remove :: "'v \<Rightarrow> ('v, 'q) circular_filter \<Rightarrow> ('v, 'q) circular_filter" where
  "cf_remove a f = f\<lparr> cf_filter := cf_filter f - {a} \<rparr>"

definition cf_contains :: "('v, 'q) circular_filter \<Rightarrow> 'v \<Rightarrow> bool" where
  "cf_contains f a = (a \<in> cf_filter f)"

subsection \<open>Focus set\<close>

record 'p focus_set =
  fs_queue :: "'p list"
  fs_filter :: "'p set"

definition fs_new :: "'p focus_set" where
  "fs_new = \<lparr> fs_queue = [], fs_filter = {} \<rparr>"

definition fs_push_back :: "'p \<Rightarrow> 'p focus_set \<Rightarrow> 'p focus_set" where
  "fs_push_back a s = (if a \<notin> fs_filter s then \<lparr> fs_queue = fs_queue s @ [a], fs_filter = insert a (fs_filter s) \<rparr> else s)"

definition fs_pop_front :: "'p focus_set \<Rightarrow> 'p option \<times> 'p focus_set" where
  "fs_pop_front s =
    (case fs_queue s of
       a # q \<Rightarrow> (Some a, \<lparr> fs_queue = q, fs_filter = fs_filter s - {a} \<rparr>)
     | [] \<Rightarrow> (None, s))"

subsection \<open>Funding\<close>

datatype 'b funding_event = FundingConsumed 'b | FundingProduced 'b

fun into_effects :: "('b, 'b) funding_io \<Rightarrow> 'b option \<times> 'b funding_event list" where
  "into_effects (Replaced consumed produced) = (None, [FundingConsumed consumed, FundingProduced produced])"
| "into_effects (Added unused produced) = (Some unused, [FundingProduced produced])"
| "into_effects (NotUsed unused) = (Some unused, [])"

text \<open>The funding pool is a \<open>BTreeSet\<close>: outputs in the order of their references.\<close>

definition pop_first :: "'b list \<Rightarrow> 'b option \<times> 'b list" where
  "pop_first pool = (case pool of b # bs \<Rightarrow> (Some b, bs) | [] \<Rightarrow> (None, []))"

definition pop_preferred_funding :: "'o finalized_tx_out list \<Rightarrow> output_ref set \<Rightarrow> 'o finalized_tx_out option \<times> 'o finalized_tx_out list" where
  "pop_preferred_funding pool consumed =
    (if card consumed \<noteq> 2 then pop_first pool
     else let lower = Min consumed; upper = Max consumed
          in case find (\<lambda>f. lower < reference f \<and> reference f < upper) pool of
               Some candidate \<Rightarrow> (Some candidate, bs_remove reference candidate pool)
             | None \<Rightarrow> pop_first pool)"

subsection \<open>Execution report\<close>

record order_execution =
  oe_id :: token
  oe_version :: output_ref
  mean_price :: absolute_price
  oe_removed_input :: u64
  oe_added_output :: u64
  oe_fee :: u64
  oe_side :: side

record 'th execution_report =
  er_pair :: pair_id
  er_executions :: "order_execution list"
  er_events :: "execution_event list"
  er_tx_hash :: "'th option"

definition report_new :: "pair_id \<Rightarrow> execution_event list \<Rightarrow> 'th execution_report" where
  "report_new pr evs = \<lparr> er_pair = pr, er_executions = [], er_events = evs, er_tx_hash = None \<rparr>"

text \<open>\<open>Ratio::new\<close> panics on a zero denominator and \<open>pow(-1)\<close> on a zero ratio.\<close>

definition from_relative_price :: "side \<Rightarrow> u64 \<Rightarrow> u64 \<Rightarrow> (unit, absolute_price) res" where
  "from_relative_price s out inp =
    (let price = of_nat (unat out) / of_nat (unat inp)
     in if inp = 0 then Panic else case s of Ask \<Rightarrow> Ok price | Bid \<Rightarrow> if out = 0 then Panic else Ok (1 / price))"

fun with_executions :: "(bytes \<Rightarrow> bytes) \<Rightarrow> (green_order, royalty_pool, 'o finalized_tx_out) execution list \<Rightarrow> (unit, order_execution list) res" where
  "with_executions H [] = Ok []"
| "with_executions H (Inr _ # xs) = with_executions H xs"
| "with_executions H (Inl tk # xs) =
     (let (ord, br) = target tk
      in and_then (removed_input green_taker tk) (\<lambda>inp.
         and_then (added_output green_taker tk) (\<lambda>out.
         and_then (from_relative_price (t_side green_taker ord) out inp) (\<lambda>price.
         and_then (consumed_fee green_taker tk) (\<lambda>fee.
         and_then (with_executions H xs) (\<lambda>rest.
           Ok (\<lparr> oe_id = goi_stable_token H (go_id ord), oe_version = reference br, mean_price = price, oe_removed_input = out,
                 oe_added_output = inp, oe_fee = fee, oe_side = t_side green_taker ord \<rparr> # rest)))))))"


section \<open>State\<close>

type_synonym 'o ent = "('o, royalty_pool) entity"
type_synonym baked = "green_order \<times> output_ref + royalty_pool \<times> output_ref"
type_synonym book = "(green_order, royalty_pool, token) tlb_state"

definition agent_entity :: "(bytes \<Rightarrow> bytes) \<Rightarrow> ('o ent, token, output_ref) entity_ops" where
  "agent_entity H = \<lparr>
     e_id = (\<lambda>e. case fst e of Inl (ord, _) \<Rightarrow> goi_stable_token H (go_id ord) | Inr (p, _) \<Rightarrow> rp_id p),
     e_version = entity_version,
     e_quasi_permanent = (\<lambda>e. case fst e of Inl _ \<Rightarrow> False | Inr _ \<Rightarrow> True),
     id_bytes = token_to_array \<rparr>"

datatype ('o, 'so) execution_effects =
  FromLiquidityBook "('o ent, 'o ent) exec_eff list"
| FromBacklog "(royalty_pool \<times> output_ref) \<times> 'o finalized_tx_out" "'so \<times> 'o finalized_tx_out"

record ('o, 'so) effects_by_pair =
  ep_pair :: pair_id
  consumed_versions :: "output_ref set"
  ep_effects :: "('o, 'so) execution_effects"

record ('o, 'so, 'th) effects =
  ef_tx_hash :: 'th
  ef_execution :: "('o, 'so) effects_by_pair"
  ef_funding :: "'o finalized_tx_out funding_event list"

datatype engine_status = EngineOk | NoFunding

text \<open>The future the executor waits on: \<open>state_synced.once(true)\<close> or \<open>rollback_in_progress.once(false)\<close>.\<close>

datatype blocker = AwaitSynced | AwaitRolledBack

record ('o, 'so, 'l, 'q, 'c, 'th) executor =
  ex_index :: "('o ent, output_ref) state_index"
  multi_book :: "(pair_id, book) hash_map"
  multi_backlog :: "(pair_id, 'l) hash_map"
  ex_context :: 'c
  funding_pool :: "'o finalized_tx_out list"
  pending_effects :: "('o, 'so, 'th) effects option"
  focus :: "pair_id focus_set"
  skip_filter :: "(output_ref, 'q) circular_filter"
  status_sent :: "engine_status list"
  last_engine_status :: engine_status
  ex_blocker :: "blocker option"

text \<open>The operations of \<open>HotBacklog\<close> and of a specialised order.\<close>

record ('o, 'so, 'l) backlog_ops =
  bl_make :: 'l
  bl_put :: "'so \<times> 'o finalized_tx_out \<Rightarrow> 'l \<Rightarrow> 'l"
  bl_try_pop :: "'l \<Rightarrow> ('so \<times> 'o finalized_tx_out) option \<times> 'l"
  bl_remove :: "output_ref \<Rightarrow> 'l \<Rightarrow> 'l"
  bl_soft_evict :: "output_ref \<Rightarrow> 'l \<Rightarrow> 'l"
  so_self_ref :: "'so \<Rightarrow> output_ref"
  so_pool_ref :: "'so \<Rightarrow> token"

record ('o, 'tx) exec_result =
  xr_tx :: 'tx
  matchmaking_effects :: "('o ent, 'o ent) exec_eff list"
  xr_funding_io :: "('o finalized_tx_out, 'o finalized_tx_out) funding_io"

record ('o, 'so, 'l, 'q, 'c, 'tx, 'th) engine_env =
  en_hash :: "bytes \<Rightarrow> bytes"
  en_curve :: "rat \<Rightarrow> u64 \<Rightarrow> u64 \<Rightarrow> absolute_price \<Rightarrow> int \<times> int"
  en_conf :: "ex_units execution_config"
  en_time :: u64
  en_ring :: "(output_ref, 'q) ring"
  en_backlog :: "('o, 'so, 'l) backlog_ops"
  en_order :: "output_ref set \<Rightarrow> output_ref list"
  en_run :: "'c \<Rightarrow> (green_order, royalty_pool, 'o finalized_tx_out) execution list \<Rightarrow> 'o finalized_tx_out \<Rightarrow> (unit, 'c \<times> ('o, 'tx) exec_result) res"
  en_spec_run :: "'c \<Rightarrow> royalty_pool \<times> 'o finalized_tx_out \<Rightarrow> 'so \<times> 'o finalized_tx_out \<Rightarrow>
      ('tx \<times> ((royalty_pool \<times> output_ref) \<times> 'o finalized_tx_out) \<times> 'so \<times> 'o finalized_tx_out) option"
  en_tx_hash :: "'tx \<Rightarrow> 'th"

abbreviation en_entity :: "('o, 'so, 'l, 'q, 'c, 'tx, 'th) engine_env \<Rightarrow> ('o ent, token, output_ref) entity_ops" where
  "en_entity V \<equiv> agent_entity (en_hash V)"

abbreviation en_taker :: "('o, 'so, 'l, 'q, 'c, 'tx, 'th) engine_env \<Rightarrow> (green_order, green_key, token, ex_units) book_taker" where
  "en_taker V \<equiv> green_book (en_hash V)"

abbreviation en_maker :: "('o, 'so, 'l, 'q, 'c, 'tx, 'th) engine_env \<Rightarrow> (royalty_pool, green_order, token, ex_units) maker" where
  "en_maker V \<equiv> royalty_maker (en_curve V)"

definition executor_new :: "('o, 'so, 'l, 'q, 'c, 'tx, 'th) engine_env \<Rightarrow> 'c \<Rightarrow> ('o, 'so, 'l, 'q, 'c, 'th) executor" where
  "executor_new V c = \<lparr> ex_index = si_new, multi_book = [], multi_backlog = [], ex_context = c, funding_pool = [], pending_effects = None,
     focus = fs_new, skip_filter = cf_new (en_ring V), status_sent = [], last_engine_status = EngineOk, ex_blocker = None \<rparr>"


section \<open>Books and backlogs of the pairs\<close>

definition book_of :: "('o, 'so, 'l, 'q, 'c, 'tx, 'th) engine_env \<Rightarrow> pair_id \<Rightarrow> ('o, 'so, 'l, 'q, 'c, 'th) executor \<Rightarrow> book" where
  "book_of V pr ex = (case map_of (multi_book ex) pr of Some b \<Rightarrow> b | None \<Rightarrow> tlb_new (en_time V))"

definition set_book :: "pair_id \<Rightarrow> book \<Rightarrow> ('o, 'so, 'l, 'q, 'c, 'th) executor \<Rightarrow> ('o, 'so, 'l, 'q, 'c, 'th) executor" where
  "set_book pr b ex = ex\<lparr> multi_book := hm_insert pr b (multi_book ex) \<rparr>"

definition book_event :: "('o, 'so, 'l, 'q, 'c, 'tx, 'th) engine_env \<Rightarrow> pair_id \<Rightarrow> (green_order, royalty_pool) book_event \<Rightarrow>
    ('o, 'so, 'l, 'q, 'c, 'th) executor \<Rightarrow> (unit, ('o, 'so, 'l, 'q, 'c, 'th) executor) res" where
  "book_event V pr e ex = and_then (apply_event (en_taker V) (en_maker V) e (book_of V pr ex)) (\<lambda>b. Ok (set_book pr b ex))"

definition backlog_of :: "('o, 'so, 'l, 'q, 'c, 'tx, 'th) engine_env \<Rightarrow> pair_id \<Rightarrow> ('o, 'so, 'l, 'q, 'c, 'th) executor \<Rightarrow> 'l" where
  "backlog_of V pr ex = (case map_of (multi_backlog ex) pr of Some l \<Rightarrow> l | None \<Rightarrow> bl_make (en_backlog V))"

definition set_backlog :: "pair_id \<Rightarrow> 'l \<Rightarrow> ('o, 'so, 'l, 'q, 'c, 'th) executor \<Rightarrow> ('o, 'so, 'l, 'q, 'c, 'th) executor" where
  "set_backlog pr l ex = ex\<lparr> multi_backlog := hm_insert pr l (multi_backlog ex) \<rparr>"

datatype ('n, 'e) order_update = OrderCreated 'n | OrderEliminated 'e

definition sync_backlog :: "('o, 'so, 'l, 'q, 'c, 'tx, 'th) engine_env \<Rightarrow> pair_id \<Rightarrow>
    (('so \<times> 'o finalized_tx_out, 'so) order_update, 'cx) chan \<Rightarrow> ('o, 'so, 'l, 'q, 'c, 'th) executor \<Rightarrow> ('o, 'so, 'l, 'q, 'c, 'th) executor" where
  "sync_backlog V pr update ex =
    (let is_confirmed = (case update of Ledger _ _ \<Rightarrow> True | _ \<Rightarrow> False); B = en_backlog V
     in case chan_erased update of
          OrderCreated new_order \<Rightarrow>
            if \<not> cf_contains (skip_filter ex) (so_self_ref B (fst new_order))
            then set_backlog pr (bl_put B new_order (backlog_of V pr ex)) ex else ex
        | OrderEliminated elim_order \<Rightarrow>
            let r = so_self_ref B elim_order
            in if is_confirmed then set_backlog pr (bl_remove B r (backlog_of V pr ex)) ex
               else set_backlog pr (bl_soft_evict B r (backlog_of V pr ex)) ex)"

fun sync_book :: "('o, 'so, 'l, 'q, 'c, 'tx, 'th) engine_env \<Rightarrow> pair_id \<Rightarrow> (baked, baked) ior \<Rightarrow>
    ('o, 'so, 'l, 'q, 'c, 'th) executor \<Rightarrow> (unit, ('o, 'so, 'l, 'q, 'c, 'th) executor) res" where
  "sync_book V pr (IorLeft (Inl (ord, _))) ex = book_event V pr (RemoveTaker ord) ex"
| "sync_book V pr (IorLeft (Inr (pool, _))) ex = book_event V pr (RemoveMaker pool) ex"
| "sync_book V pr (IorBoth (Inl (old, _)) (Inl (new, _))) ex =
     and_then (book_event V pr (RemoveTaker old) ex) (book_event V pr (UpdateTaker new))"
| "sync_book V pr (IorBoth _ (Inr (new, _))) ex = book_event V pr (UpdateMaker new) ex"
| "sync_book V pr (IorBoth (Inr _) (Inl _)) ex = Panic"
| "sync_book V pr (IorRight (Inl (new, _))) ex = book_event V pr (UpdateTaker new) ex"
| "sync_book V pr (IorRight (Inr (new, _))) ex = book_event V pr (UpdateMaker new) ex"


section \<open>Updates of the state index\<close>

fun to_transition :: "'o ent option \<Rightarrow> 'o ent option \<Rightarrow> (baked, baked) ior option" where
  "to_transition (Some e) None = Some (IorLeft (fst e))"
| "to_transition None (Some n) = Some (IorRight (fst n))"
| "to_transition (Some p) (Some n) = Some (IorBoth (fst p) (fst n))"
| "to_transition None None = None"

fun invalidate_versions :: "('o, 'so, 'l, 'q, 'c, 'tx, 'th) engine_env \<Rightarrow> pair_id \<Rightarrow> output_ref list \<Rightarrow>
    ('o, 'so, 'l, 'q, 'c, 'th) executor \<Rightarrow> (unit, ('o, 'so, 'l, 'q, 'c, 'th) executor \<times> output_ref list) res" where
  "invalidate_versions V pr [] ex = Ok (ex, [])"
| "invalidate_versions V pr (ver # vers) ex =
     (case get_state ver (ex_index ex) of
        None \<Rightarrow> and_then (invalidate_versions V pr vers ex) (\<lambda>(ex', missing). Ok (ex', ver # missing))
      | Some st \<Rightarrow>
          let sid = e_id (en_entity V) st;
              before = resolve_state (en_entity V) sid (ex_index ex);
              index = fst (invalidate_version (en_entity V) ver (ex_index ex));
              ex1 = ex\<lparr> ex_index := index \<rparr>
          in case to_transition before (resolve_state (en_entity V) sid index) of
               Some tr \<Rightarrow> and_then (sync_book V pr tr ex1) (invalidate_versions V pr vers)
             | None \<Rightarrow> invalidate_versions V pr vers ex1)"

fun is_ledger :: "('a, 'cx) chan \<Rightarrow> bool" where
  "is_ledger (Ledger _ _) = True"
| "is_ledger _ = False"

fun is_mempool :: "('a, 'cx) chan \<Rightarrow> bool" where
  "is_mempool (Mempool _) = True"
| "is_mempool _ = False"

definition put_observed :: "('e, 'i, 'v) entity_ops \<Rightarrow> ('a, 'cx) chan \<Rightarrow> 'e \<Rightarrow> ('e, 'v) state_index \<Rightarrow> ('e, 'v) state_index" where
  "put_observed E ch e ix =
    (if is_ledger ch then put_confirmed E e ix else if is_mempool ch then put_unconfirmed E e ix else put_predicted E e ix)"

text \<open>A transition that leaves a new state; \<open>rolled_back\<close> is the state a rollback replaces.\<close>

definition update_to :: "('o, 'so, 'l, 'q, 'c, 'tx, 'th) engine_env \<Rightarrow> ('o ent transition, 'cx) chan \<Rightarrow> 'o ent option \<Rightarrow> 'o ent \<Rightarrow>
    ('o, 'so, 'l, 'q, 'c, 'th) executor \<Rightarrow> ('o, 'so, 'l, 'q, 'c, 'th) executor \<times> (baked, baked) ior option" where
  "update_to V update rolled_back next_state ex =
    (let E = en_entity V; ver = entity_version next_state; skipped = cf_contains (skip_filter ex) ver
     in if skipped \<and> \<not> is_rollback (chan_erased update) then
          (ex\<lparr> ex_index := (if is_ledger update then put_confirmed E next_state else put_fallback E next_state) (ex_index ex) \<rparr>, None)
        else
          let ex1 = (if skipped then ex\<lparr> skip_filter := cf_remove ver (skip_filter ex) \<rparr> else ex);
              before = resolve_state E (e_id E next_state) (ex_index ex1);
              index = (case rolled_back of Some st \<Rightarrow> fst (invalidate_version E (entity_version st) (ex_index ex1)) | None \<Rightarrow> ex_index ex1);
              index' = put_observed E update next_state index
          in (ex1\<lparr> ex_index := index' \<rparr>, to_transition before (resolve_state E (e_id E next_state) index')))"

definition update_gone :: "('o, 'so, 'l, 'q, 'c, 'tx, 'th) engine_env \<Rightarrow> ('o ent transition, 'cx) chan \<Rightarrow> 'o ent \<Rightarrow>
    ('o, 'so, 'l, 'q, 'c, 'th) executor \<Rightarrow> ('o, 'so, 'l, 'q, 'c, 'th) executor \<times> (baked, baked) ior option" where
  "update_gone V update st ex =
    (let E = en_entity V
     in if is_ledger update \<and> e_quasi_permanent E st then (ex\<lparr> ex_index := put_fallback E st (ex_index ex) \<rparr>, None)
        else if is_mempool update \<and> e_quasi_permanent E st then
          let sid = e_id E st;
              before = resolve_state E sid (ex_index ex);
              index = fst (invalidate_version E (entity_version st) (ex_index ex));
              after = resolve_state E sid index
          in (ex\<lparr> ex_index := index \<rparr>,
              if map_option entity_version before = map_option entity_version after then None else to_transition before after)
        else
          (if is_ledger update \<or> \<not> e_quasi_permanent E st then ex\<lparr> ex_index := eliminate E (e_id E st) (ex_index ex) \<rparr> else ex,
           Some (IorLeft (fst st))))"

definition update_state :: "('o, 'so, 'l, 'q, 'c, 'tx, 'th) engine_env \<Rightarrow> ('o ent transition, 'cx) chan \<Rightarrow>
    ('o, 'so, 'l, 'q, 'c, 'th) executor \<Rightarrow> ('o, 'so, 'l, 'q, 'c, 'th) executor \<times> (baked, baked) ior option" where
  "update_state V update ex =
    (case chan_erased update of
       Forward (IorRight next_state) \<Rightarrow> update_to V update None next_state ex
     | Forward (IorBoth _ next_state) \<Rightarrow> update_to V update None next_state ex
     | Backward (IorRight next_state) \<Rightarrow> update_to V update None next_state ex
     | Backward (IorBoth st next_state) \<Rightarrow> update_to V update (Some st) next_state ex
     | Forward (IorLeft st) \<Rightarrow> update_gone V update st ex
     | Backward (IorLeft st) \<Rightarrow> update_gone V update st ex)"


section \<open>Events\<close>

definition sync_update :: "('o, 'so, 'l, 'q, 'c, 'tx, 'th) engine_env \<Rightarrow> pair_id \<Rightarrow>
    ('o, 'so, 'l, 'q, 'c, 'th) executor \<times> (baked, baked) ior option \<Rightarrow> (unit, ('o, 'so, 'l, 'q, 'c, 'th) executor) res" where
  "sync_update V pr = (\<lambda>(ex, tr). case tr of Some t \<Rightarrow> sync_book V pr t ex | None \<Rightarrow> Ok ex)"

type_synonym ('o, 'so, 'cx) pair_event =
  "('o ent transition, 'cx) chan + (('so \<times> 'o finalized_tx_out, 'so) order_update, 'cx) chan"

definition on_pair_event :: "('o, 'so, 'l, 'q, 'c, 'tx, 'th) engine_env \<Rightarrow> pair_id \<Rightarrow> ('o, 'so, 'cx) pair_event \<Rightarrow>
    ('o, 'so, 'l, 'q, 'c, 'th) executor \<Rightarrow> (unit, ('o, 'so, 'l, 'q, 'c, 'th) executor) res" where
  "on_pair_event V pr event ex =
    and_then (case event of
                Inl evolving \<Rightarrow> sync_update V pr (update_state V evolving ex)
              | Inr atomic \<Rightarrow> Ok (sync_backlog V pr atomic ex))
      (\<lambda>ex. Ok (ex\<lparr> focus := fs_push_back pr (focus ex) \<rparr>))"

fun on_funding_event :: "'o finalized_tx_out funding_event \<Rightarrow> ('o, 'so, 'l, 'q, 'c, 'th) executor \<Rightarrow> ('o, 'so, 'l, 'q, 'c, 'th) executor" where
  "on_funding_event (FundingConsumed b) ex = ex\<lparr> funding_pool := bs_remove reference b (funding_pool ex) \<rparr>"
| "on_funding_event (FundingProduced b) ex = ex\<lparr> funding_pool := bs_insert reference b (funding_pool ex) \<rparr>"


section \<open>Feedback on a transaction\<close>

definition on_entity_processed :: "('o, 'so, 'l, 'q, 'c, 'tx, 'th) engine_env \<Rightarrow> output_ref \<Rightarrow>
    ('o, 'so, 'l, 'q, 'c, 'th) executor \<Rightarrow> ('o, 'so, 'l, 'q, 'c, 'th) executor" where
  "on_entity_processed V ver ex = ex\<lparr> skip_filter := fst (cf_add (en_ring V) ver (skip_filter ex)) \<rparr>"

fun apply_effect :: "('o, 'so, 'l, 'q, 'c, 'tx, 'th) engine_env \<Rightarrow> pair_id \<Rightarrow> ('o ent, 'o ent) exec_eff \<Rightarrow>
    ('o, 'so, 'l, 'q, 'c, 'th) executor \<Rightarrow> (unit, ('o, 'so, 'l, 'q, 'c, 'th) executor) res" where
  "apply_effect V pr (Updated elim upd) ex =
     sync_update V pr (update_state V (LocalTxSubmit (Forward (IorBoth elim upd)) :: (_, unit) chan) (on_entity_processed V (entity_version elim) ex))"
| "apply_effect V pr (Eliminated elim) ex =
     sync_update V pr (update_state V (LocalTxSubmit (Forward (IorLeft elim)) :: (_, unit) chan) (on_entity_processed V (entity_version elim) ex))"

fun apply_effects :: "('o, 'so, 'l, 'q, 'c, 'tx, 'th) engine_env \<Rightarrow> pair_id \<Rightarrow> ('o ent, 'o ent) exec_eff list \<Rightarrow>
    ('o, 'so, 'l, 'q, 'c, 'th) executor \<Rightarrow> (unit, ('o, 'so, 'l, 'q, 'c, 'th) executor) res" where
  "apply_effects V pr [] ex = Ok ex"
| "apply_effects V pr (eff # effs) ex = and_then (apply_effect V pr eff ex) (apply_effects V pr effs)"

text \<open>The effects are popped from the end of the vector.\<close>

definition on_execution_effects_success :: "('o, 'so, 'l, 'q, 'c, 'tx, 'th) engine_env \<Rightarrow> ('o, 'so) effects_by_pair \<Rightarrow>
    ('o, 'so, 'l, 'q, 'c, 'th) executor \<Rightarrow> (unit, ('o, 'so, 'l, 'q, 'c, 'th) executor) res" where
  "on_execution_effects_success V eff ex =
    (let pr = ep_pair eff
     in case ep_effects eff of
          FromLiquidityBook effs \<Rightarrow>
            apply_effects V pr (rev effs) (set_book pr (on_recipe_succeeded (en_taker V) (book_of V pr ex)) ex)
        | FromBacklog new_pool consumed_ord \<Rightarrow>
            Ok (fst (update_state V (LocalTxSubmit (Forward (IorRight (Inr (fst new_pool), snd new_pool))) :: (_, unit) chan)
              (on_entity_processed V (so_self_ref (en_backlog V) (fst consumed_ord)) ex))))"

fun effect_target :: "('t, 'k) exec_eff \<Rightarrow> 'k" where
  "effect_target (Updated k _) = k"
| "effect_target (Eliminated k) = k"

fun book_events :: "('o, 'so, 'l, 'q, 'c, 'tx, 'th) engine_env \<Rightarrow> pair_id \<Rightarrow> (green_order, royalty_pool) book_event list \<Rightarrow>
    ('o, 'so, 'l, 'q, 'c, 'th) executor \<Rightarrow> (unit, ('o, 'so, 'l, 'q, 'c, 'th) executor) res" where
  "book_events V pr [] ex = Ok ex"
| "book_events V pr (e # es) ex = and_then (book_event V pr e ex) (book_events V pr es)"

definition recipe_failed :: "('o, 'so, 'l, 'q, 'c, 'tx, 'th) engine_env \<Rightarrow> pair_id \<Rightarrow>
    ('o, 'so, 'l, 'q, 'c, 'th) executor \<Rightarrow> ('o, 'so, 'l, 'q, 'c, 'th) executor" where
  "recipe_failed V pr ex = set_book pr (on_recipe_failed (en_taker V) (book_of V pr ex)) ex"

definition poisonous_orders :: "('o ent, 'o ent) exec_eff list \<Rightarrow> green_order list" where
  "poisonous_orders effs = List.map_filter (\<lambda>eff. case fst (effect_target eff) of Inl (ord, _) \<Rightarrow> Some ord | Inr _ \<Rightarrow> None) effs"

definition on_execution_effects_failure :: "('o, 'so, 'l, 'q, 'c, 'tx, 'th) engine_env \<Rightarrow> output_ref set option \<Rightarrow> ('o, 'so) effects_by_pair \<Rightarrow>
    ('o, 'so, 'l, 'q, 'c, 'th) executor \<Rightarrow> (unit, ('o, 'so, 'l, 'q, 'c, 'th) executor) res" where
  "on_execution_effects_failure V err eff ex =
    (let pr = ep_pair eff; B = en_backlog V
     in case err of
          Some missing_inputs \<Rightarrow>
            let (strict, ex1) =
                  (case ep_effects eff of
                     FromLiquidityBook _ \<Rightarrow> (True, recipe_failed V pr ex)
                   | FromBacklog _ ord \<Rightarrow>
                       let r = so_self_ref B (fst ord)
                       in (False, set_backlog pr ((if r \<in> missing_inputs then bl_soft_evict B r else bl_put B ord) (backlog_of V pr ex)) ex))
            in and_then (invalidate_versions V pr (en_order V (missing_inputs \<inter> consumed_versions eff)) ex1) (\<lambda>(ex2, unknown).
                 if unknown \<noteq> [] \<and> strict then Panic else Ok ex2)
        | None \<Rightarrow>
            (case ep_effects eff of
               FromLiquidityBook effs \<Rightarrow> book_events V pr (map RemoveTaker (poisonous_orders effs)) (recipe_failed V pr ex)
             | FromBacklog _ ord \<Rightarrow> Ok (set_backlog pr (bl_put B ord (backlog_of V pr ex)) ex)))"

definition on_funding_effects_success :: "'o finalized_tx_out funding_event list \<Rightarrow> ('o, 'so, 'l, 'q, 'c, 'th) executor \<Rightarrow>
    ('o, 'so, 'l, 'q, 'c, 'th) executor" where
  "on_funding_effects_success effs ex = ex\<lparr> funding_pool :=
     fold (\<lambda>eff pool. case eff of FundingProduced f \<Rightarrow> bs_insert reference f pool | FundingConsumed _ \<Rightarrow> pool) (rev effs) (funding_pool ex) \<rparr>"

definition on_funding_effects_failure :: "output_ref set option \<Rightarrow> 'o finalized_tx_out funding_event list \<Rightarrow> ('o, 'so, 'l, 'q, 'c, 'th) executor \<Rightarrow>
    ('o, 'so, 'l, 'q, 'c, 'th) executor" where
  "on_funding_effects_failure err effs ex =
    (let missing = (case err of Some m \<Rightarrow> m | None \<Rightarrow> {})
     in ex\<lparr> funding_pool := fold (\<lambda>eff pool. case eff of
          FundingConsumed f \<Rightarrow> if reference f \<notin> missing then bs_insert reference f pool else pool
        | FundingProduced _ \<Rightarrow> pool) (rev effs) (funding_pool ex) \<rparr>)"

text \<open>What the network answers: \<open>Ok\<close>, or an error with the missing inputs it may name.\<close>

datatype feedback = Accepted | Rejected "output_ref set option"

definition on_feedback :: "('o, 'so, 'l, 'q, 'c, 'tx, 'th) engine_env \<Rightarrow> feedback \<Rightarrow> ('o, 'so, 'th) effects \<Rightarrow>
    ('o, 'so, 'l, 'q, 'c, 'th) executor \<Rightarrow> (unit, ('o, 'so, 'l, 'q, 'c, 'th) executor) res" where
  "on_feedback V fb effs ex =
    (case fb of
       Accepted \<Rightarrow> and_then (on_execution_effects_success V (ef_execution effs) ex) (\<lambda>ex. Ok (on_funding_effects_success (ef_funding effs) ex))
     | Rejected err \<Rightarrow> and_then (on_execution_effects_failure V err (ef_execution effs) ex) (\<lambda>ex. Ok (on_funding_effects_failure err (ef_funding effs) ex)))"

definition on_linkage_failure :: "('o, 'so, 'l, 'q, 'c, 'tx, 'th) engine_env \<Rightarrow> pair_id \<Rightarrow> (green_order + royalty_pool) list \<Rightarrow>
    ('o, 'so, 'l, 'q, 'c, 'th) executor \<Rightarrow> (unit, ('o, 'so, 'l, 'q, 'c, 'th) executor) res" where
  "on_linkage_failure V pr orphans ex =
    book_events V pr (map (\<lambda>x. case x of Inl t \<Rightarrow> RemoveTaker t | Inr m \<Rightarrow> RemoveMaker m) orphans) (recipe_failed V pr ex)"


section \<open>Matchmaking\<close>

definition try_send_engine_status :: "engine_status \<Rightarrow> ('o, 'so, 'l, 'q, 'c, 'th) executor \<Rightarrow> ('o, 'so, 'l, 'q, 'c, 'th) executor" where
  "try_send_engine_status st ex = ex\<lparr> status_sent := status_sent ex @ [st], last_engine_status := st \<rparr>"

definition lookup_bearer :: "('o, 'so, 'l, 'q, 'c, 'tx, 'th) engine_env \<Rightarrow> ('o, 'so, 'l, 'q, 'c, 'th) executor \<Rightarrow> token \<Rightarrow>
    (output_ref \<times> 'o finalized_tx_out) option" where
  "lookup_bearer V ex sid = map_option (\<lambda>e. (entity_version e, snd e)) (resolve_state (en_entity V) sid (ex_index ex))"

text \<open>The transaction of a linked recipe, with its report; the pair stays in focus.\<close>

definition submit_recipe :: "('o, 'so, 'l, 'q, 'c, 'tx, 'th) engine_env \<Rightarrow> pair_id \<Rightarrow> 'th execution_report \<Rightarrow>
    (green_order, royalty_pool, 'o finalized_tx_out) execution list \<Rightarrow> output_ref set \<Rightarrow> 'o finalized_tx_out \<Rightarrow> ('o, 'so, 'l, 'q, 'c, 'th) executor \<Rightarrow>
    (unit, ('o, 'so, 'l, 'q, 'c, 'th) executor \<times> 'tx \<times> 'th execution_report option) res" where
  "submit_recipe V pr report linked consumed funding ex =
    and_then (en_run V (ex_context ex) linked funding) (\<lambda>(ctx, r).
      let th = en_tx_hash V (xr_tx r);
          (unused, funding_effects) = into_effects (xr_funding_io r);
          pool = (case unused of Some f \<Rightarrow> bs_insert reference f (funding_pool ex) | None \<Rightarrow> funding_pool ex)
      in Ok (try_send_engine_status EngineOk (ex\<lparr> ex_context := ctx, funding_pool := pool,
           pending_effects := Some \<lparr> ef_tx_hash = th,
             ef_execution = \<lparr> ep_pair = pr, consumed_versions = consumed, ep_effects = FromLiquidityBook (matchmaking_effects r) \<rparr>,
             ef_funding = funding_effects \<rparr>,
           focus := fs_push_back pr (focus ex) \<rparr>),
         xr_tx r, Some (report\<lparr> er_tx_hash := Some th \<rparr>)))"

definition try_backlog :: "('o, 'so, 'l, 'q, 'c, 'tx, 'th) engine_env \<Rightarrow> pair_id \<Rightarrow> ('o, 'so, 'l, 'q, 'c, 'th) executor \<Rightarrow>
    ('o, 'so, 'l, 'q, 'c, 'th) executor \<times> ('tx \<times> 'th execution_report option) option" where
  "try_backlog V pr ex =
    (let (popped, l) = bl_try_pop (en_backlog V) (backlog_of V pr ex); ex1 = set_backlog pr l ex
     in case popped of
          None \<Rightarrow> (ex1, None)
        | Some next_order \<Rightarrow>
            (case resolve_state (en_entity V) (so_pool_ref (en_backlog V) (fst next_order)) (ex_index ex1) of
               Some (Inr (pool, ver), bearer) \<Rightarrow>
                 (case en_spec_run V (ex_context ex1) (pool, bearer) next_order of
                    Some (tx, updated_pool, consumed_ord) \<Rightarrow>
                      (ex1\<lparr> pending_effects := Some \<lparr> ef_tx_hash = en_tx_hash V tx,
                         ef_execution = \<lparr> ep_pair = pr, consumed_versions = {ver, so_self_ref (en_backlog V) (fst consumed_ord)},
                           ep_effects = FromBacklog updated_pool consumed_ord \<rparr>, ef_funding = [] \<rparr>,
                         focus := fs_push_back pr (focus ex1) \<rparr>, Some (tx, None))
                  | None \<Rightarrow> (ex1, None))
             | _ \<Rightarrow> (ex1, None)))"

text \<open>One pair of the focus set; \<open>None\<close> as the output lets the loop go on.\<close>

definition matchmake_pair :: "('o, 'so, 'l, 'q, 'c, 'tx, 'th) engine_env \<Rightarrow> pair_id \<Rightarrow> ('o, 'so, 'l, 'q, 'c, 'th) executor \<Rightarrow>
    (unit, ('o, 'so, 'l, 'q, 'c, 'th) executor \<times> ('tx \<times> 'th execution_report option) option) res option" where
  "matchmake_pair V pr ex =
    run_bind (attempt_recipe (en_taker V) (en_maker V) (en_conf V) (book_of V pr ex)) (\<lambda>(st, recipe, evs).
      let ex1 = set_book pr st ex
      in Some (case recipe of
           None \<Rightarrow> Ok (try_backlog V pr (try_send_engine_status EngineOk ex1))
         | Some r \<Rightarrow>
             (case link (t_id (en_taker V)) (m_id (en_maker V)) (lookup_bearer V ex1) r of
                Ok (linked, consumed) \<Rightarrow>
                  and_then (with_executions (en_hash V) linked) (\<lambda>executions.
                    let report = (report_new pr evs)\<lparr> er_executions := executions \<rparr>
                    in case pop_preferred_funding (funding_pool ex1) consumed of
                         (Some funding, pool) \<Rightarrow>
                           and_then (submit_recipe V pr report linked consumed funding (ex1\<lparr> funding_pool := pool \<rparr>)) (\<lambda>(ex2, tx). Ok (ex2, Some tx))
                       | (None, pool) \<Rightarrow> Ok (try_backlog V pr (recipe_failed V pr (try_send_engine_status NoFunding ex1))))
              | Err orphans \<Rightarrow> and_then (on_linkage_failure V pr orphans ex1) (\<lambda>ex2. Ok (try_backlog V pr ex2))
              | Panic \<Rightarrow> Panic)))"

partial_function (option) matchmake :: "('o, 'so, 'l, 'q, 'c, 'tx, 'th) engine_env \<Rightarrow> ('o, 'so, 'l, 'q, 'c, 'th) executor \<Rightarrow>
    (unit, ('o, 'so, 'l, 'q, 'c, 'th) executor \<times> ('tx \<times> 'th execution_report option) option) res option" where
  "matchmake V ex =
    (case fs_pop_front (focus ex) of
       (None, fs) \<Rightarrow> Some (Ok (ex\<lparr> focus := fs \<rparr>, None))
     | (Some pr, fs) \<Rightarrow>
         run_bind (matchmake_pair V pr (ex\<lparr> focus := fs \<rparr>)) (\<lambda>(ex', out).
           case out of None \<Rightarrow> matchmake V ex' | Some tx \<Rightarrow> Some (Ok (ex', Some tx))))"


section \<open>Polling\<close>

record ('o, 'so, 'cx) poll_input =
  in_feedback :: "feedback option"
  in_upstream :: "(pair_id \<times> ('o, 'so, 'cx) pair_event) list"
  in_funding :: "'o finalized_tx_out funding_event list"
  state_synced :: bool
  rollback_in_progress :: bool

fun unblocked :: "('o, 'so, 'cx) poll_input \<Rightarrow> blocker \<Rightarrow> bool" where
  "unblocked inp AwaitSynced = state_synced inp"
| "unblocked inp AwaitRolledBack = (\<not> rollback_in_progress inp)"

definition poll_feedback :: "('o, 'so, 'l, 'q, 'c, 'tx, 'th) engine_env \<Rightarrow> ('o, 'so, 'l, 'q, 'c, 'th) executor \<Rightarrow> ('o, 'so, 'cx) poll_input \<Rightarrow>
    (unit, ('o, 'so, 'l, 'q, 'c, 'th) executor \<times> ('o, 'so, 'cx) poll_input) res" where
  "poll_feedback V ex inp =
    (case (pending_effects ex, in_feedback inp) of
       (Some effs, Some fb) \<Rightarrow> and_then (on_feedback V fb effs (ex\<lparr> pending_effects := None \<rparr>)) (\<lambda>ex. Ok (ex, inp\<lparr> in_feedback := None \<rparr>))
     | _ \<Rightarrow> Ok (ex, inp))"

text \<open>
  The loop of \<open>poll_next\<close> up to matchmaking.  The flag of the result tells whether matchmaking follows or the executor waits for a beacon.
\<close>

definition blocker_rank :: "('o, 'so, 'l, 'q, 'c, 'th) executor \<Rightarrow> ('o, 'so, 'cx) poll_input \<Rightarrow> nat" where
  "blocker_rank ex inp =
    (case ex_blocker ex of
       Some b \<Rightarrow> if unblocked inp b then 2 else 0
     | None \<Rightarrow> if state_synced inp \<and> \<not> rollback_in_progress inp then 0 else 1)"

function poll_events :: "('o, 'so, 'l, 'q, 'c, 'tx, 'th) engine_env \<Rightarrow> ('o, 'so, 'l, 'q, 'c, 'th) executor \<Rightarrow> ('o, 'so, 'cx) poll_input \<Rightarrow>
    (unit, bool \<times> ('o, 'so, 'l, 'q, 'c, 'th) executor \<times> ('o, 'so, 'cx) poll_input) res" where
  "poll_events V ex inp =
    (case poll_feedback V ex inp of
       Err e \<Rightarrow> Err e
     | Panic \<Rightarrow> Panic
     | Ok (ex1, inp1) \<Rightarrow>
         (case in_upstream inp1 of
            (pr, event) # us \<Rightarrow> and_then (on_pair_event V pr event ex1) (\<lambda>ex2. poll_events V ex2 (inp1\<lparr> in_upstream := us \<rparr>))
          | [] \<Rightarrow>
              (case in_funding inp1 of
                 event # fs \<Rightarrow> poll_events V (on_funding_event event ex1) (inp1\<lparr> in_funding := fs \<rparr>)
               | [] \<Rightarrow>
                   (case ex_blocker ex1 of
                      Some b \<Rightarrow> if unblocked inp1 b then poll_events V (ex1\<lparr> ex_blocker := None \<rparr>) inp1 else Ok (False, ex1, inp1)
                    | None \<Rightarrow>
                        if \<not> state_synced inp1 then poll_events V (ex1\<lparr> ex_blocker := Some AwaitSynced \<rparr>) inp1
                        else if rollback_in_progress inp1 then poll_events V (ex1\<lparr> ex_blocker := Some AwaitRolledBack \<rparr>) inp1
                        else Ok (True, ex1, inp1)))))"
  by pat_completeness auto

lemma poll_feedback_cases:
  "poll_feedback V ex inp = Ok (ex1, inp1) \<Longrightarrow> inp1 = inp\<lparr> in_feedback := None \<rparr> \<and> in_feedback inp \<noteq> None \<or> ex1 = ex \<and> inp1 = inp"
  by (auto simp: poll_feedback_def and_then_eq_Ok split: option.splits)

termination poll_events
  by (relation "measures [\<lambda>(V, ex, inp). length (in_upstream inp) + length (in_funding inp),
        \<lambda>(V, ex, inp). if in_feedback inp = None then 0 else 1, \<lambda>(V, ex, inp). blocker_rank ex inp]")
    (auto dest!: poll_feedback_cases simp: blocker_rank_def)

declare poll_events.simps [simp del]

definition poll_next :: "('o, 'so, 'l, 'q, 'c, 'tx, 'th) engine_env \<Rightarrow> ('o, 'so, 'l, 'q, 'c, 'th) executor \<Rightarrow> ('o, 'so, 'cx) poll_input \<Rightarrow>
    (unit, ('o, 'so, 'l, 'q, 'c, 'th) executor \<times> ('o, 'so, 'cx) poll_input \<times> ('tx \<times> 'th execution_report option) option) res option" where
  "poll_next V ex inp =
    run_bind (Some (poll_events V ex inp)) (\<lambda>(go, ex1, inp1).
      if go then run_bind (matchmake V ex1) (\<lambda>(ex2, out). Some (Ok (ex2, inp1, out))) else Some (Ok (ex1, inp1, None)))"

end
