(* ===== verification/State_Index_Correct.thy ===== *)
theory State_Index_Correct
  imports State_Index
begin

text \<open>
  The state index refines a table of the last state of every entity in each modality, as long as one version belongs to one entity.
\<close>

section \<open>The abstract table\<close>

type_synonym 'e table = "u8 \<Rightarrow> bytes \<Rightarrow> 'e option"

abbreviation raw :: "('e, 'i, 'v) entity_ops \<Rightarrow> 'e \<Rightarrow> bytes" where
  "raw E e \<equiv> id_bytes E (e_id E e)"

definition table_put :: "('e, 'i, 'v) entity_ops \<Rightarrow> u8 \<Rightarrow> 'e \<Rightarrow> 'e table \<Rightarrow> 'e table" where
  "table_put E p e A = (\<lambda>p' b. if p' = p \<and> b = raw E e then Some e
     else map_option (\<lambda>e'. if e_version E e' = e_version E e then e else e') (A p' b))"

definition table_invalidate :: "('e, 'i, 'v) entity_ops \<Rightarrow> 'v \<Rightarrow> 'e table \<Rightarrow> 'e table" where
  "table_invalidate E ver A = (\<lambda>p b. case A p b of
     Some e \<Rightarrow> if e_version E e = ver \<and> \<not> (p = LAST_CONFIRMED_PREFIX \<and> e_quasi_permanent E e) then None else Some e
   | None \<Rightarrow> None)"

definition table_eliminate :: "('e, 'i, 'v) entity_ops \<Rightarrow> 'i \<Rightarrow> 'e table \<Rightarrow> 'e table" where
  "table_eliminate E i A = (\<lambda>p b. if b = id_bytes E i then None else A p b)"

definition versions_apart :: "('e, 'i, 'v) entity_ops \<Rightarrow> 'e \<Rightarrow> 'e table \<Rightarrow> bool" where
  "versions_apart E e A \<longleftrightarrow> (\<forall>p b e'. A p b = Some e' \<longrightarrow> e_version E e' = e_version E e \<longrightarrow> raw E e' = raw E e)"

definition shown :: "('e, 'v) state_index \<Rightarrow> 'e table" where
  "shown ix = (\<lambda>p b. Option.bind (map_of (si_index ix) (index_key p b)) (map_of (si_store ix)))"

text \<open>Every stored state is stored under its version and bound to its identifier, and every binding leads to a state.\<close>

definition states_ok :: "('e, 'i, 'v) entity_ops \<Rightarrow> ('e, 'v) state_index \<Rightarrow> bool" where
  "states_ok E ix \<longleftrightarrow>
    (\<forall>v e. map_of (si_store ix) v = Some e \<longrightarrow> e_version E e = v \<and>
      (\<exists>p \<in> set ALL_STATE_KEYS. map_of (si_index ix) (index_key p (raw E e)) = Some v)) \<and>
    (\<forall>k v. map_of (si_index ix) k = Some v \<longrightarrow>
      (\<exists>e. map_of (si_store ix) v = Some e \<and> (\<exists>p \<in> set ALL_STATE_KEYS. k = index_key p (raw E e))))"

lemma index_key_eq [simp]: "index_key p b = index_key p' b' \<longleftrightarrow> p = p' \<and> b = b'"
  by (simp add: index_key_def)

lemma states_okD:
  assumes "states_ok E ix"
  shows "map_of (si_store ix) v = Some e \<Longrightarrow> e_version E e = v"
    and "map_of (si_store ix) v = Some e \<Longrightarrow> \<exists>p \<in> set ALL_STATE_KEYS. map_of (si_index ix) (index_key p (raw E e)) = Some v"
    and "map_of (si_index ix) (index_key p b) = Some v \<Longrightarrow>
      \<exists>e. map_of (si_store ix) v = Some e \<and> e_version E e = v \<and> b = raw E e \<and> p \<in> set ALL_STATE_KEYS"
proof -
  show "e_version E e = v" if "map_of (si_store ix) v = Some e" using assms that by (simp add: states_ok_def)
  show "\<exists>p \<in> set ALL_STATE_KEYS. map_of (si_index ix) (index_key p (raw E e)) = Some v" if "map_of (si_store ix) v = Some e"
    using assms that by (simp add: states_ok_def)
  assume "map_of (si_index ix) (index_key p b) = Some v"
  then obtain e p' where "map_of (si_store ix) v = Some e" "p' \<in> set ALL_STATE_KEYS" "index_key p b = index_key p' (raw E e)"
    using assms unfolding states_ok_def by blast
  then show "\<exists>e. map_of (si_store ix) v = Some e \<and> e_version E e = v \<and> b = raw E e \<and> p \<in> set ALL_STATE_KEYS"
    using assms by (auto simp: states_ok_def)
qed

lemma states_okI:
  assumes "\<And>v e. map_of (si_store ix) v = Some e \<Longrightarrow> e_version E e = v"
    and "\<And>v e. map_of (si_store ix) v = Some e \<Longrightarrow> \<exists>p \<in> set ALL_STATE_KEYS. map_of (si_index ix) (index_key p (raw E e)) = Some v"
    and "\<And>k v. map_of (si_index ix) k = Some v \<Longrightarrow> \<exists>e. map_of (si_store ix) v = Some e \<and> (\<exists>p \<in> set ALL_STATE_KEYS. k = index_key p (raw E e))"
  shows "states_ok E ix"
  unfolding states_ok_def using assms by blast

lemma view_bound: "states_ok E ix \<Longrightarrow> map_of (si_index ix) (index_key p b) = Some v \<Longrightarrow>
    \<exists>e. shown ix p b = Some e \<and> map_of (si_store ix) v = Some e \<and> e_version E e = v \<and> b = raw E e \<and> p \<in> set ALL_STATE_KEYS"
  using states_okD(3) [of E ix p b v] by (auto simp: shown_def)

lemma stored_view: "states_ok E ix \<Longrightarrow> map_of (si_store ix) v = Some e \<Longrightarrow> \<exists>p. shown ix p (raw E e) = Some e"
proof -
  assume ok: "states_ok E ix" and s: "map_of (si_store ix) v = Some e"
  obtain p where "map_of (si_index ix) (index_key p (raw E e)) = Some v" using states_okD(2) [OF ok s] by blast
  then have "shown ix p (raw E e) = Some e" using s by (simp add: shown_def)
  then show ?thesis by blast
qed

section \<open>Each operation\<close>

lemma states_ok_new: "states_ok E si_new" "shown si_new = (\<lambda>_ _. None)"
  by (simp_all add: states_ok_def si_new_def shown_def)

text \<open>The version that \<open>put\<close> drops from the store is bound nowhere else.\<close>

lemma put_kept:
  assumes ok: "states_ok E ix" and p: "p \<in> set ALL_STATE_KEYS"
    and v: "map_of (si_index ix) k = Some v" "k \<noteq> index_key p (raw E e)"
  shows "map_of (si_store (si_put E p (e_id E e) e ix)) v = (if v = e_version E e then Some e else map_of (si_store ix) v)"
proof (cases "map_of (si_index ix) (index_key p (raw E e))")
  case None
  then show ?thesis by (simp add: si_put_def Let_def map_of_hm_insert)
next
  case (Some old)
  obtain e1 p1 where k: "k = index_key p1 (raw E e1)" "p1 \<in> set ALL_STATE_KEYS" "map_of (si_store ix) v = Some e1"
    using ok v(1) unfolding states_ok_def by blast
  have "v \<in> set (List.map_filter (\<lambda>q. if q \<noteq> p then map_of (si_index ix) (index_key q (raw E e)) else None) ALL_STATE_KEYS)" if "v = old"
  proof -
    have "raw E e = raw E e1" using states_okD(3) [OF ok Some] k(3) that by auto
    then show ?thesis using k v by (force simp: List.map_filter_def intro!: image_eqI [where x = p1])
  qed
  then show ?thesis using Some by (auto simp: si_put_def Let_def map_of_hm_insert map_of_hm_remove)
qed

lemma put_store:
  "map_of (si_store (si_put E p (e_id E e) e ix)) v = Some e' \<Longrightarrow> v = e_version E e \<and> e' = e \<or> v \<noteq> e_version E e \<and> map_of (si_store ix) v = Some e'"
  by (auto simp: si_put_def Let_def map_of_hm_insert map_of_hm_remove split: if_splits option.splits)

lemma put_index: "map_of (si_index (si_put E p (e_id E e) e ix)) = (map_of (si_index ix))(index_key p (raw E e) \<mapsto> e_version E e)"
  by (simp add: si_put_def Let_def map_of_hm_insert)

lemma put_new: "map_of (si_store (si_put E p (e_id E e) e ix)) (e_version E e) = Some e"
  by (simp add: si_put_def Let_def map_of_hm_insert)

lemma put_view:
  assumes ok: "states_ok E ix" and p: "p \<in> set ALL_STATE_KEYS"
  shows "shown (si_put E p (e_id E e) e ix) = table_put E p e (shown ix)"
proof (intro ext)
  fix p' b
  let ?k = "index_key p' b"
  show "shown (si_put E p (e_id E e) e ix) p' b = table_put E p e (shown ix) p' b"
  proof (cases "?k = index_key p (raw E e) \<or> map_of (si_index ix) ?k = None")
    case True
    then show ?thesis by (auto simp: shown_def table_put_def put_index put_new)
  next
    case False
    then obtain v where v: "map_of (si_index ix) ?k = Some v" by auto
    obtain e' where "shown ix p' b = Some e'" "map_of (si_store ix) v = Some e'" "e_version E e' = v"
      using view_bound [OF ok v] by blast
    then show ?thesis using False v put_kept [OF ok p v] by (auto simp: shown_def table_put_def put_index)
  qed
qed

lemma put_states_ok:
  assumes ok: "states_ok E ix" and p: "p \<in> set ALL_STATE_KEYS" and ap: "versions_apart E e (shown ix)"
  shows "states_ok E (si_put E p (e_id E e) e ix)"
proof (rule states_okI)
  let ?ix = "si_put E p (e_id E e) e ix"
  have same: "raw E e' = raw E e" if "map_of (si_store ix) (e_version E e) = Some e'" for e'
    using stored_view [OF ok that] ap states_okD(1) [OF ok that] by (auto simp: versions_apart_def)
  fix v e' assume s: "map_of (si_store ?ix) v = Some e'"
  then show "e_version E e' = v" using put_store [OF s] states_okD(1) [OF ok] by auto
  show "\<exists>p \<in> set ALL_STATE_KEYS. map_of (si_index ?ix) (index_key p (raw E e')) = Some v"
  proof (cases "v = e_version E e")
    case True
    then show ?thesis using put_store [OF s] p by (auto simp: put_index)
  next
    case False
    then have st: "map_of (si_store ix) v = Some e'" using put_store [OF s] by simp
    obtain q where q: "q \<in> set ALL_STATE_KEYS" "map_of (si_index ix) (index_key q (raw E e')) = Some v" using states_okD(2) [OF ok st] by blast
    show ?thesis
    proof (cases "index_key q (raw E e') = index_key p (raw E e)")
      case True
      then have old: "map_of (si_index ix) (index_key p (raw E e)) = Some v" using q by simp
      then have "v \<in> set (List.map_filter (\<lambda>q. if q \<noteq> p then map_of (si_index ix) (index_key q (raw E e)) else None) ALL_STATE_KEYS)"
        using s False by (auto simp: si_put_def Let_def map_of_hm_insert map_of_hm_remove split: if_splits)
      then obtain q' where "q' \<in> set ALL_STATE_KEYS" "q' \<noteq> p" "map_of (si_index ix) (index_key q' (raw E e)) = Some v"
        by (auto simp: List.map_filter_def split: if_splits)
      then show ?thesis using True by (auto simp: put_index)
    qed (use q in \<open>auto simp: put_index\<close>)
  qed
next
  let ?ix = "si_put E p (e_id E e) e ix"
  fix k v assume i: "map_of (si_index ?ix) k = Some v"
  show "\<exists>e'. map_of (si_store ?ix) v = Some e' \<and> (\<exists>p \<in> set ALL_STATE_KEYS. k = index_key p (raw E e'))"
  proof (cases "k = index_key p (raw E e)")
    case True
    then show ?thesis using i p put_new [of E p e ix] by (auto simp: put_index)
  next
    case False
    then have v: "map_of (si_index ix) k = Some v" using i by (simp add: put_index)
    obtain e1 p1 where e1: "map_of (si_store ix) v = Some e1" "p1 \<in> set ALL_STATE_KEYS" "k = index_key p1 (raw E e1)"
      using ok v unfolding states_ok_def by blast
    then show ?thesis using put_kept [OF ok p v False] stored_view [OF ok e1(1)] states_okD(1) [OF ok e1(1)] ap
      by (auto simp: versions_apart_def)
  qed
qed

lemma map_of_unbind: "map_of (unbind ver key m) k = (if k = key \<and> map_of m key = Some ver then None else map_of m k)"
  by (simp add: unbind_def map_of_hm_remove)

lemma invalidate_maps:
  assumes ok: "states_ok E ix" and e: "map_of (si_store ix) ver = Some e"
  defines "conf \<equiv> map_of (si_index ix) (index_key LAST_CONFIRMED_PREFIX (raw E e)) = Some ver \<and> e_quasi_permanent E e"
  shows "map_of (si_store (fst (invalidate_version E ver ix))) = (if conf then map_of (si_store ix) else (map_of (si_store ix))(ver := None))"
    and "map_of (si_index (fst (invalidate_version E ver ix))) k =
      (if map_of (si_index ix) k = Some ver \<and> \<not> (conf \<and> k = index_key LAST_CONFIRMED_PREFIX (raw E e)) then None else map_of (si_index ix) k)"
proof -
  show "map_of (si_store (fst (invalidate_version E ver ix))) = (if conf then map_of (si_store ix) else (map_of (si_store ix))(ver := None))"
    using e by (auto simp: invalidate_version_def Let_def conf_def map_of_hm_insert map_of_hm_remove fun_upd_idem)
  have "\<exists>p \<in> set ALL_STATE_KEYS. k = index_key p (raw E e)" if "map_of (si_index ix) k = Some ver"
    using ok that e unfolding states_ok_def by fastforce
  then have "k = index_key LAST_CONFIRMED_PREFIX (raw E e) \<or> (\<exists>p \<in> set EPHEMERAL_STATE_KEYS. k = index_key p (raw E e))"
    if "map_of (si_index ix) k = Some ver" using that by (auto simp: ALL_STATE_KEYS_def EPHEMERAL_STATE_KEYS_def)
  then show "map_of (si_index (fst (invalidate_version E ver ix))) k =
      (if map_of (si_index ix) k = Some ver \<and> \<not> (conf \<and> k = index_key LAST_CONFIRMED_PREFIX (raw E e)) then None else map_of (si_index ix) k)"
    using e by (cases "map_of (si_index ix) k = Some ver") (auto simp: invalidate_version_def Let_def conf_def map_of_hm_remove map_of_unbind state_keys)
qed

lemma invalidate_absent: "map_of (si_store ix) ver = None \<Longrightarrow> invalidate_version E ver ix = (ix, None)"
  by (simp add: invalidate_version_def)

lemma invalidate_view:
  assumes ok: "states_ok E ix"
  shows "shown (fst (invalidate_version E ver ix)) = table_invalidate E ver (shown ix)"
proof (intro ext)
  fix p b
  show "shown (fst (invalidate_version E ver ix)) p b = table_invalidate E ver (shown ix) p b"
  proof (cases "map_of (si_index ix) (index_key p b)")
    case None
    then show ?thesis using invalidate_maps(2) [OF ok, of ver _ "index_key p b"] invalidate_absent [of ix ver E]
      by (cases "map_of (si_store ix) ver") (auto simp: shown_def table_invalidate_def)
  next
    case (Some v)
    obtain e' where e': "shown ix p b = Some e'" "map_of (si_store ix) v = Some e'" "e_version E e' = v" "b = raw E e'"
      using view_bound [OF ok Some] by blast
    show ?thesis
    proof (cases "map_of (si_store ix) ver")
      case None
      then show ?thesis using e' by (auto simp: invalidate_absent table_invalidate_def)
    next
      case (Some e)
      then show ?thesis using e' \<open>map_of (si_index ix) (index_key p b) = Some v\<close> invalidate_maps [OF ok Some]
        by (auto simp: shown_def table_invalidate_def)
    qed
  qed
qed

lemma invalidate_states_ok:
  assumes ok: "states_ok E ix"
  shows "states_ok E (fst (invalidate_version E ver ix))"
proof (cases "map_of (si_store ix) ver")
  case None
  then show ?thesis using ok by (simp add: invalidate_absent)
next
  case (Some e)
  note m = invalidate_maps [OF ok Some]
  show ?thesis
  proof (rule states_okI)
    fix v e' assume s: "map_of (si_store (fst (invalidate_version E ver ix))) v = Some e'"
    then have s': "map_of (si_store ix) v = Some e'" using m(1) by (auto split: if_splits)
    then show "e_version E e' = v" by (rule states_okD(1) [OF ok])
    obtain p where p: "p \<in> set ALL_STATE_KEYS" "map_of (si_index ix) (index_key p (raw E e')) = Some v" using states_okD(2) [OF ok s'] by blast
    show "\<exists>p \<in> set ALL_STATE_KEYS. map_of (si_index (fst (invalidate_version E ver ix))) (index_key p (raw E e')) = Some v"
    proof (cases "v = ver")
      case True
      then have "map_of (si_index ix) (index_key LAST_CONFIRMED_PREFIX (raw E e)) = Some ver \<and> e_quasi_permanent E e \<and> e' = e"
        using s s' m(1) Some by (auto split: if_splits)
      then show ?thesis using True m(2) by (auto simp: ALL_STATE_KEYS_def)
    qed (intro bexI [OF _ p(1)], use p(2) m(2) in simp)
  next
    fix k v assume "map_of (si_index (fst (invalidate_version E ver ix))) k = Some v"
    then have i: "map_of (si_index ix) k = Some v" "v = ver \<longrightarrow> map_of (si_index ix) (index_key LAST_CONFIRMED_PREFIX (raw E e)) = Some ver \<and> e_quasi_permanent E e"
      using m(2) [of k] by (auto split: if_splits)
    obtain e1 where "map_of (si_store ix) v = Some e1" "\<exists>p \<in> set ALL_STATE_KEYS. k = index_key p (raw E e1)" using ok i(1) unfolding states_ok_def by blast
    then show "\<exists>e'. map_of (si_store (fst (invalidate_version E ver ix))) v = Some e' \<and> (\<exists>p \<in> set ALL_STATE_KEYS. k = index_key p (raw E e'))"
      using i(2) m(1) by auto
  qed
qed

lemma eliminate_fold:
  fixes ix :: "('e, 'v) state_index"
  defines "step \<equiv> \<lambda>b prefix (ix :: ('e, 'v) state_index). let key = index_key prefix b in case map_of (si_index ix) key of
      Some ver \<Rightarrow> \<lparr> si_store = hm_remove ver (si_store ix), si_index = hm_remove key (si_index ix) \<rparr> | None \<Rightarrow> ix"
  shows "map_of (si_index (fold (step b) ps ix)) k = (if \<exists>p \<in> set ps. k = index_key p b then None else map_of (si_index ix) k) \<and>
    map_of (si_store (fold (step b) ps ix)) v = (if \<exists>p \<in> set ps. map_of (si_index ix) (index_key p b) = Some v then None else map_of (si_store ix) v)"
proof (induction ps arbitrary: ix)
  case (Cons p ps)
  show ?case using Cons.IH [of "step b p ix"]
    by (auto simp: step_def Let_def map_of_hm_remove split: option.splits)
qed simp

lemma eliminate_maps:
  "map_of (si_index (eliminate E i ix)) k = (if \<exists>p \<in> set ALL_STATE_KEYS. k = index_key p (id_bytes E i) then None else map_of (si_index ix) k)"
  "map_of (si_store (eliminate E i ix)) v =
    (if \<exists>p \<in> set ALL_STATE_KEYS. map_of (si_index ix) (index_key p (id_bytes E i)) = Some v then None else map_of (si_store ix) v)"
  using eliminate_fold [of "id_bytes E i" ALL_STATE_KEYS ix] by (simp_all add: eliminate_def)

lemma eliminate_view:
  assumes ok: "states_ok E ix"
  shows "shown (eliminate E i ix) = table_eliminate E i (shown ix)"
proof (intro ext)
  fix p b
  show "shown (eliminate E i ix) p b = table_eliminate E i (shown ix) p b"
  proof (cases "map_of (si_index ix) (index_key p b)")
    case None
    then show ?thesis by (auto simp: shown_def table_eliminate_def eliminate_maps)
  next
    case (Some v)
    obtain e where e: "shown ix p b = Some e" "map_of (si_store ix) v = Some e" "b = raw E e" "p \<in> set ALL_STATE_KEYS" using view_bound [OF ok Some] by blast
    have "b = id_bytes E i" if "map_of (si_index ix) (index_key q (id_bytes E i)) = Some v" for q
      using states_okD(3) [OF ok that] e by auto
    then show ?thesis using Some e by (auto simp: shown_def table_eliminate_def eliminate_maps)
  qed
qed

lemma eliminate_states_ok:
  assumes ok: "states_ok E ix"
  shows "states_ok E (eliminate E i ix)"
proof (rule states_okI)
  fix v e assume s: "map_of (si_store (eliminate E i ix)) v = Some e"
  then have s': "map_of (si_store ix) v = Some e" "\<forall>p \<in> set ALL_STATE_KEYS. map_of (si_index ix) (index_key p (id_bytes E i)) \<noteq> Some v"
    by (auto simp: eliminate_maps split: if_splits)
  then show "e_version E e = v" using states_okD(1) [OF ok] by blast
  show "\<exists>p \<in> set ALL_STATE_KEYS. map_of (si_index (eliminate E i ix)) (index_key p (raw E e)) = Some v"
    using states_okD(2) [OF ok s'(1)] s'(2) by (auto simp: eliminate_maps)
next
  fix k v assume "map_of (si_index (eliminate E i ix)) k = Some v"
  then have k: "map_of (si_index ix) k = Some v" "\<forall>p \<in> set ALL_STATE_KEYS. k \<noteq> index_key p (id_bytes E i)" by (auto simp: eliminate_maps split: if_splits)
  obtain e p where e: "map_of (si_store ix) v = Some e" "p \<in> set ALL_STATE_KEYS" "k = index_key p (raw E e)" using ok k(1) unfolding states_ok_def by blast
  have "id_bytes E i = raw E e" if "map_of (si_index ix) (index_key q (id_bytes E i)) = Some v" for q
    using states_okD(3) [OF ok that] e by auto
  then show "\<exists>e. map_of (si_store (eliminate E i ix)) v = Some e \<and> (\<exists>p \<in> set ALL_STATE_KEYS. k = index_key p (raw E e))"
    using e k(2) by (auto simp: eliminate_maps)
qed

section \<open>The interface of the executor\<close>

text \<open>
  What the executor relies on of a \<open>StateIndex\<close>: its operations act on the table it shows, and it stays consistent
  while every state put into it has a version of its own.
\<close>

definition resolved :: "'e table \<Rightarrow> bytes \<Rightarrow> 'e option" where
  "resolved A b = or_else (A LAST_PREDICTED_PREFIX b) (or_else (A LAST_UNCONFIRMED_PREFIX b)
     (or_else (A FALLBACK_PREFIX b) (A LAST_CONFIRMED_PREFIX b)))"

lemma or_else_eq_Some: "or_else a b = Some x \<longleftrightarrow> a = Some x \<or> a = None \<and> b = Some x"
  by (cases a) auto

lemma or_else_eq_None: "or_else a b = None \<longleftrightarrow> a = None \<and> b = None"
  by (cases a) auto

locale entity_states =
  fixes E :: "('e, 'i, 'v) entity_ops"
    and see :: "'s \<Rightarrow> 'e table"
    and ok :: "'s \<Rightarrow> bool"
    and put :: "u8 \<Rightarrow> 'e \<Rightarrow> 's \<Rightarrow> 's"
    and invalidate :: "'v \<Rightarrow> 's \<Rightarrow> 's"
    and elim :: "'i \<Rightarrow> 's \<Rightarrow> 's"
  assumes see_put: "ok s \<Longrightarrow> p \<in> set ALL_STATE_KEYS \<Longrightarrow> see (put p e s) = table_put E p e (see s)"
    and see_invalidate: "ok s \<Longrightarrow> see (invalidate v s) = table_invalidate E v (see s)"
    and see_elim: "ok s \<Longrightarrow> see (elim i s) = table_eliminate E i (see s)"
    and ok_put: "ok s \<Longrightarrow> p \<in> set ALL_STATE_KEYS \<Longrightarrow> versions_apart E e (see s) \<Longrightarrow> ok (put p e s)"
    and ok_invalidate: "ok s \<Longrightarrow> ok (invalidate v s)"
    and ok_elim: "ok s \<Longrightarrow> ok (elim i s)"
    and see_id: "ok s \<Longrightarrow> see s p b = Some e \<Longrightarrow> raw E e = b"
begin

lemma put_predicted_resolves: "ok s \<Longrightarrow> resolved (see (put LAST_PREDICTED_PREFIX e s)) (raw E e) = Some e"
  by (simp add: see_put ALL_STATE_KEYS_def resolved_def table_put_def)

text \<open>Operations on one entity leave the others alone.\<close>

lemma put_elsewhere:
  assumes "ok s" "p \<in> set ALL_STATE_KEYS" "versions_apart E e (see s)" "b \<noteq> raw E e"
  shows "see (put p e s) p' b = see s p' b"
proof (cases "see s p' b")
  case (Some e')
  have "e_version E e' \<noteq> e_version E e" using Some assms(3,4) see_id [OF assms(1) Some] by (auto simp: versions_apart_def)
  then show ?thesis using Some assms by (simp add: see_put table_put_def)
qed (use assms in \<open>simp add: see_put table_put_def\<close>)

lemma resolve_put_elsewhere:
  "ok s \<Longrightarrow> p \<in> set ALL_STATE_KEYS \<Longrightarrow> versions_apart E e (see s) \<Longrightarrow> b \<noteq> raw E e \<Longrightarrow> resolved (see (put p e s)) b = resolved (see s) b"
  by (simp add: resolved_def put_elsewhere)

lemma elim_resolves: "ok s \<Longrightarrow> resolved (see (elim i s)) b = (if b = id_bytes E i then None else resolved (see s) b)"
  by (simp add: see_elim resolved_def table_eliminate_def)

text \<open>An invalidated version resolves only as the confirmed state of a quasi-permanent entity.\<close>

lemma invalidate_resolves:
  assumes "ok s" "resolved (see (invalidate v s)) b = Some e" "e_version E e = v"
  shows "e_quasi_permanent E e \<and> see s LAST_CONFIRMED_PREFIX b = Some e"
  using assms by (auto simp: see_invalidate resolved_def table_invalidate_def or_else_eq_Some state_keys split: option.splits if_splits)

end

interpretation mem_index: entity_states E shown "states_ok E" "\<lambda>p e. si_put E p (e_id E e) e" "\<lambda>v ix. fst (invalidate_version E v ix)" "eliminate E"
  for E :: "('e, 'i, 'v) entity_ops"
proof
  fix s p b and e :: 'e
  assume "states_ok E s" "shown s p b = Some e"
  then show "raw E e = b"
    by (auto simp: shown_def Option.bind_eq_Some_conv dest: states_okD(3))
qed (simp_all add: put_view invalidate_view eliminate_view put_states_ok invalidate_states_ok eliminate_states_ok)

lemma resolve_view: "resolve_state E i ix = resolved (shown ix) (id_bytes E i)"
  by (simp add: resolve_state_def resolved_def get_last_confirmed_def get_last_unconfirmed_def get_last_predicted_def get_fallback_def
      si_get_def shown_def)

section \<open>Refinement\<close>

datatype ('e, 'i, 'v) index_op = PutConfirmed 'e | PutUnconfirmed 'e | PutPredicted 'e | PutFallback 'e | InvalidateVersion 'v | EliminateId 'i

fun apply_index_op :: "('e, 'i, 'v) entity_ops \<Rightarrow> ('e, 'i, 'v) index_op \<Rightarrow> ('e, 'v) state_index \<Rightarrow> ('e, 'v) state_index" where
  "apply_index_op E (PutConfirmed e) ix = put_confirmed E e ix"
| "apply_index_op E (PutUnconfirmed e) ix = put_unconfirmed E e ix"
| "apply_index_op E (PutPredicted e) ix = put_predicted E e ix"
| "apply_index_op E (PutFallback e) ix = put_fallback E e ix"
| "apply_index_op E (InvalidateVersion v) ix = fst (invalidate_version E v ix)"
| "apply_index_op E (EliminateId i) ix = eliminate E i ix"

fun table_op :: "('e, 'i, 'v) entity_ops \<Rightarrow> ('e, 'i, 'v) index_op \<Rightarrow> 'e table \<Rightarrow> 'e table" where
  "table_op E (PutConfirmed e) A = table_put E LAST_CONFIRMED_PREFIX e A"
| "table_op E (PutUnconfirmed e) A = table_put E LAST_UNCONFIRMED_PREFIX e A"
| "table_op E (PutPredicted e) A = table_put E LAST_PREDICTED_PREFIX e A"
| "table_op E (PutFallback e) A = table_put E FALLBACK_PREFIX e A"
| "table_op E (InvalidateVersion v) A = table_invalidate E v A"
| "table_op E (EliminateId i) A = table_eliminate E i A"

fun op_apart :: "('e, 'i, 'v) entity_ops \<Rightarrow> ('e, 'i, 'v) index_op \<Rightarrow> 'e table \<Rightarrow> bool" where
  "op_apart E (InvalidateVersion _) A \<longleftrightarrow> True"
| "op_apart E (EliminateId _) A \<longleftrightarrow> True"
| "op_apart E (PutConfirmed e) A \<longleftrightarrow> versions_apart E e A"
| "op_apart E (PutUnconfirmed e) A \<longleftrightarrow> versions_apart E e A"
| "op_apart E (PutPredicted e) A \<longleftrightarrow> versions_apart E e A"
| "op_apart E (PutFallback e) A \<longleftrightarrow> versions_apart E e A"

fun ops_apart :: "('e, 'i, 'v) entity_ops \<Rightarrow> ('e, 'i, 'v) index_op list \<Rightarrow> 'e table \<Rightarrow> bool" where
  "ops_apart E [] A \<longleftrightarrow> True"
| "ops_apart E (opr # oprs) A \<longleftrightarrow> op_apart E opr A \<and> ops_apart E oprs (table_op E opr A)"

lemma index_op_step:
  "states_ok E ix \<Longrightarrow> op_apart E op (shown ix) \<Longrightarrow>
    states_ok E (apply_index_op E op ix) \<and> shown (apply_index_op E op ix) = table_op E op (shown ix)"
  by (cases op) (simp_all add: put_confirmed_def put_unconfirmed_def put_predicted_def put_fallback_def ALL_STATE_KEYS_def
      mem_index.see_put mem_index.ok_put mem_index.see_invalidate mem_index.ok_invalidate mem_index.see_elim mem_index.ok_elim)

lemma index_ops_run:
  "states_ok E ix \<Longrightarrow> ops_apart E oprs (shown ix) \<Longrightarrow>
    states_ok E (fold (apply_index_op E) oprs ix) \<and> shown (fold (apply_index_op E) oprs ix) = fold (table_op E) oprs (shown ix)"
  by (induction oprs arbitrary: ix) (simp_all add: index_op_step)

text \<open>
  C19. The state index refines the table of the last state of each entity in each modality.  Along every sequence of operations from the empty index
  in which no two entities share a version, the index shows exactly the table the operations describe, resolves an entity to its predicted, else
  unconfirmed, else fallback, else confirmed state, and stores no state that is not bound.
\<close>

theorem state_index_refines_table:
  assumes "ops_apart E oprs (\<lambda>_ _. None)"
  shows "let ix = fold (apply_index_op E) oprs si_new; A = fold (table_op E) oprs (\<lambda>_ _. None) in
    shown ix = A \<and> resolve_state E i ix = resolved A (id_bytes E i) \<and>
    (\<forall>v e. get_state v ix = Some e \<longrightarrow> e_version E e = v \<and> (\<exists>p. A p (id_bytes E (e_id E e)) = Some e))"
proof -
  have "ops_apart E oprs (shown si_new)" using assms by (simp add: states_ok_new)
  then have run: "states_ok E (fold (apply_index_op E) oprs si_new)"
      "shown (fold (apply_index_op E) oprs si_new) = fold (table_op E) oprs (\<lambda>_ _. None)"
    using index_ops_run [OF states_ok_new(1), of E oprs] by (simp_all add: states_ok_new)
  then show ?thesis using stored_view [OF run(1)] by (auto simp: Let_def resolve_view get_state_def dest: states_okD(1))
qed

definition sample_entity :: "(u8 \<times> u64, u8, u64) entity_ops" where
  "sample_entity = \<lparr> e_id = fst, e_version = snd, e_quasi_permanent = (\<lambda>e. fst e = 1), id_bytes = (\<lambda>i. [i]) \<rparr>"

theorem state_index_refines_table_witness:
  "resolve_state sample_entity 1 (fold (apply_index_op sample_entity)
     [PutUnconfirmed (1, 7), PutConfirmed (1, 7), PutPredicted (1, 8), PutUnconfirmed (1, 8), InvalidateVersion 8] si_new) = Some (1, 7)"
proof -
  let ?ops = "[PutUnconfirmed (1, 7), PutConfirmed (1, 7), PutPredicted (1, 8), PutUnconfirmed (1, 8), InvalidateVersion 8]"
  have "ops_apart sample_entity ?ops (\<lambda>_ _. None)"
    by (auto simp: sample_entity_def versions_apart_def table_put_def split: if_splits)
  from state_index_refines_table [OF this, of 1] show ?thesis
    by (simp add: Let_def sample_entity_def resolved_def table_put_def table_invalidate_def state_keys)
qed

text \<open>Two entities with one version: the first resolves to the second.\<close>

lemma shared_version_resolves:
  assumes "e_version E a = e_version E b" "raw E a \<noteq> raw E b"
  shows "resolve_state E (e_id E a) (put_predicted E b (put_predicted E a ix)) = Some b"
  using assms put_new [of E LAST_PREDICTED_PREFIX b]
  by (simp add: resolve_view resolved_def shown_def put_predicted_def put_index)

end
