(* ===== verification/Engine_Inv.thy ===== *)
theory Engine_Inv
  imports Engine State_Index_Correct Book_Wellformed
begin

text \<open>
  The invariant of the executor.  A consistent executor (\<open>engine_ok\<close>) has reachable books of which only that of the pending recipe may be open,
  a state index that agrees with the kinds of its outputs and identifiers, a focus set without duplicates, and a funding pool in order;
  \<open>quiet\<close> adds that nothing is pending.  Every handler, matchmaking and one poll keep it, and none of the handlers panics.  \<open>engine_run\<close> are
  the states the executor reaches when the answer to a transaction is there before the next poll.
\<close>

declare split_paired_All [simp del] split_paired_Ex [simp del]

section \<open>Entities that fit\<close>

text \<open>
  An output is an account or a pool, never both, and the identifiers of orders and pools are apart: \<open>kv\<close> and \<open>kb\<close> tell the outputs and the
  identifiers of orders.  A fitting entity agrees with them, and has a price if it is an order.
\<close>

fun priced :: "baked \<Rightarrow> bool" where
  "priced (Inl (ord, _)) \<longleftrightarrow> go_price ord \<noteq> Panic"
| "priced (Inr _) \<longleftrightarrow> True"

definition entity_fits :: "(output_ref \<Rightarrow> bool) \<Rightarrow> (bytes \<Rightarrow> bool) \<Rightarrow> (bytes \<Rightarrow> bytes) \<Rightarrow> 'o ent \<Rightarrow> bool" where
  "entity_fits kv kb H e \<longleftrightarrow> isl (fst e) = kv (entity_version e) \<and> isl (fst e) = kb (raw (agent_entity H) e) \<and> priced (fst e)"

definition index_fits :: "(output_ref \<Rightarrow> bool) \<Rightarrow> (bytes \<Rightarrow> bool) \<Rightarrow> (bytes \<Rightarrow> bytes) \<Rightarrow> ('o ent, output_ref) state_index \<Rightarrow> bool" where
  "index_fits kv kb H ix \<longleftrightarrow>
    (\<forall>v e. map_of (si_store ix) v = Some e \<longrightarrow> entity_version e = v \<and> isl (fst e) = kv v \<and> priced (fst e)) \<and>
    (\<forall>p b v. map_of (si_index ix) (index_key p b) = Some v \<longrightarrow> kv v = kb b)"

lemma index_fitsD:
  assumes "index_fits kv kb H ix"
  shows "map_of (si_store ix) v = Some e \<Longrightarrow> entity_version e = v" "map_of (si_store ix) v = Some e \<Longrightarrow> isl (fst e) = kv v"
    "map_of (si_store ix) v = Some e \<Longrightarrow> priced (fst e)" "map_of (si_index ix) (index_key p b) = Some v \<Longrightarrow> kv v = kb b"
  using assms unfolding index_fits_def by blast+

lemma agent_entity_sel [simp]: "e_version (agent_entity H) = entity_version" "id_bytes (agent_entity H) = token_to_array"
  "e_quasi_permanent (agent_entity H) e \<longleftrightarrow> \<not> isl (fst e)"
  by (cases "fst e"; auto simp: agent_entity_def)+

lemma index_fits_new: "index_fits kv kb H si_new"
  by (simp add: index_fits_def si_new_def)

lemma index_fits_put:
  assumes "index_fits kv kb H ix" "entity_fits kv kb H e"
  shows "index_fits kv kb H (si_put (agent_entity H) p (e_id (agent_entity H) e) e ix)"
  using assms put_index [of "agent_entity H" p e ix]
  by (auto simp: index_fits_def entity_fits_def dest!: put_store split: if_splits)

lemma invalidate_sub:
  "map_of (si_store (fst (invalidate_version E ver ix))) v = Some e \<Longrightarrow> map_of (si_store ix) v = Some e"
  "v \<noteq> ver \<Longrightarrow> map_of (si_store (fst (invalidate_version E ver ix))) v = map_of (si_store ix) v"
  "map_of (si_index (fst (invalidate_version E ver ix))) k = Some v \<Longrightarrow> map_of (si_index ix) k = Some v"
  by (auto simp: invalidate_version_def Let_def map_of_hm_insert map_of_hm_remove EPHEMERAL_STATE_KEYS_def map_of_unbind split: option.splits if_splits)

lemma index_fits_invalidate: "index_fits kv kb H ix \<Longrightarrow> index_fits kv kb H (fst (invalidate_version E ver ix))"
  unfolding index_fits_def using invalidate_sub(1,3) [of E ver ix] by blast

lemma index_fits_eliminate: "index_fits kv kb H ix \<Longrightarrow> index_fits kv kb H (eliminate E i ix)"
  unfolding index_fits_def by (auto simp: eliminate_maps split: if_splits)

lemma resolve_fits:
  assumes "index_fits kv kb H ix" "resolve_state E i ix = Some e"
  shows "map_of (si_store ix) (entity_version e) = Some e" "isl (fst e) = kb (id_bytes E i)" "priced (fst e)"
proof -
  obtain p v where "map_of (si_index ix) (index_key p (id_bytes E i)) = Some v" "map_of (si_store ix) v = Some e"
    using assms(2) by (auto simp: resolve_view resolved_def or_else_eq_Some shown_def Option.bind_eq_Some_conv)
  then have "entity_version e = v" "isl (fst e) = kv v" "priced (fst e)" "kv v = kb (id_bytes E i)" "map_of (si_store ix) v = Some e"
    using index_fitsD [OF assms(1)] by blast+
  then show "map_of (si_store ix) (entity_version e) = Some e" "isl (fst e) = kb (id_bytes E i)" "priced (fst e)" by simp_all
qed

text \<open>A transition between two states an identifier resolves to keeps the kind.\<close>

fun transition_fits :: "(baked, baked) ior \<Rightarrow> bool" where
  "transition_fits (IorLeft a) \<longleftrightarrow> True"
| "transition_fits (IorRight b) \<longleftrightarrow> priced b"
| "transition_fits (IorBoth a b) \<longleftrightarrow> isl a = isl b \<and> priced b"

lemma to_transition_fits:
  assumes "index_fits kv kb H ix" "index_fits kv kb H ix'" "to_transition (resolve_state E i ix) (resolve_state E i ix') = Some tr"
  shows "transition_fits tr"
  using assms(3) resolve_fits [OF assms(1), of E i] resolve_fits [OF assms(2), of E i]
  by (cases "resolve_state E i ix"; cases "resolve_state E i ix'") auto

lemma put_observed_fits: "index_fits kv kb H ix \<Longrightarrow> entity_fits kv kb H e \<Longrightarrow> index_fits kv kb H (put_observed (agent_entity H) ch e ix)"
  by (simp add: put_observed_def put_confirmed_def put_unconfirmed_def put_predicted_def index_fits_put)

text \<open>What the index keeps of an observed transition fits: the new state, and a state that left the ledger.\<close>

fun event_fits :: "('o ent \<Rightarrow> bool) \<Rightarrow> bool \<Rightarrow> 'o ent transition \<Rightarrow> bool" where
  "event_fits P ledger (Forward (IorLeft e)) \<longleftrightarrow> (ledger \<longrightarrow> P e)"
| "event_fits P ledger (Forward (IorRight e)) \<longleftrightarrow> P e"
| "event_fits P ledger (Forward (IorBoth _ e)) \<longleftrightarrow> P e"
| "event_fits P ledger (Backward (IorLeft e)) \<longleftrightarrow> (ledger \<longrightarrow> P e)"
| "event_fits P ledger (Backward (IorRight e)) \<longleftrightarrow> P e"
| "event_fits P ledger (Backward (IorBoth _ e)) \<longleftrightarrow> P e"

definition update_fits :: "('o ent \<Rightarrow> bool) \<Rightarrow> ('o ent transition, 'cx) chan \<Rightarrow> bool" where
  "update_fits P upd = event_fits P (is_ledger upd) (chan_erased upd)"

section \<open>Updates of the index\<close>

lemma update_to_fits:
  assumes "index_fits kv kb (en_hash V) (ex_index ex)" "entity_fits kv kb (en_hash V) e" "update_to V upd rb e ex = (ex', tr)"
  shows "\<exists>ix f. ex' = ex\<lparr> ex_index := ix, skip_filter := f \<rparr> \<and> index_fits kv kb (en_hash V) ix \<and> (\<forall>t. tr = Some t \<longrightarrow> transition_fits t)"
proof (cases "cf_contains (skip_filter ex) (entity_version e) \<and> \<not> is_rollback (chan_erased upd)")
  case True
  then have "ex' = ex\<lparr> ex_index := ex_index ex', skip_filter := skip_filter ex \<rparr>" "index_fits kv kb (en_hash V) (ex_index ex')" "tr = None"
    using assms by (auto simp: update_to_def Let_def put_confirmed_def put_fallback_def index_fits_put)
  then show ?thesis by blast
next
  case False
  let ?E = "en_entity V"
  let ?ix = "case rb of Some st \<Rightarrow> fst (invalidate_version ?E (entity_version st) (ex_index ex)) | None \<Rightarrow> ex_index ex"
  let ?f = "if cf_contains (skip_filter ex) (entity_version e) then cf_remove (entity_version e) (skip_filter ex) else skip_filter ex"
  have ix: "index_fits kv kb (en_hash V) (put_observed ?E upd e ?ix)"
    using assms(1,2) by (auto intro!: put_observed_fits index_fits_invalidate split: option.splits)
  have u: "ex' = ex\<lparr> ex_index := put_observed ?E upd e ?ix, skip_filter := ?f \<rparr>"
    "tr = to_transition (resolve_state ?E (e_id ?E e) (ex_index ex)) (resolve_state ?E (e_id ?E e) (put_observed ?E upd e ?ix))"
    using False assms(3) by (cases rb; auto simp: update_to_def Let_def split: if_splits)+
  have "\<forall>t. tr = Some t \<longrightarrow> transition_fits t" using to_transition_fits [OF assms(1) ix] u(2) by metis
  with u(1) ix show ?thesis by metis
qed

lemma update_gone_fits:
  assumes "index_fits kv kb (en_hash V) (ex_index ex)" "is_ledger upd \<longrightarrow> entity_fits kv kb (en_hash V) e" "update_gone V upd e ex = (ex', tr)"
  shows "\<exists>ix f. ex' = ex\<lparr> ex_index := ix, skip_filter := f \<rparr> \<and> index_fits kv kb (en_hash V) ix \<and> (\<forall>t. tr = Some t \<longrightarrow> transition_fits t)"
proof -
  let ?E = "en_entity V" let ?ix = "fst (invalidate_version ?E (entity_version e) (ex_index ex))"
  have ix: "index_fits kv kb (en_hash V) ?ix" using assms(1) by (rule index_fits_invalidate)
  note tr = to_transition_fits [OF assms(1) ix, of ?E "e_id ?E e"]
  show ?thesis
    using assms ix tr
    by (intro exI [of _ "ex_index ex'"] exI [of _ "skip_filter ex"]) (auto simp: update_gone_def Let_def put_fallback_def index_fits_put index_fits_eliminate split: if_splits)
qed

lemma update_state_fits:
  assumes "index_fits kv kb (en_hash V) (ex_index ex)" "update_fits (entity_fits kv kb (en_hash V)) upd" "update_state V upd ex = (ex', tr)"
  shows "\<exists>ix f. ex' = ex\<lparr> ex_index := ix, skip_filter := f \<rparr> \<and> index_fits kv kb (en_hash V) ix \<and> (\<forall>t. tr = Some t \<longrightarrow> transition_fits t)"
proof -
  note g = update_gone_fits [OF assms(1)]
  note t = update_to_fits [OF assms(1)]
  obtain x where "chan_erased upd = x" by simp
  then show ?thesis using assms(2,3) g t
    by (cases "(\<lambda>_ :: 'a ent. True, True, x)" rule: event_fits.cases) (simp_all add: update_state_def update_fits_def)
qed

section \<open>Books of the pairs\<close>

lemma book_of_simps [simp]:
  "book_of V pr (set_book pr' b ex) = (if pr = pr' then b else book_of V pr ex)"
  "book_of V pr (ex\<lparr> ex_index := ix \<rparr>) = book_of V pr ex" "book_of V pr (ex\<lparr> skip_filter := f \<rparr>) = book_of V pr ex"
  "book_of V pr (ex\<lparr> focus := fs \<rparr>) = book_of V pr ex" "book_of V pr (ex\<lparr> funding_pool := p \<rparr>) = book_of V pr ex"
  "book_of V pr (ex\<lparr> pending_effects := e \<rparr>) = book_of V pr ex" "book_of V pr (ex\<lparr> ex_context := c \<rparr>) = book_of V pr ex"
  "book_of V pr (ex\<lparr> multi_backlog := l \<rparr>) = book_of V pr ex" "book_of V pr (ex\<lparr> ex_blocker := w \<rparr>) = book_of V pr ex"
  "book_of V pr (ex\<lparr> status_sent := s \<rparr>) = book_of V pr ex" "book_of V pr (ex\<lparr> last_engine_status := t \<rparr>) = book_of V pr ex"
  by (simp_all add: book_of_def set_book_def map_of_hm_insert)

lemma hm_insert_twice: "hm_insert k v (hm_insert k w m) = hm_insert k v m"
  by (induction m) auto

lemma set_book_twice [simp]: "set_book pr b (set_book pr c ex) = set_book pr b ex"
  by (simp add: set_book_def hm_insert_twice)

lemma set_book_sel [simp]:
  "ex_index (set_book pr b ex) = ex_index ex" "pending_effects (set_book pr b ex) = pending_effects ex" "focus (set_book pr b ex) = focus ex"
  "skip_filter (set_book pr b ex) = skip_filter ex" "funding_pool (set_book pr b ex) = funding_pool ex" "ex_context (set_book pr b ex) = ex_context ex"
  "multi_backlog (set_book pr b ex) = multi_backlog ex" "ex_blocker (set_book pr b ex) = ex_blocker ex"
  by (simp_all add: set_book_def)

lemma set_backlog_sel [simp]:
  "ex_index (set_backlog pr l ex) = ex_index ex" "pending_effects (set_backlog pr l ex) = pending_effects ex" "focus (set_backlog pr l ex) = focus ex"
  "skip_filter (set_backlog pr l ex) = skip_filter ex" "funding_pool (set_backlog pr l ex) = funding_pool ex" "book_of V pr' (set_backlog pr l ex) = book_of V pr' ex"
  by (simp_all add: set_backlog_def)

definition book_run :: "('o, 'so, 'l, 'q, 'c, 'tx, 'th) engine_env \<Rightarrow> book \<Rightarrow> bool" where
  "book_run V = green_run (en_hash V) (en_curve V) (en_conf V)"

fun event_priced :: "(green_order, royalty_pool) book_event \<Rightarrow> bool" where
  "event_priced (UpdateTaker ord) \<longleftrightarrow> go_price ord \<noteq> Panic"
| "event_priced _ \<longleftrightarrow> True"

lemma book_event_ok:
  assumes "book_run V (book_of V pr ex)" "settled (book_of V pr ex)" "event_priced e"
  shows "\<exists>b. book_event V pr e ex = Ok (set_book pr b ex) \<and> settled b \<and> book_run V b"
proof -
  obtain b where b: "apply_event (en_taker V) (en_maker V) e (book_of V pr ex) = Ok b" "settled b" using settled_event [OF assms(2)] by blast
  have "book_run V b" using assms(1,3) b(1) unfolding book_run_def by (cases e) (auto intro: green_run.event)
  with b show ?thesis by (auto simp: book_event_def)
qed

lemma sync_book_ok:
  assumes b: "book_run V (book_of V pr ex)" "settled (book_of V pr ex)" and t: "transition_fits tr"
  shows "\<exists>b. sync_book V pr tr ex = Ok (set_book pr b ex) \<and> settled b \<and> book_run V b"
proof -
  note e = book_event_ok [OF b]
  have two: "\<exists>b. and_then (book_event V pr (RemoveTaker old) ex) (book_event V pr (UpdateTaker new)) = Ok (set_book pr b ex) \<and> settled b \<and> book_run V b"
    if "go_price new \<noteq> Panic" for old new
  proof -
    obtain b where b: "book_event V pr (RemoveTaker old) ex = Ok (set_book pr b ex)" "settled b" "book_run V b" using e [of "RemoveTaker old"] by auto
    then show ?thesis using book_event_ok [of V pr "set_book pr b ex" "UpdateTaker new"] that by auto
  qed
  show ?thesis using t e two by (cases "(V, pr, tr, ex)" rule: sync_book.cases) (auto simp: isl_def)
qed

section \<open>Consistent executors\<close>

fun effect_fits :: "('o ent \<Rightarrow> bool) \<Rightarrow> ('o ent, 'o ent) exec_eff \<Rightarrow> bool" where
  "effect_fits P (Updated k u) \<longleftrightarrow> P u"
| "effect_fits P (Eliminated k) \<longleftrightarrow> True"

fun effects_fit :: "('o ent \<Rightarrow> bool) \<Rightarrow> ('o, 'so) execution_effects \<Rightarrow> bool" where
  "effects_fit P (FromLiquidityBook effs) \<longleftrightarrow> (\<forall>eff \<in> set effs. effect_fits P eff)"
| "effects_fit P (FromBacklog (pool, bearer) _) \<longleftrightarrow> P (Inr pool, bearer)"

fun from_book :: "('o, 'so) execution_effects \<Rightarrow> bool" where
  "from_book (FromLiquidityBook _) \<longleftrightarrow> True"
| "from_book (FromBacklog _ _) \<longleftrightarrow> False"

definition books_ok :: "('o, 'so, 'l, 'q, 'c, 'tx, 'th) engine_env \<Rightarrow> pair_id set \<Rightarrow> ('o, 'so, 'l, 'q, 'c, 'th) executor \<Rightarrow> bool" where
  "books_ok V opened ex \<longleftrightarrow> (\<forall>pr. book_run V (book_of V pr ex) \<and> (settled (book_of V pr ex) \<or> pr \<in> opened))"

definition focus_ok :: "'p focus_set \<Rightarrow> bool" where
  "focus_ok s \<longleftrightarrow> distinct (fs_queue s) \<and> fs_filter s = set (fs_queue s)"

text \<open>
  With nothing pending every book is settled.  While a recipe is pending, only the book it came from may be open, its effects fit and the versions it
  consumes are in the index.
\<close>

definition pending_ok :: "('o ent \<Rightarrow> bool) \<Rightarrow> ('o, 'so, 'l, 'q, 'c, 'th) executor \<Rightarrow> bool" where
  "pending_ok P ex \<longleftrightarrow> (\<forall>effs. pending_effects ex = Some effs \<longrightarrow> effects_fit P (ep_effects (ef_execution effs)) \<and>
     finite (consumed_versions (ef_execution effs)) \<and>
     (from_book (ep_effects (ef_execution effs)) \<longrightarrow> consumed_versions (ef_execution effs) \<subseteq> dom (map_of (si_store (ex_index ex)))))"

definition opened :: "('o, 'so, 'l, 'q, 'c, 'th) executor \<Rightarrow> pair_id set" where
  "opened ex = (case pending_effects ex of
     Some effs \<Rightarrow> if from_book (ep_effects (ef_execution effs)) then {ep_pair (ef_execution effs)} else {} | None \<Rightarrow> {})"

definition engine_ok :: "('o, 'so, 'l, 'q, 'c, 'tx, 'th) engine_env \<Rightarrow> (output_ref \<Rightarrow> bool) \<Rightarrow> (bytes \<Rightarrow> bool) \<Rightarrow>
    ('o, 'so, 'l, 'q, 'c, 'th) executor \<Rightarrow> bool" where
  "engine_ok V kv kb ex \<longleftrightarrow> books_ok V (opened ex) ex \<and> index_fits kv kb (en_hash V) (ex_index ex) \<and> focus_ok (focus ex) \<and>
     bs_ok reference (funding_pool ex) \<and> pending_ok (entity_fits kv kb (en_hash V)) ex"

text \<open>A consistent executor with nothing pending.\<close>

definition quiet :: "('o, 'so, 'l, 'q, 'c, 'tx, 'th) engine_env \<Rightarrow> (output_ref \<Rightarrow> bool) \<Rightarrow> (bytes \<Rightarrow> bool) \<Rightarrow> ('o, 'so, 'l, 'q, 'c, 'th) executor \<Rightarrow> bool" where
  "quiet V kv kb ex \<longleftrightarrow> pending_effects ex = None \<and> books_ok V {} ex \<and> index_fits kv kb (en_hash V) (ex_index ex) \<and> focus_ok (focus ex) \<and>
     bs_ok reference (funding_pool ex)"

lemma quiet_engine: "quiet V kv kb ex \<longleftrightarrow> engine_ok V kv kb ex \<and> pending_effects ex = None"
  by (auto simp: quiet_def engine_ok_def opened_def pending_ok_def)

lemma focus_ok_push: "focus_ok s \<Longrightarrow> focus_ok (fs_push_back a s)"
  by (auto simp: focus_ok_def fs_push_back_def)

lemma focus_ok_pop: "focus_ok s \<Longrightarrow> fs_pop_front s = (r, s') \<Longrightarrow> focus_ok s'"
  by (auto simp: focus_ok_def fs_pop_front_def split: list.splits)

lemma quiet_new: "quiet V kv kb (executor_new V c)"
  by (auto simp: quiet_def executor_new_def books_ok_def book_of_def book_run_def tlb_new_def index_fits_new focus_ok_def fs_new_def bs_ok_Nil
      intro: green_run.start [unfolded tlb_new_def])

lemma books_ok_set: "books_ok V P ex \<Longrightarrow> settled b \<Longrightarrow> book_run V b \<Longrightarrow> books_ok V (P - {pr}) (set_book pr b ex)"
  by (auto simp: books_ok_def)

lemma quiet_set_book: "quiet V kv kb ex \<Longrightarrow> settled b \<Longrightarrow> book_run V b \<Longrightarrow> quiet V kv kb (set_book pr b ex)"
  using books_ok_set [of V "{}" ex b pr] by (simp add: quiet_def)

lemma quiet_upd:
  "quiet V kv kb ex \<Longrightarrow> index_fits kv kb (en_hash V) ix \<Longrightarrow> quiet V kv kb (ex\<lparr> ex_index := ix, skip_filter := f \<rparr>)"
  "quiet V kv kb ex \<Longrightarrow> quiet V kv kb (ex\<lparr> skip_filter := f \<rparr>)"
  "quiet V kv kb ex \<Longrightarrow> focus_ok fs \<Longrightarrow> quiet V kv kb (ex\<lparr> focus := fs \<rparr>)"
  "quiet V kv kb ex \<Longrightarrow> bs_ok reference p \<Longrightarrow> quiet V kv kb (ex\<lparr> funding_pool := p \<rparr>)"
  "quiet V kv kb ex \<Longrightarrow> quiet V kv kb (ex\<lparr> ex_blocker := w \<rparr>)"
  "quiet V kv kb ex \<Longrightarrow> quiet V kv kb (set_backlog pr l ex)"
  "quiet V kv kb ex \<Longrightarrow> quiet V kv kb (try_send_engine_status st ex)"
  by (simp_all add: quiet_def books_ok_def try_send_engine_status_def)

lemma quiet_book: "quiet V kv kb ex \<Longrightarrow> book_run V (book_of V pr ex) \<and> settled (book_of V pr ex)"
  by (simp add: quiet_def books_ok_def)

lemma quietD:
  assumes "quiet V kv kb ex"
  shows "pending_effects ex = None" "index_fits kv kb (en_hash V) (ex_index ex)" "focus_ok (focus ex)" "bs_ok reference (funding_pool ex)"
  using assms by (simp_all add: quiet_def)

lemma quiet_push: "quiet V kv kb ex \<Longrightarrow> quiet V kv kb (ex\<lparr> focus := fs_push_back pr (focus ex) \<rparr>)"
  by (rule quiet_upd(3) [OF _ focus_ok_push]) (auto dest: quietD)

section \<open>Handlers of a quiet executor\<close>

lemma sync_update_quiet:
  assumes q: "quiet V kv kb ex" and u: "update_state V upd ex = (ex1, tr)" and e: "update_fits (entity_fits kv kb (en_hash V)) upd"
  shows "\<exists>ex'. sync_update V pr (update_state V upd ex) = Ok ex' \<and> quiet V kv kb ex'" "quiet V kv kb ex1"
proof -
  have "index_fits kv kb (en_hash V) (ex_index ex)" using q by (simp add: quiet_def)
  from update_state_fits [OF this e u] obtain ix f where ix: "ex1 = ex\<lparr> ex_index := ix, skip_filter := f \<rparr>"
      "index_fits kv kb (en_hash V) ix" "\<forall>t. tr = Some t \<longrightarrow> transition_fits t" by blast
  show q1: "quiet V kv kb ex1" unfolding ix(1) by (rule quiet_upd(1) [OF q ix(2)])
  show "\<exists>ex'. sync_update V pr (update_state V upd ex) = Ok ex' \<and> quiet V kv kb ex'"
  proof (cases tr)
    case (Some t)
    then show ?thesis using sync_book_ok [of V pr ex1 t] quiet_book [OF q1, of pr] ix(3) quiet_set_book [OF q1, of _ pr]
      by (auto simp: sync_update_def u)
  qed (use q1 u in \<open>simp add: sync_update_def\<close>)
qed

fun input_fits :: "('o ent \<Rightarrow> bool) \<Rightarrow> ('o, 'so, 'cx) pair_event \<Rightarrow> bool" where
  "input_fits P (Inl upd) \<longleftrightarrow> update_fits P upd"
| "input_fits P (Inr _) \<longleftrightarrow> True"

lemma sync_backlog_quiet: "quiet V kv kb ex \<Longrightarrow> quiet V kv kb (sync_backlog V pr upd ex)"
  by (auto simp: sync_backlog_def Let_def quiet_upd(6) split: order_update.splits)

lemma on_pair_event_quiet:
  assumes "quiet V kv kb ex" "input_fits (entity_fits kv kb (en_hash V)) event"
  shows "\<exists>ex'. on_pair_event V pr event ex = Ok ex' \<and> quiet V kv kb ex'"
proof -
  have "\<exists>ex'. (case event of Inl evolving \<Rightarrow> sync_update V pr (update_state V evolving ex) | Inr atomic \<Rightarrow> Ok (sync_backlog V pr atomic ex)) = Ok ex' \<and> quiet V kv kb ex'"
  proof (cases event)
    case (Inl upd)
    then show ?thesis using sync_update_quiet(1) [OF assms(1) surjective_pairing, of upd pr] assms(2) by simp
  qed (simp add: sync_backlog_quiet [OF assms(1)])
  then show ?thesis by (auto simp: on_pair_event_def quiet_push)
qed

lemma on_funding_event_quiet: "quiet V kv kb ex \<Longrightarrow> quiet V kv kb (on_funding_event event ex)"
  by (cases event) (auto intro!: quiet_upd(4) bs_ok_remove bs_ok_insert dest: quietD(4))

lemma book_events_quiet:
  assumes "quiet V kv kb ex" "\<forall>e \<in> set es. event_priced e"
  shows "\<exists>ex'. book_events V pr es ex = Ok ex' \<and> quiet V kv kb ex'"
  using assms
proof (induction es arbitrary: ex)
  case (Cons e es)
  obtain b where "book_event V pr e ex = Ok (set_book pr b ex)" "settled b" "book_run V b"
    using book_event_ok [of V pr ex e] quiet_book [OF Cons.prems(1), of pr] Cons.prems(2) by auto
  then show ?case using Cons.IH [OF quiet_set_book [OF Cons.prems(1)], of b pr] Cons.prems(2) by auto
qed simp

lemma invalidate_versions_quiet:
  assumes "quiet V kv kb ex" "distinct vers"
  shows "\<exists>ex' missing. invalidate_versions V pr vers ex = Ok (ex', missing) \<and> quiet V kv kb ex' \<and>
    (set vers \<subseteq> dom (map_of (si_store (ex_index ex))) \<longrightarrow> missing = [])"
  using assms
proof (induction vers arbitrary: ex)
  case (Cons ver vers)
  show ?case
  proof (cases "get_state ver (ex_index ex)")
    case None
    then show ?thesis using Cons.IH [OF Cons.prems(1)] Cons.prems(2) by (auto simp: get_state_def)
  next
    case (Some st)
    let ?E = "en_entity V" let ?ix = "fst (invalidate_version ?E ver (ex_index ex))" let ?ex = "ex\<lparr> ex_index := ?ix \<rparr>"
    have ix: "index_fits kv kb (en_hash V) (ex_index ex)" "index_fits kv kb (en_hash V) ?ix"
      using Cons.prems(1) by (simp_all add: quiet_def index_fits_invalidate)
    have q: "quiet V kv kb ?ex" using quiet_upd(1) [OF Cons.prems(1) ix(2), of "skip_filter ex"] by simp
    have sub: "set vers \<subseteq> dom (map_of (si_store ?ix))" if "set (ver # vers) \<subseteq> dom (map_of (si_store (ex_index ex)))"
      using that Cons.prems(2) invalidate_sub(2) [of _ ver ?E "ex_index ex"] by (force simp: dom_def)
    define tr where "tr = to_transition (resolve_state ?E (e_id ?E st) (ex_index ex)) (resolve_state ?E (e_id ?E st) ?ix)"
    show ?thesis
    proof (cases tr)
      case None
      then have "invalidate_versions V pr (ver # vers) ex = invalidate_versions V pr vers ?ex" using \<open>get_state ver (ex_index ex) = Some st\<close>
        by (simp add: tr_def Let_def)
      then show ?thesis using Cons.IH [OF q] Cons.prems(2) sub by auto
    next
      case (Some t)
      have "transition_fits t" using to_transition_fits [OF ix Some [unfolded tr_def]] .
      then obtain b where b: "sync_book V pr t ?ex = Ok (set_book pr b ?ex)" "settled b" "book_run V b"
        using sync_book_ok [of V pr ?ex t] quiet_book [OF q, of pr] by auto
      then have "invalidate_versions V pr (ver # vers) ex = invalidate_versions V pr vers (set_book pr b ?ex)"
        using Some \<open>get_state ver (ex_index ex) = Some st\<close> by (simp add: tr_def Let_def)
      then show ?thesis using Cons.IH [OF quiet_set_book [OF q b(2,3), of pr]] Cons.prems(2) sub by auto
    qed
  qed
qed simp

section \<open>Feedback\<close>

text \<open>
  What the executor expects of the code behind its interfaces: a hash set is traversed once per element, and the new states the
  interpreters return fit.
\<close>

definition env_ok :: "('o, 'so, 'l, 'q, 'c, 'tx, 'th) engine_env \<Rightarrow> (output_ref \<Rightarrow> bool) \<Rightarrow> (bytes \<Rightarrow> bool) \<Rightarrow> bool" where
  "env_ok V kv kb \<longleftrightarrow>
    (\<forall>A. finite A \<longrightarrow> distinct (en_order V A) \<and> set (en_order V A) = A) \<and>
    (\<forall>c l f c' r. en_run V c l f = Ok (c', r) \<longrightarrow> (\<forall>eff \<in> set (matchmaking_effects r). effect_fits (entity_fits kv kb (en_hash V)) eff)) \<and>
    (\<forall>c p ord tx pool bearer ord'. en_spec_run V c p ord = Some (tx, (pool, bearer), ord') \<longrightarrow> entity_fits kv kb (en_hash V) (Inr pool, bearer))"

lemma feedback_run: "book_run V st \<Longrightarrow> book_run V (on_recipe_failed (en_taker V) st)" "book_run V st \<Longrightarrow> book_run V (on_recipe_succeeded (en_taker V) st)"
  by (simp_all add: book_run_def green_run.failed green_run.succeeded)

text \<open>Settling the one open book makes the executor quiet.\<close>

definition opened_at :: "('o, 'so, 'l, 'q, 'c, 'tx, 'th) engine_env \<Rightarrow> (output_ref \<Rightarrow> bool) \<Rightarrow> (bytes \<Rightarrow> bool) \<Rightarrow> pair_id \<Rightarrow>
    ('o, 'so, 'l, 'q, 'c, 'th) executor \<Rightarrow> bool" where
  "opened_at V kv kb pr ex \<longleftrightarrow> pending_effects ex = None \<and> books_ok V {pr} ex \<and> index_fits kv kb (en_hash V) (ex_index ex) \<and> focus_ok (focus ex) \<and>
     bs_ok reference (funding_pool ex)"

lemma close_book: "opened_at V kv kb pr ex \<Longrightarrow> settled b \<Longrightarrow> book_run V b \<Longrightarrow> quiet V kv kb (set_book pr b ex)"
  using books_ok_set [of V "{pr}" ex b pr] by (simp add: opened_at_def quiet_def)

lemma opened_run: "opened_at V kv kb pr ex \<Longrightarrow> book_run V (book_of V pr' ex)"
  by (simp add: opened_at_def books_ok_def)

lemma recipe_failed_quiet: "opened_at V kv kb pr ex \<Longrightarrow> quiet V kv kb (recipe_failed V pr ex)"
  unfolding recipe_failed_def by (rule close_book [OF _ settled_failed feedback_run(1) [OF opened_run]])

lemma quiet_opened: "quiet V kv kb ex \<Longrightarrow> opened_at V kv kb pr ex"
  by (simp add: quiet_def opened_at_def books_ok_def)

lemma processed_quiet: "quiet V kv kb ex \<Longrightarrow> quiet V kv kb (on_entity_processed V ver ex)"
  by (simp add: on_entity_processed_def quiet_upd(2))

lemma apply_effects_quiet:
  assumes "quiet V kv kb ex" "\<forall>eff \<in> set effs. effect_fits (entity_fits kv kb (en_hash V)) eff"
  shows "\<exists>ex'. apply_effects V pr effs ex = Ok ex' \<and> quiet V kv kb ex'"
  using assms
proof (induction effs arbitrary: ex)
  case (Cons eff effs)
  have "\<exists>ex'. apply_effect V pr eff ex = Ok ex' \<and> quiet V kv kb ex'"
    using Cons.prems sync_update_quiet(1) [OF processed_quiet [OF Cons.prems(1)] surjective_pairing, of "LocalTxSubmit _ :: (_, unit) chan"]
    by (cases eff) (auto simp: update_fits_def)
  then show ?case using Cons.IH Cons.prems(2) by fastforce
qed simp

lemma success_quiet:
  assumes "effects_fit (entity_fits kv kb (en_hash V)) (ep_effects eff)"
    and "if from_book (ep_effects eff) then opened_at V kv kb (ep_pair eff) ex else quiet V kv kb ex"
  shows "\<exists>ex'. on_execution_effects_success V eff ex = Ok ex' \<and> quiet V kv kb ex'"
proof (cases "ep_effects eff")
  case (FromLiquidityBook effs)
  then have o: "opened_at V kv kb (ep_pair eff) ex" using assms(2) by simp
  show ?thesis using FromLiquidityBook assms(1)
      apply_effects_quiet [OF close_book [OF o settled_feedback feedback_run(2) [OF opened_run [OF o]]], of "rev effs" "ep_pair eff" "ep_pair eff"]
    by (simp add: on_execution_effects_success_def Let_def)
next
  case (FromBacklog pool ord)
  let ?ex = "on_entity_processed V (so_self_ref (en_backlog V) (fst ord)) ex"
  let ?upd = "LocalTxSubmit (Forward (IorRight (Inr (fst pool), snd pool))) :: (_, unit) chan"
  have q: "quiet V kv kb ?ex" using FromBacklog assms(2) by (simp add: processed_quiet)
  have "entity_fits kv kb (en_hash V) (Inr (fst pool), snd pool)" using assms(1) FromBacklog by (cases pool) simp
  then have "quiet V kv kb (fst (update_state V ?upd ?ex))" using sync_update_quiet(2) [OF q surjective_pairing, of ?upd] by (simp add: update_fits_def)
  then show ?thesis using FromBacklog by (simp add: on_execution_effects_success_def)
qed

lemma failure_quiet:
  assumes V: "env_ok V kv kb"
    and f: "finite (consumed_versions eff)" "from_book (ep_effects eff) \<longrightarrow> consumed_versions eff \<subseteq> dom (map_of (si_store (ex_index ex)))"
    and o: "if from_book (ep_effects eff) then opened_at V kv kb (ep_pair eff) ex else quiet V kv kb ex"
  shows "\<exists>ex'. on_execution_effects_failure V err eff ex = Ok ex' \<and> quiet V kv kb ex'"
proof (cases err)
  case None
  show ?thesis
  proof (cases "ep_effects eff")
    case (FromLiquidityBook effs)
    then show ?thesis using None o book_events_quiet [OF recipe_failed_quiet, of V kv kb "ep_pair eff" ex "map RemoveTaker (poisonous_orders effs)" "ep_pair eff"]
      by (simp add: on_execution_effects_failure_def Let_def)
  qed (use None o quiet_upd(6) in \<open>simp add: on_execution_effects_failure_def Let_def\<close>)
next
  case (Some missing)
  let ?vs = "en_order V (missing \<inter> consumed_versions eff)"
  have vs: "distinct ?vs" "set ?vs = missing \<inter> consumed_versions eff" using V f(1) by (simp_all add: env_ok_def)
  show ?thesis
  proof (cases "ep_effects eff")
    case (FromLiquidityBook effs)
    then have q: "quiet V kv kb (recipe_failed V (ep_pair eff) ex)" using o by (simp add: recipe_failed_quiet)
    have "set ?vs \<subseteq> dom (map_of (si_store (ex_index (recipe_failed V (ep_pair eff) ex))))"
      using f(2) vs FromLiquidityBook by (auto simp: recipe_failed_def)
    then show ?thesis using invalidate_versions_quiet [OF q vs(1), of "ep_pair eff"] Some FromLiquidityBook
      by (auto simp: on_execution_effects_failure_def Let_def)
  next
    case (FromBacklog pool ord)
    then have "quiet V kv kb ex" using o by simp
    then have q: "quiet V kv kb (set_backlog (ep_pair eff) l ex)" for l by (rule quiet_upd(6))
    let ?B = "en_backlog V" let ?r = "so_self_ref ?B (fst ord)"
    let ?l = "(if ?r \<in> missing then bl_soft_evict ?B ?r else bl_put ?B ord) (backlog_of V (ep_pair eff) ex)"
    show ?thesis using invalidate_versions_quiet [OF q [of ?l] vs(1), of "ep_pair eff"] Some FromBacklog
      by (auto simp: on_execution_effects_failure_def Let_def)
  qed
qed

lemma funding_fold_ok:
  assumes "\<And>eff pool. bs_ok reference pool \<Longrightarrow> bs_ok reference (g eff pool)"
  shows "bs_ok reference pool \<Longrightarrow> bs_ok reference (fold g effs pool)"
  by (induction effs arbitrary: pool) (simp_all add: assms)

lemma funding_effects_quiet:
  assumes "quiet V kv kb ex"
  shows "quiet V kv kb (on_funding_effects_success effs ex)" "quiet V kv kb (on_funding_effects_failure err effs ex)"
  unfolding on_funding_effects_success_def on_funding_effects_failure_def Let_def
  by (rule quiet_upd(4) [OF assms funding_fold_ok [OF _ quietD(4) [OF assms]]]; auto simp: bs_ok_insert split: funding_event.splits)+

lemma on_feedback_quiet:
  assumes V: "env_ok V kv kb" and ok: "engine_ok V kv kb ex" and p: "pending_effects ex = Some effs"
  shows "\<exists>ex'. on_feedback V fb effs (ex\<lparr> pending_effects := None \<rparr>) = Ok ex' \<and> quiet V kv kb ex'"
proof -
  let ?ex = "ex\<lparr> pending_effects := None \<rparr>" and ?eff = "ef_execution effs"
  have o: "if from_book (ep_effects ?eff) then opened_at V kv kb (ep_pair ?eff) ?ex else quiet V kv kb ?ex"
    using ok p by (auto simp: engine_ok_def opened_at_def quiet_def opened_def books_ok_def split: if_splits)
  have e: "effects_fit (entity_fits kv kb (en_hash V)) (ep_effects ?eff)" "finite (consumed_versions ?eff)"
      "from_book (ep_effects ?eff) \<longrightarrow> consumed_versions ?eff \<subseteq> dom (map_of (si_store (ex_index ?ex)))"
    using ok p by (auto simp: engine_ok_def pending_ok_def)
  show ?thesis
  proof (cases fb)
    case Accepted
    then show ?thesis using success_quiet [OF e(1) o] by (auto simp: on_feedback_def dest: funding_effects_quiet(1))
  next
    case (Rejected err)
    then show ?thesis using failure_quiet [OF V e(2,3) o, of err] by (auto simp: on_feedback_def dest: funding_effects_quiet(2))
  qed
qed

section \<open>Matchmaking of a quiet executor\<close>

lemma link_all_versions: "v \<in> set (fst (snd (link_all f g xs))) \<Longrightarrow> \<exists>x b. f x = Some (v, b)"
proof (induction xs)
  case (Cons x xs)
  then show ?case by (cases "f x") (auto simp: Let_def split_beta, blast+)
qed simp

lemma link_versions:
  assumes "link tid mid look recipe = Ok (linked, consumed)"
  shows "finite consumed" "v \<in> consumed \<Longrightarrow> \<exists>i b. look i = Some (v, b)"
proof -
  let ?f = "\<lambda>i. look (case i of Inl tk \<Rightarrow> tid (target tk) | Inr mk \<Rightarrow> mid (fst mk))"
  let ?g = "\<lambda>i b. case i of Inl tk \<Rightarrow> Inl (bundle_take tk b) | Inr mk \<Rightarrow> Inr ((fst mk, b), snd mk)"
  have c: "consumed = set (fst (snd (link_all ?f ?g recipe)))" using assms by (auto simp: link_def split_beta split: if_splits)
  then show "finite consumed" by simp
  show "\<exists>i b. look i = Some (v, b)" if "v \<in> consumed" using link_all_versions [of v ?f ?g recipe] that c by blast
qed

lemma lookup_stored:
  assumes "index_fits kv kb (en_hash V) (ex_index ex)" "lookup_bearer V ex i = Some (v, b)"
  shows "v \<in> dom (map_of (si_store (ex_index ex)))"
proof -
  obtain e where e: "resolve_state (en_entity V) i (ex_index ex) = Some e" "v = entity_version e"
    using assms(2) unfolding lookup_bearer_def by (cases "resolve_state (en_entity V) i (ex_index ex)") simp_all
  from resolve_fits(1) [OF assms(1) e(1)] e(2) show ?thesis by blast
qed

lemma try_backlog_ok:
  assumes V: "env_ok V kv kb" and q: "quiet V kv kb ex" and t: "try_backlog V pr ex = (ex', out)"
  shows "out = None \<Longrightarrow> quiet V kv kb ex' \<and> focus ex' = focus ex" "out \<noteq> None \<Longrightarrow> engine_ok V kv kb ex' \<and> pending_effects ex' \<noteq> None"
proof -
  obtain popped l where l: "bl_try_pop (en_backlog V) (backlog_of V pr ex) = (popped, l)" by fastforce
  have q1: "quiet V kv kb (set_backlog pr l ex)" by (rule quiet_upd(6) [OF q])
  have run: "engine_ok V kv kb ((set_backlog pr l ex)\<lparr> pending_effects := Some \<lparr> ef_tx_hash = h,
      ef_execution = \<lparr> ep_pair = pr, consumed_versions = {v, r}, ep_effects = FromBacklog up co \<rparr>, ef_funding = [] \<rparr>, focus := fs_push_back pr (focus ex) \<rparr>)"
    if "en_spec_run V c p ord = Some (tx, up, co)" for c p ord tx up co v r h
  proof -
    have "entity_fits kv kb (en_hash V) (Inr (fst up), snd up)" using V that unfolding env_ok_def by (metis prod.collapse)
    then show ?thesis using q1 by (cases up) (auto simp: engine_ok_def quiet_def opened_def pending_ok_def books_ok_def focus_ok_push)
  qed
  consider "ex' = set_backlog pr l ex" "out = None"
    | c p ord tx up co v r where "en_spec_run V c p ord = Some (tx, up, co)" "out = Some (tx, None)"
        "ex' = (set_backlog pr l ex)\<lparr> pending_effects := Some \<lparr> ef_tx_hash = en_tx_hash V tx,
          ef_execution = \<lparr> ep_pair = pr, consumed_versions = {v, r}, ep_effects = FromBacklog up co \<rparr>, ef_funding = [] \<rparr>, focus := fs_push_back pr (focus ex) \<rparr>"
    using t by (simp add: try_backlog_def Let_def l split: option.splits sum.splits prod.splits) metis+
  then have "(out = None \<longrightarrow> quiet V kv kb ex' \<and> focus ex' = focus ex) \<and> (out \<noteq> None \<longrightarrow> engine_ok V kv kb ex' \<and> pending_effects ex' \<noteq> None)"
    by cases (simp_all add: q1 run)
  then show "out = None \<Longrightarrow> quiet V kv kb ex' \<and> focus ex' = focus ex" "out \<noteq> None \<Longrightarrow> engine_ok V kv kb ex' \<and> pending_effects ex' \<noteq> None" by simp_all
qed

lemma attempt_opened:
  assumes "quiet V kv kb ex" "attempt_recipe (en_taker V) (en_maker V) (en_conf V) (book_of V pr ex) = Some (Ok (st, recipe, evs))"
  shows "opened_at V kv kb pr (set_book pr st ex)" "recipe = None \<Longrightarrow> quiet V kv kb (set_book pr st ex)"
    "on_recipe_failed (en_taker V) st = book_of V pr ex"
proof -
  obtain s where s: "book_of V pr ex = Idle s" using quiet_book [OF assms(1), of pr] by (cases "book_of V pr ex") auto
  have r: "book_run V (Idle s)" "book_run V st"
    using quiet_book [OF assms(1), of pr] s assms(2) unfolding book_run_def by (auto intro: green_run.attempted)
  show "opened_at V kv kb pr (set_book pr st ex)" using assms(1) r(2) by (auto simp: opened_at_def quiet_def books_ok_def)
  note restored = settled_attempt [OF run_book_ok assms(2) [unfolded s]]
  show "quiet V kv kb (set_book pr st ex)" if "recipe = None"
    using restored(2) [OF _ that] r quiet_set_book [OF assms(1), of st pr] by (simp add: book_run_def)
  show "on_recipe_failed (en_taker V) st = book_of V pr ex" using restored(1) r(1) s by (simp add: book_run_def on_recipe_failed_def)
qed

lemma pop_preferred_ok: "bs_ok reference pool \<Longrightarrow> pop_preferred_funding pool consumed = (f, pool') \<Longrightarrow> bs_ok reference pool'"
  by (auto simp: pop_preferred_funding_def pop_first_def Let_def bs_ok_remove bs_ok_Cons bs_ok_Nil split: if_splits list.splits option.splits)

lemma submit_recipe_ok:
  assumes V: "env_ok V kv kb" and o: "opened_at V kv kb pr ex" and c: "finite consumed" "consumed \<subseteq> dom (map_of (si_store (ex_index ex)))"
    and s: "submit_recipe V pr report linked consumed funding ex = Ok (ex', out)"
  shows "engine_ok V kv kb ex' \<and> pending_effects ex' \<noteq> None"
proof -
  obtain ctx r where r: "en_run V (ex_context ex) linked funding = Ok (ctx, r)" using s by (auto simp: submit_recipe_def and_then_eq_Ok)
  have "\<forall>eff \<in> set (matchmaking_effects r). effect_fits (entity_fits kv kb (en_hash V)) eff" using V r unfolding env_ok_def by blast
  moreover obtain unused feffs where io: "into_effects (xr_funding_io r) = (unused, feffs)" by fastforce
  define pool where "pool = (case unused of Some f \<Rightarrow> bs_insert reference f (funding_pool ex) | None \<Rightarrow> funding_pool ex)"
  have "ex' = try_send_engine_status EngineOk (ex\<lparr> ex_context := ctx, funding_pool := pool, pending_effects := Some \<lparr> ef_tx_hash = en_tx_hash V (xr_tx r),
      ef_execution = \<lparr> ep_pair = pr, consumed_versions = consumed, ep_effects = FromLiquidityBook (matchmaking_effects r) \<rparr>, ef_funding = feffs \<rparr>,
      focus := fs_push_back pr (focus ex) \<rparr>)"
    using s r io by (simp add: submit_recipe_def Let_def pool_def)
  moreover have "bs_ok reference pool" using o by (simp add: pool_def opened_at_def bs_ok_insert split: option.splits)
  ultimately show ?thesis using o c
    by (simp add: engine_ok_def opened_at_def opened_def pending_ok_def books_ok_def focus_ok_push try_send_engine_status_def)
qed

lemma recipe_failed_focus [simp]: "focus (recipe_failed V pr ex) = focus ex"
  by (simp add: recipe_failed_def)

lemma book_events_focus: "book_events V pr es ex = Ok ex' \<Longrightarrow> focus ex' = focus ex"
  by (induction es arbitrary: ex) (auto simp: and_then_eq_Ok book_event_def)

lemma status_sel [simp]: "focus (try_send_engine_status st ex) = focus ex" "opened_at V kv kb pr (try_send_engine_status st ex) = opened_at V kv kb pr ex"
  by (simp_all add: try_send_engine_status_def opened_at_def books_ok_def)

lemma matchmake_pair_ok:
  assumes V: "env_ok V kv kb" and q: "quiet V kv kb ex" and m: "matchmake_pair V pr ex = Some (Ok (ex', out))"
  shows "out = None \<Longrightarrow> quiet V kv kb ex' \<and> focus ex' = focus ex" "out \<noteq> None \<Longrightarrow> engine_ok V kv kb ex' \<and> pending_effects ex' \<noteq> None"
proof -
  obtain st recipe evs where a: "attempt_recipe (en_taker V) (en_maker V) (en_conf V) (book_of V pr ex) = Some (Ok (st, recipe, evs))"
    using m by (cases "attempt_recipe (en_taker V) (en_maker V) (en_conf V) (book_of V pr ex)"; cases "the (attempt_recipe (en_taker V) (en_maker V) (en_conf V) (book_of V pr ex))")
      (auto simp: matchmake_pair_def)
  let ?ex1 = "set_book pr st ex"
  note op = attempt_opened [OF q a]
  have "(out = None \<longrightarrow> quiet V kv kb ex' \<and> focus ex' = focus ex) \<and> (out \<noteq> None \<longrightarrow> engine_ok V kv kb ex' \<and> pending_effects ex' \<noteq> None)"
  proof (cases recipe)
    case None
    then have "try_backlog V pr (try_send_engine_status EngineOk ?ex1) = (ex', out)" using m a by (simp add: matchmake_pair_def)
    from try_backlog_ok [OF V quiet_upd(7) [OF op(2) [OF None]] this] show ?thesis by simp
  next
    case (Some r)
    show ?thesis
    proof (cases "link (t_id (en_taker V)) (m_id (en_maker V)) (lookup_bearer V ?ex1) r")
      case (Err orphans)
      then obtain ex2 where e: "on_linkage_failure V pr orphans ?ex1 = Ok ex2" "try_backlog V pr ex2 = (ex', out)"
        using m a Some by (auto simp: matchmake_pair_def and_then_eq_Ok)
      let ?es = "map (\<lambda>x. case x of Inl t \<Rightarrow> RemoveTaker t | Inr m \<Rightarrow> RemoveMaker m) orphans"
      have "\<forall>e \<in> set ?es. event_priced e" by (auto split: sum.splits)
      then have "quiet V kv kb ex2" using book_events_quiet [OF recipe_failed_quiet [OF op(1)], of ?es pr] e(1) by (auto simp: on_linkage_failure_def)
      then show ?thesis using try_backlog_ok [OF V _ e(2)] book_events_focus [OF e(1) [unfolded on_linkage_failure_def]] by simp
    next
      case (Ok lc)
      then obtain linked consumed where l: "link (t_id (en_taker V)) (m_id (en_maker V)) (lookup_bearer V ?ex1) r = Ok (linked, consumed)" by (cases lc) simp
      obtain f pool where p: "pop_preferred_funding (funding_pool ?ex1) consumed = (f, pool)" by fastforce
      show ?thesis
      proof (cases f)
        case None
        then have "try_backlog V pr (recipe_failed V pr (try_send_engine_status NoFunding ?ex1)) = (ex', out)"
          using m a Some l p by (auto simp: matchmake_pair_def and_then_eq_Ok)
        from try_backlog_ok [OF V recipe_failed_quiet this] op(1) show ?thesis by simp
      next
        case (Some funding)
        then obtain tx report where s: "submit_recipe V pr report linked consumed funding (?ex1\<lparr> funding_pool := pool \<rparr>) = Ok (ex', tx)" "out = Some tx"
          using m a \<open>recipe = Some r\<close> l p by (auto simp: matchmake_pair_def and_then_eq_Ok)
        have ix: "index_fits kv kb (en_hash V) (ex_index ?ex1)" using quietD(2) [OF q] by simp
        have o: "opened_at V kv kb pr (?ex1\<lparr> funding_pool := pool \<rparr>)"
          using op(1) pop_preferred_ok [OF _ p] by (simp add: opened_at_def books_ok_def)
        have "consumed \<subseteq> dom (map_of (si_store (ex_index (?ex1\<lparr> funding_pool := pool \<rparr>))))"
          using link_versions(2) [OF l] lookup_stored [OF ix] by fastforce
        from submit_recipe_ok [OF V o link_versions(1) [OF l] this s(1)] s(2) show ?thesis by simp
      qed
    qed (use m a Some in \<open>simp add: matchmake_pair_def\<close>)
  qed
  then show "out = None \<Longrightarrow> quiet V kv kb ex' \<and> focus ex' = focus ex" "out \<noteq> None \<Longrightarrow> engine_ok V kv kb ex' \<and> pending_effects ex' \<noteq> None" by simp_all
qed

lemma matchmake_ok:
  assumes V: "env_ok V kv kb"
  shows "quiet V kv kb ex \<Longrightarrow> matchmake V ex = Some (Ok (ex', out)) \<Longrightarrow>
    (out = None \<longrightarrow> quiet V kv kb ex') \<and> (out \<noteq> None \<longrightarrow> engine_ok V kv kb ex' \<and> pending_effects ex' \<noteq> None)"
proof (induction "fs_queue (focus ex)" arbitrary: ex)
  case Nil
  then have "fs_pop_front (focus ex) = (None, focus ex)" by (simp add: fs_pop_front_def)
  then show ?case using Nil.prems by (subst (asm) matchmake.simps) auto
next
  case (Cons pr prs)
  define fs where "fs = \<lparr> fs_queue = prs, fs_filter = fs_filter (focus ex) - {pr} \<rparr>"
  have fs: "fs_pop_front (focus ex) = (Some pr, fs)" "fs_queue fs = prs" using Cons.hyps(2) [symmetric] by (simp_all add: fs_pop_front_def fs_def)
  let ?ex = "ex\<lparr> focus := fs \<rparr>"
  have q: "quiet V kv kb ?ex" using quiet_upd(3) [OF Cons.prems(1) focus_ok_pop [OF quietD(3) [OF Cons.prems(1)] fs(1)]] .
  obtain ex1 out1 where m: "matchmake_pair V pr ?ex = Some (Ok (ex1, out1))"
      and rest: "(case out1 of None \<Rightarrow> matchmake V ex1 | Some tx \<Rightarrow> Some (Ok (ex1, Some tx))) = Some (Ok (ex', out))"
    using Cons.prems(2) fs(1) by (subst (asm) matchmake.simps) (auto simp: run_bind_eq_Ok)
  note ok = matchmake_pair_ok [OF V q m]
  show ?case
  proof (cases out1)
    case None
    then show ?thesis using Cons.hyps(1) [of ex1] ok(1) rest fs(2) by simp
  qed (use ok(2) rest in auto)
qed

section \<open>Polling\<close>

lemma quiet_feedback_none: "quiet V kv kb ex \<Longrightarrow> poll_feedback V ex inp = Ok (ex, inp)"
  by (simp add: poll_feedback_def quietD(1))

lemma poll_feedback_quiet:
  assumes "env_ok V kv kb" "engine_ok V kv kb ex" "pending_effects ex \<noteq> None \<longrightarrow> in_feedback inp \<noteq> None"
  shows "\<exists>ex' inp'. poll_feedback V ex inp = Ok (ex', inp') \<and> quiet V kv kb ex' \<and> in_upstream inp' = in_upstream inp"
proof (cases "pending_effects ex")
  case None
  then have "quiet V kv kb ex" using assms(2) by (simp add: quiet_engine)
  then show ?thesis using quiet_feedback_none by blast
next
  case (Some effs)
  then obtain fb where fb: "in_feedback inp = Some fb" using assms(3) by auto
  show ?thesis using on_feedback_quiet [OF assms(1,2) Some, of fb] Some fb by (auto simp: poll_feedback_def)
qed

definition inputs_fit :: "('o ent \<Rightarrow> bool) \<Rightarrow> ('o, 'so, 'cx) poll_input \<Rightarrow> bool" where
  "inputs_fit P inp \<longleftrightarrow> (\<forall>(pr, event) \<in> set (in_upstream inp). input_fits P event)"

lemma poll_quiet:
  assumes "quiet V kv kb ex" "inputs_fit (entity_fits kv kb (en_hash V)) inp"
  shows "\<exists>go ex' inp'. poll_events V ex inp = Ok (go, ex', inp') \<and> quiet V kv kb ex'"
  using assms
proof (induction V ex inp rule: poll_events.induct)
  case (1 V ex inp)
  note f = quiet_feedback_none [OF 1(6), of inp]
  show ?case
  proof (cases "in_upstream inp")
    case (Cons u us)
    obtain pr event where u: "u = (pr, event)" by (cases u)
    have fits: "input_fits (entity_fits kv kb (en_hash V)) event" "inputs_fit (entity_fits kv kb (en_hash V)) (inp\<lparr> in_upstream := us \<rparr>)"
      using 1(7) Cons u by (auto simp: inputs_fit_def)
    obtain ex2 where ex2: "on_pair_event V pr event ex = Ok ex2" "quiet V kv kb ex2" using on_pair_event_quiet [OF 1(6) fits(1)] by blast
    have "\<exists>go ex' inp'. poll_events V ex2 (inp\<lparr> in_upstream := us \<rparr>) = Ok (go, ex', inp') \<and> quiet V kv kb ex'"
      using 1(5) [OF f refl Cons, of pr event ex2] ex2 fits(2) u by simp
    then show ?thesis by (subst poll_events.simps) (simp add: f Cons u ex2(1))
  next
    case up: Nil
    show ?thesis
    proof (cases "in_funding inp")
      case (Cons e fs)
      have "\<exists>go ex' inp'. poll_events V (on_funding_event e ex) (inp\<lparr> in_funding := fs \<rparr>) = Ok (go, ex', inp') \<and> quiet V kv kb ex'"
        using 1(4) [OF f refl up Cons on_funding_event_quiet [OF 1(6)]] 1(7) by (simp add: inputs_fit_def)
      then show ?thesis by (subst poll_events.simps) (simp add: f Cons up)
    next
      case fu: Nil
      note q = quiet_upd(5) [OF 1(6)]
      show ?thesis
      proof (cases "ex_blocker ex")
        case (Some b)
        then show ?thesis using 1(3) [OF f refl up fu Some] q 1(6,7) by (cases "unblocked inp b"; subst poll_events.simps) (auto simp: f up fu)
      next
        case None
        then show ?thesis using 1(1) [OF f refl up fu None] 1(2) [OF f refl up fu None] q 1(6,7)
          by (cases "state_synced inp"; cases "rollback_in_progress inp"; subst poll_events.simps) (auto simp: f up fu)
      qed
    qed
  qed
qed

lemma poll_events_ok:
  assumes V: "env_ok V kv kb" and ok: "engine_ok V kv kb ex" and fb: "pending_effects ex \<noteq> None \<longrightarrow> in_feedback inp \<noteq> None"
    and fits: "inputs_fit (entity_fits kv kb (en_hash V)) inp"
  shows "\<exists>go ex' inp'. poll_events V ex inp = Ok (go, ex', inp') \<and> quiet V kv kb ex'"
proof -
  obtain ex1 inp1 where f: "poll_feedback V ex inp = Ok (ex1, inp1)" "quiet V kv kb ex1" "in_upstream inp1 = in_upstream inp"
    using poll_feedback_quiet [OF V ok fb] by blast
  have "poll_events V ex inp = poll_events V ex1 inp1"
    by (subst (1 2) poll_events.simps) (simp add: f(1) quiet_feedback_none [OF f(2)])
  then show ?thesis using poll_quiet [OF f(2), of inp1] f(3) fits by (simp add: inputs_fit_def)
qed

section \<open>Runs of the executor\<close>

text \<open>
  \<open>execution_part_stream\<close> polls the executor, submits the transaction it returns and sends the answer before it polls again: when a transaction is
  pending, the feedback is there.
\<close>

inductive engine_run :: "('o, 'so, 'l, 'q, 'c, 'tx, 'th) engine_env \<Rightarrow> (output_ref \<Rightarrow> bool) \<Rightarrow> (bytes \<Rightarrow> bool) \<Rightarrow>
    ('o, 'so, 'l, 'q, 'c, 'th) executor \<Rightarrow> bool"
  for V :: "('o, 'so, 'l, 'q, 'c, 'tx, 'th) engine_env" and kv :: "output_ref \<Rightarrow> bool" and kb :: "bytes \<Rightarrow> bool" where
  start: "engine_run V kv kb (executor_new V c)"
| polled: "engine_run V kv kb ex \<Longrightarrow> (pending_effects ex \<noteq> None \<longrightarrow> in_feedback inp \<noteq> None) \<Longrightarrow>
    inputs_fit (entity_fits kv kb (en_hash V)) (inp :: ('o, 'so, unit) poll_input) \<Longrightarrow>
    poll_next V ex inp = Some (Ok (ex', inp', out)) \<Longrightarrow> engine_run V kv kb ex'"

lemma poll_next_ok:
  assumes V: "env_ok V kv kb" and ok: "engine_ok V kv kb ex" and fb: "pending_effects ex \<noteq> None \<longrightarrow> in_feedback inp \<noteq> None"
    and fits: "inputs_fit (entity_fits kv kb (en_hash V)) inp" and p: "poll_next V ex inp = Some (Ok (ex', inp', out))"
  shows "engine_ok V kv kb ex' \<and> (out = None \<longleftrightarrow> pending_effects ex' = None)"
proof -
  obtain go ex1 inp1 where e: "poll_events V ex inp = Ok (go, ex1, inp1)" "quiet V kv kb ex1" using poll_events_ok [OF V ok fb fits] by blast
  show ?thesis
  proof (cases go)
    case True
    then have "matchmake V ex1 = Some (Ok (ex', out))" using p e(1) by (auto simp: poll_next_def run_bind_eq_Ok)
    from matchmake_ok [OF V e(2) this] show ?thesis by (auto simp: quiet_engine)
  next
    case False
    then show ?thesis using p e by (auto simp: poll_next_def quiet_engine)
  qed
qed

lemma engine_run_ok:
  assumes "env_ok V kv kb"
  shows "engine_run V kv kb ex \<Longrightarrow> engine_ok V kv kb ex"
proof (induction rule: engine_run.induct)
  case (start c)
  show ?case using quiet_new [of V kv kb c] by (simp add: quiet_engine)
next
  case (polled ex inp ex' inp' out)
  then show ?case using poll_next_ok [OF assms] by blast
qed

end
