(* ===== verification/Engine_Correct.thy ===== *)
theory Engine_Correct
  imports Engine_Inv Book_Correct
begin

text \<open>
  What the executor promises: a run never panics on its inputs, a rejected transaction leaves no trace, and where the promise ends: two orders of
  one account share a version and collide in the state index.  The last sections give the interfaces concrete functions, and an executor that
  matches the sample order with the sample pool.
\<close>

declare split_paired_All [simp del] split_paired_Ex [simp del]

section \<open>What the executor promises\<close>

text \<open>
  C17. The executor never panics on its inputs.  Assume that every version and every identifier is always that of an order or always that of a pool and that
  orders have a price, in the inputs and in the new states the recipe interpreter returns (\<open>env_ok\<close>, \<open>inputs_fit\<close>).  In
  every run that respects the submission protocol its state is consistent: with nothing pending
  every book is settled and at most the book of a pending recipe is open.  The next poll then handles the feedback and every upstream and funding
  event without a panic and comes to matchmaking with all books settled, and it leaves a recipe pending exactly when it returns a transaction.
\<close>

theorem executor_polls_safely:
  assumes "env_ok V kv kb" "engine_run V kv kb ex" "pending_effects ex \<noteq> None \<longrightarrow> in_feedback inp \<noteq> None"
    and "inputs_fit (entity_fits kv kb (en_hash V)) inp"
  shows "engine_ok V kv kb ex \<and>
    (\<exists>go ex' inp'. poll_events V ex inp = Ok (go, ex', inp') \<and> pending_effects ex' = None \<and> (\<forall>pr. settled (book_of V pr ex'))) \<and>
    (\<forall>ex' inp' out. poll_next V ex inp = Some (Ok (ex', inp', out)) \<longrightarrow> (out = None \<longleftrightarrow> pending_effects ex' = None))"
proof -
  have ok: "engine_ok V kv kb ex" using engine_run_ok [OF assms(1,2)] .
  obtain go ex' inp' where p: "poll_events V ex inp = Ok (go, ex', inp')" "quiet V kv kb ex'" using poll_events_ok [OF assms(1) ok assms(3,4)] by blast
  then have "pending_effects ex' = None \<and> (\<forall>pr. settled (book_of V pr ex'))" using quietD(1) quiet_book by blast
  then show ?thesis using ok p(1) poll_next_ok [OF assms(1) ok assms(3,4)] by blast
qed

text \<open>The pending recipe of a pair, as the executor left it.\<close>

lemma try_backlog_pending:
  "try_backlog V pr ex = (ex', out) \<Longrightarrow> pending_effects ex = None \<Longrightarrow> pending_effects ex' = Some effs \<Longrightarrow> \<not> from_book (ep_effects (ef_execution effs))"
  by (auto simp: try_backlog_def Let_def split: prod.splits option.splits sum.splits)

lemma bs_first_pool:
  assumes "bs_ok reference pool" "pop_preferred_funding pool consumed = (Some f, pool')"
  shows "bs_insert reference f pool' = pool" "f \<in> set pool"
proof -
  have c: "pool = f # pool' \<or> f \<in> set pool \<and> pool' = bs_remove reference f pool"
    using assms(2) by (auto simp: pop_preferred_funding_def pop_first_def Let_def find_Some_iff split: if_splits list.splits option.splits)
  then show f: "f \<in> set pool" by auto
  have inj: "inj_on reference (set pool)" using assms(1) by (rule bs_ok_inj)
  show "bs_insert reference f pool' = pool"
  proof (cases "pool = f # pool'")
    case True
    then show ?thesis using assms(1) bs_reinsert by metis
  next
    case False
    then have p: "pool' = bs_remove reference f pool" using c by blast
    have s: "set pool' = set pool - {f}" using inj f unfolding p by (intro set_bs_remove) (simp add: insert_absorb)
    have ok: "bs_ok reference pool'" unfolding p by (rule bs_ok_remove [OF assms(1)])
    have "set (bs_insert reference f pool') = set pool" using s f inj ok by (subst set_bs_insert) (auto simp: insert_absorb intro: inj_on_subset)
    then show ?thesis by (rule bs_unique [OF bs_ok_insert [OF ok] assms(1)])
  qed
qed

fun io_input :: "('t, 'k) funding_io \<Rightarrow> 't" where
  "io_input (Replaced f _) = f"
| "io_input (Added f _) = f"
| "io_input (NotUsed f) = f"

lemma funding_returned:
  assumes "into_effects io = (unused, effs)" "reference (io_input io) \<notin> m"
  shows "funding_pool (on_funding_effects_failure (Some m) effs (ex\<lparr> funding_pool := (case unused of Some f \<Rightarrow> bs_insert reference f p | None \<Rightarrow> p) \<rparr>)) =
    bs_insert reference (io_input io) p"
  using assms by (cases io) (auto simp: on_funding_effects_failure_def)

lemma pending_recipe:
  assumes q: "quiet V kv kb ex" and m: "matchmake_pair V pr ex = Some (Ok (ex1, out))"
    and p: "pending_effects ex1 = Some effs" "from_book (ep_effects (ef_execution effs))"
  obtains st recipe evs linked funding pool ctx r unused where
    "attempt_recipe (en_taker V) (en_maker V) (en_conf V) (book_of V pr ex) = Some (Ok (st, recipe, evs))"
    "pop_preferred_funding (funding_pool ex) (consumed_versions (ef_execution effs)) = (Some funding, pool)"
    "en_run V (ex_context ex) linked funding = Ok (ctx, r)" "into_effects (xr_funding_io r) = (unused, ef_funding effs)"
    "ex_index ex1 = ex_index ex" "multi_book ex1 = multi_book (set_book pr st ex)" "ep_pair (ef_execution effs) = pr"
    "funding_pool ex1 = (case unused of Some f \<Rightarrow> bs_insert reference f pool | None \<Rightarrow> pool)"
proof -
  obtain st recipe evs where a: "attempt_recipe (en_taker V) (en_maker V) (en_conf V) (book_of V pr ex) = Some (Ok (st, recipe, evs))"
    using m by (auto simp: matchmake_pair_def run_bind_eq_Ok)
  let ?ex1 = "set_book pr st ex"
  have none: "pending_effects (try_send_engine_status s ?ex1) = None" "pending_effects (recipe_failed V pr (try_send_engine_status s ?ex1)) = None"
    "pending_effects (recipe_failed V pr ?ex1) = None" for s
    using quietD(1) [OF q] by (simp_all add: try_send_engine_status_def recipe_failed_def)
  have nb: "try_backlog V pr ex0 \<noteq> (ex1, out)" if "pending_effects ex0 = None" for ex0
    using try_backlog_pending [OF _ that p(1)] p(2) by blast
  have events: "book_events V pr es ex0 = Ok ex2 \<Longrightarrow> pending_effects ex2 = pending_effects ex0" for es ex0 ex2
    by (induction es arbitrary: ex0) (auto simp: and_then_eq_Ok book_event_def)
  obtain rc where rc: "recipe = Some rc" using m a nb [OF none(1)] by (cases recipe) (auto simp: matchmake_pair_def)
  obtain linked consumed where l: "link (t_id (en_taker V)) (m_id (en_maker V)) (lookup_bearer V ?ex1) rc = Ok (linked, consumed)"
  proof (cases "link (t_id (en_taker V)) (m_id (en_maker V)) (lookup_bearer V ?ex1) rc")
    case (Err orphans)
    then obtain ex2 where "on_linkage_failure V pr orphans ?ex1 = Ok ex2" "try_backlog V pr ex2 = (ex1, out)"
      using m a rc by (auto simp: matchmake_pair_def and_then_eq_Ok)
    then have False using nb [of ex2] events none(3) by (auto simp: on_linkage_failure_def)
    then show ?thesis ..
  next
    case (Ok lc)
    then show ?thesis using that by (cases lc) simp
  qed (use m a rc in \<open>simp add: matchmake_pair_def\<close>)
  obtain f pool where f: "pop_preferred_funding (funding_pool ex) consumed = (f, pool)" by fastforce
  obtain funding where fu: "f = Some funding" using m a rc l f nb [OF none(2)] by (cases f) (auto simp: matchmake_pair_def and_then_eq_Ok)
  obtain tx report where s: "submit_recipe V pr report linked consumed funding (?ex1\<lparr> funding_pool := pool \<rparr>) = Ok (ex1, tx)"
    using m a rc l f fu by (auto simp: matchmake_pair_def and_then_eq_Ok)
  obtain ctx r where r: "en_run V (ex_context ex) linked funding = Ok (ctx, r)" using s by (auto simp: submit_recipe_def and_then_eq_Ok)
  obtain unused feffs where io: "into_effects (xr_funding_io r) = (unused, feffs)" by fastforce
  have e: "ex1 = try_send_engine_status EngineOk (?ex1\<lparr> ex_context := ctx, funding_pool := (case unused of Some f \<Rightarrow> bs_insert reference f pool | None \<Rightarrow> pool),
      pending_effects := Some \<lparr> ef_tx_hash = en_tx_hash V (xr_tx r),
        ef_execution = \<lparr> ep_pair = pr, consumed_versions = consumed, ep_effects = FromLiquidityBook (matchmaking_effects r) \<rparr>, ef_funding = feffs \<rparr>,
      focus := fs_push_back pr (focus ex) \<rparr>)"
    using s r io by (simp add: submit_recipe_def Let_def cong: option.case_cong)
  then have "effs = \<lparr> ef_tx_hash = en_tx_hash V (xr_tx r),
        ef_execution = \<lparr> ep_pair = pr, consumed_versions = consumed, ep_effects = FromLiquidityBook (matchmaking_effects r) \<rparr>, ef_funding = feffs \<rparr>"
    using p(1) by (simp add: try_send_engine_status_def)
  then show thesis using that [OF a _ r] f fu io e by (simp add: try_send_engine_status_def)
qed

text \<open>
  C18. A rejected transaction is undone.  If the network rejects the transaction of a recipe for inputs that are neither its orders and pools nor
  funding, the books of all pairs, the state index and the funding pool are exactly what they were before matchmaking.
\<close>

theorem rejected_transaction_undone:
  assumes "env_ok V kv kb" "quiet V kv kb ex" "matchmake_pair V pr ex = Some (Ok (ex1, out))"
    and "pending_effects ex1 = Some effs" "from_book (ep_effects (ef_execution effs))"
    and "\<forall>c l f c' r. en_run V c l f = Ok (c', r) \<longrightarrow> io_input (xr_funding_io r) = f"
    and "m \<inter> consumed_versions (ef_execution effs) = {}" "\<forall>f \<in> set (funding_pool ex). reference f \<notin> m"
  shows "\<exists>ex2. on_feedback V (Rejected (Some m)) effs (ex1\<lparr> pending_effects := None \<rparr>) = Ok ex2 \<and> ex_index ex2 = ex_index ex \<and>
    funding_pool ex2 = funding_pool ex \<and> (\<forall>pr'. book_of V pr' ex2 = book_of V pr' ex)"
proof -
  obtain st recipe evs linked funding pool ctx r unused where
    a: "attempt_recipe (en_taker V) (en_maker V) (en_conf V) (book_of V pr ex) = Some (Ok (st, recipe, evs))" and
    f: "pop_preferred_funding (funding_pool ex) (consumed_versions (ef_execution effs)) = (Some funding, pool)" and
    r: "en_run V (ex_context ex) linked funding = Ok (ctx, r)" "into_effects (xr_funding_io r) = (unused, ef_funding effs)" and
    e: "ex_index ex1 = ex_index ex" "multi_book ex1 = multi_book (set_book pr st ex)" "ep_pair (ef_execution effs) = pr" and
    p: "funding_pool ex1 = (case unused of Some f \<Rightarrow> bs_insert reference f pool | None \<Rightarrow> pool)"
    by (rule pending_recipe [OF assms(2-5)])
  let ?ex = "recipe_failed V pr (ex1\<lparr> pending_effects := None \<rparr>)"
  have io: "io_input (xr_funding_io r) = funding" using assms(6) r(1) by blast
  note pool = bs_first_pool [OF quietD(4) [OF assms(2)] f]
  have "en_order V {} = []" using assms(1) unfolding env_ok_def by (metis finite.emptyI set_empty)
  then have "on_execution_effects_failure V (Some m) (ef_execution effs) (ex1\<lparr> pending_effects := None \<rparr>) = Ok ?ex"
    using assms(5,7) e(3) by (cases "ep_effects (ef_execution effs)") (simp_all add: on_execution_effects_failure_def)
  then have fb: "on_feedback V (Rejected (Some m)) effs (ex1\<lparr> pending_effects := None \<rparr>) = Ok (on_funding_effects_failure (Some m) (ef_funding effs) ?ex)"
    by (simp add: on_feedback_def)
  have "?ex = ?ex\<lparr> funding_pool := (case unused of Some f \<Rightarrow> bs_insert reference f pool | None \<Rightarrow> pool) \<rparr>"
    using p by (simp add: recipe_failed_def set_book_def cong: option.case_cong)
  then have "funding_pool (on_funding_effects_failure (Some m) (ef_funding effs) ?ex) = bs_insert reference funding pool"
    using funding_returned [OF r(2), where m = m and p = pool and ex = ?ex] assms(8) pool(2) io by metis
  moreover have "book_of V pr' ?ex = book_of V pr' ex" for pr'
  proof -
    have b: "book_of V q ex1 = book_of V q (set_book pr st ex)" for q using e(2) by (simp add: book_of_def)
    show ?thesis using attempt_opened(3) [OF assms(2) a] by (simp add: recipe_failed_def b)
  qed
  ultimately show ?thesis using fb pool(1) e(1) by (auto simp: on_funding_effects_failure_def recipe_failed_def book_of_def)
qed

section \<open>Two orders of one account\<close>

text \<open>An announced order: a state predicted by the intent source, whose version is the output of its account.\<close>

definition announce :: "green_order \<Rightarrow> 'o finalized_tx_out \<Rightarrow> ('o, 'so, unit) pair_event" where
  "announce ord out = Inl (LocalTxSubmit (Forward (IorRight (Inl (ord, reference out), out))))"

definition listed :: "('o, 'so, 'l, 'q, 'c, 'tx, 'th) engine_env \<Rightarrow> pair_id \<Rightarrow> ('o, 'so, 'l, 'q, 'c, 'th) executor \<Rightarrow> green_order set" where
  "listed V pr ex = mt_set (active_fragments (book_of V pr ex))"

lemma green_never_deferred [simp]: "deferred (green_book H) now ord = None"
  by (simp add: deferred_def green_taker_def)

lemma taker_event:
  assumes "book_of V pr ex = Idle s" "mt_ok (en_taker V) (active (takers s))" "inj_on go_key (insert ord (mt_set (active (takers s))))"
  shows "\<exists>s'. book_event V pr (UpdateTaker ord) ex = Ok (set_book pr (Idle s') ex) \<and> mt_ok (en_taker V) (active (takers s')) \<and>
      mt_set (active (takers s')) = insert ord (mt_set (active (takers s)))"
    and "\<exists>s'. book_event V pr (RemoveTaker ord) ex = Ok (set_book pr (Idle s') ex) \<and> mt_ok (en_taker V) (active (takers s')) \<and>
      mt_set (active (takers s')) = mt_set (active (takers s)) - {ord}"
proof -
  have "inj_on (place (en_taker V)) (insert ord (mt_set (active (takers s))))"
    using assms(3) by (auto simp: inj_on_def place_def)
  note mt = mt_insert_set [OF assms(2) this] mt_remove_set [OF assms(2) this]
  show "\<exists>s'. book_event V pr (UpdateTaker ord) ex = Ok (set_book pr (Idle s') ex) \<and> mt_ok (en_taker V) (active (takers s')) \<and>
      mt_set (active (takers s')) = insert ord (mt_set (active (takers s)))"
    using mt by (intro exI [of _ "idle_add_fragment (en_taker V) ord s"]) (simp add: book_event_def assms(1) idle_add_fragment_def chron_add_fragment_def)
  show "\<exists>s'. book_event V pr (RemoveTaker ord) ex = Ok (set_book pr (Idle s') ex) \<and> mt_ok (en_taker V) (active (takers s')) \<and>
      mt_set (active (takers s')) = mt_set (active (takers s)) - {ord}"
    using mt by (intro exI [of _ "idle_remove_fragment (en_taker V) ord s"]) (simp add: book_event_def assms(1) idle_remove_fragment_def chron_remove_fragment_def)
qed


lemma predicted_resolves: "resolve_state E (e_id E e) (put_predicted E e ix) = Some e"
  using put_new [of E LAST_PREDICTED_PREFIX e ix] by (simp add: resolve_view resolved_def shown_def put_predicted_def put_index)

lemma si_new_index [simp]: "si_index si_new = []"
  by (simp add: si_new_def)

lemma other_unresolved: "raw E e \<noteq> id_bytes E i \<Longrightarrow> resolve_state E i (put_predicted E e si_new) = None"
  by (auto simp: resolve_view resolved_def shown_def put_predicted_def put_index)

abbreviation order_token :: "('o, 'so, 'l, 'q, 'c, 'tx, 'th) engine_env \<Rightarrow> green_order \<Rightarrow> token" where
  "order_token V ord \<equiv> goi_stable_token (en_hash V) (go_id ord)"

lemma agent_order_id: "e_id (agent_entity H) (Inl (ord, v), out) = goi_stable_token H (go_id ord)"
  by (simp add: agent_entity_def)

lemma announce_event:
  assumes "cf_filter (skip_filter ex) = {}"
  shows "on_pair_event V pr (announce ord out) ex =
    and_then (sync_book V pr (case resolve_state (en_entity V) (order_token V ord) (ex_index ex) of
        None \<Rightarrow> IorRight (Inl (ord, reference out)) | Some e \<Rightarrow> IorBoth (fst e) (Inl (ord, reference out)))
        (ex\<lparr> ex_index := put_predicted (en_entity V) (Inl (ord, reference out), out) (ex_index ex) \<rparr>))
      (\<lambda>ex. Ok (ex\<lparr> focus := fs_push_back pr (focus ex) \<rparr>))"
  using assms predicted_resolves [of "en_entity V" "(Inl (ord, reference out), out)" "ex_index ex"]
  by (simp add: on_pair_event_def announce_def update_state_def update_to_def put_observed_def sync_update_def cf_contains_def agent_order_id Let_def
      split: option.splits)

lemma go_key_token: "goi_stable_token H (go_id a) \<noteq> goi_stable_token H (go_id b) \<Longrightarrow> go_key a \<noteq> go_key b"
  by (auto simp: go_key_def goi_stable_token_def)

text \<open>
  C20. Orders of one account collide in the state index.  Both orders of an account carry the output of the account as their version, so the index keeps
  one state for both.  Two orders of a pair announced one after the other are both in the book; announcing the first again, as the continuation scanner does
  every second, removes the second from the book.
\<close>

theorem same_account_orders_collide:
  assumes "token_to_array (order_token V a) \<noteq> token_to_array (order_token V b)"
  shows "\<exists>ex2 ex3. and_then (on_pair_event V pr (announce a out) (executor_new V c)) (on_pair_event V pr (announce b out)) = Ok ex2 \<and>
    listed V pr ex2 = {a, b} \<and> on_pair_event V pr (announce a out) ex2 = Ok ex3 \<and> listed V pr ex3 = {a}"
proof -
  let ?E = "en_entity V" let ?ent = "\<lambda>ord. (Inl (ord, reference out), out) :: ('a, royalty_pool) entity"
  have ne: "a \<noteq> b" "go_key a \<noteq> go_key b" using assms go_key_token [of "en_hash V" a b] by metis+
  define ix1 ix2 where "ix1 = put_predicted ?E (?ent a) si_new" and "ix2 = put_predicted ?E (?ent b) ix1"
  have r: "resolve_state ?E (order_token V a) si_new = None" "resolve_state ?E (order_token V b) ix1 = None"
    "resolve_state ?E (order_token V a) ix2 = Some (?ent b)"
  proof -
    show "resolve_state ?E (order_token V a) si_new = None" by (simp add: resolve_view resolved_def shown_def si_new_def)
    show "resolve_state ?E (order_token V b) ix1 = None"
      using other_unresolved [of ?E "?ent a" "order_token V b"] assms by (simp add: ix1_def agent_order_id)
    show "resolve_state ?E (order_token V a) ix2 = Some (?ent b)"
      using shared_version_resolves [of ?E "?ent a" "?ent b" si_new] assms by (simp add: ix1_def ix2_def agent_order_id)
  qed
  let ?ex = "executor_new V c" let ?fs = "\<lambda>ex. ex\<lparr> focus := fs_push_back pr (focus ex) \<rparr>"
  have f: "cf_filter (skip_filter ?ex) = {}" by (simp add: executor_new_def cf_new_def)
  have new: "ex_index ?ex = si_new" by (simp add: executor_new_def)
  obtain s0 where s0: "book_of V pr ?ex = Idle s0" "mt_ok (en_taker V) (active (takers s0))" "mt_set (active (takers s0)) = {}"
    using that [of "idle_new (en_time V)"] by (simp add: executor_new_def book_of_def tlb_new_def idle_new_def chron_new_def)
  obtain s1 where s1: "book_event V pr (UpdateTaker a) (?ex\<lparr> ex_index := ix1 \<rparr>) = Ok (set_book pr (Idle s1) (?ex\<lparr> ex_index := ix1 \<rparr>))"
      "mt_ok (en_taker V) (active (takers s1))" "mt_set (active (takers s1)) = {a}"
    using taker_event(1) [of V pr "?ex\<lparr> ex_index := ix1 \<rparr>" s0 a] s0 by auto
  define e1 where "e1 = ?fs (set_book pr (Idle s1) (?ex\<lparr> ex_index := ix1 \<rparr>))"
  have e1: "on_pair_event V pr (announce a out) ?ex = Ok e1" using s1(1) by (simp add: announce_event [OF f] new r ix1_def [symmetric] e1_def)
  obtain s2 where s2: "book_event V pr (UpdateTaker b) (e1\<lparr> ex_index := ix2 \<rparr>) = Ok (set_book pr (Idle s2) (e1\<lparr> ex_index := ix2 \<rparr>))"
      "mt_ok (en_taker V) (active (takers s2))" "mt_set (active (takers s2)) = {a, b}"
    using taker_event(1) [of V pr "e1\<lparr> ex_index := ix2 \<rparr>" s1 b] s1 ne by (auto simp: e1_def)
  define e2 where "e2 = ?fs (set_book pr (Idle s2) (e1\<lparr> ex_index := ix2 \<rparr>))"
  have e2: "on_pair_event V pr (announce b out) e1 = Ok e2"
    using s2(1) f announce_event [of e1 V pr b out] by (simp add: e1_def r ix2_def [symmetric] e2_def)
  define ix3 where "ix3 = put_predicted ?E (?ent a) ix2"
  obtain s3 where s3: "book_event V pr (RemoveTaker b) (e2\<lparr> ex_index := ix3 \<rparr>) = Ok (set_book pr (Idle s3) (e2\<lparr> ex_index := ix3 \<rparr>))"
      "mt_ok (en_taker V) (active (takers s3))" "mt_set (active (takers s3)) = {a}"
    using taker_event(2) [of V pr "e2\<lparr> ex_index := ix3 \<rparr>" s2 b] s2 ne by (auto simp: e2_def insert_commute)
  obtain s4 where s4: "book_event V pr (UpdateTaker a) (set_book pr (Idle s3) (e2\<lparr> ex_index := ix3 \<rparr>)) = Ok (set_book pr (Idle s4) (e2\<lparr> ex_index := ix3 \<rparr>))"
      "mt_set (active (takers s4)) = {a}"
    using taker_event(1) [of V pr "set_book pr (Idle s3) (e2\<lparr> ex_index := ix3 \<rparr>)" s3 a] s3 by auto
  have e3: "on_pair_event V pr (announce a out) e2 = Ok (?fs (set_book pr (Idle s4) (e2\<lparr> ex_index := ix3 \<rparr>)))"
    using s3(1) s4(1) f announce_event [of e2 V pr a out] by (simp add: e2_def e1_def r ix3_def [symmetric])
  show ?thesis using e1 e2 e3 s2(3) s4(2) by (simp add: listed_def e2_def)
qed

section \<open>A sample executor\<close>

text \<open>
  The interfaces at concrete functions: a hash that reads the nonces and the digest of an order, a buffer of 256 versions kept as a list, an empty
  backlog, and an interpreter that consumes every order of the recipe and replaces the funding output.
\<close>

definition list_ring :: "('v, 'v list) ring" where
  "list_ring = \<lparr> ring_new = [], ring_try_push_back = (\<lambda>v q. if length q < 256 then Some (q @ [v]) else None), ring_push_back = (\<lambda>v q. q @ [v]),
     ring_pop_front = (\<lambda>q. case q of v # q' \<Rightarrow> (Some v, q') | [] \<Rightarrow> (None, [])) \<rparr>"

definition sample_interpreter :: "(green_order, royalty_pool, unit finalized_tx_out) execution list \<Rightarrow> unit finalized_tx_out \<Rightarrow> (unit, unit) exec_result" where
  "sample_interpreter instructions funding = \<lparr> xr_tx = (),
     matchmaking_effects = List.map_filter (\<lambda>i. case i of
       Inl tk \<Rightarrow> Some (Eliminated (Inl (fst (target tk), reference (snd (target tk))), snd (target tk))) | Inr _ \<Rightarrow> None) instructions,
     xr_funding_io = Replaced funding ((), [4], 0) \<rparr>"

definition sample_engine :: "(unit, unit, unit, output_ref list, unit, unit, unit) engine_env" where
  "sample_engine = \<lparr> en_hash = (\<lambda>bs. take 28 (drop 32 bs)), en_curve = sample_curve, en_conf = sample_conf 50, en_time = 0, en_ring = list_ring,
     en_backlog = \<lparr> bl_make = (), bl_put = (\<lambda>_ l. l), bl_try_pop = (\<lambda>l. (None, l)), bl_remove = (\<lambda>_ l. l), bl_soft_evict = (\<lambda>_ l. l),
       so_self_ref = (\<lambda>_. ([], 0)), so_pool_ref = (\<lambda>_. sample_token) \<rparr>,
     en_order = sorted_list_of_set, en_run = (\<lambda>c instructions funding. Ok (c, sample_interpreter instructions funding)),
     en_spec_run = (\<lambda>_ _ _. None), en_tx_hash = (\<lambda>_. ()) \<rparr>"

lemma sample_engine_sel [simp]:
  "en_curve sample_engine = sample_curve" "en_conf sample_engine = sample_conf 50" "en_order sample_engine = sorted_list_of_set"
  "en_run sample_engine c l f = Ok (c, sample_interpreter l f)" "en_hash sample_engine bs = take 28 (drop 32 bs)" "en_time sample_engine = 0"
  by (simp_all add: sample_engine_def)

definition is_account :: "output_ref \<Rightarrow> bool" where
  "is_account v \<longleftrightarrow> v \<noteq> ([2], 0)"

definition is_order :: "bytes \<Rightarrow> bool" where
  "is_order b \<longleftrightarrow> b \<noteq> token_to_array sample_token"

definition sample_pair :: pair_id where
  "sample_pair = (Native, Token (replicate 28 1, 1, replicate 32 0))"

definition sample_account_out :: "unit finalized_tx_out" where
  "sample_account_out = ((), [1], 0)"

definition sample_order_entity :: "unit ent" where
  "sample_order_entity = (Inl (sample_ask 30, reference sample_account_out), sample_account_out)"

definition sample_pool_entity :: "unit ent" where
  "sample_pool_entity = (Inr (sample_pool 0, [2], 0), (), [2], 0)"

lemma interpreter_effects: "eff \<in> set (matchmaking_effects (sample_interpreter l f)) \<Longrightarrow> effect_fits P eff"
  by (auto simp: sample_interpreter_def map_filter_def split: sum.splits)

lemma sample_env_ok: "env_ok sample_engine is_account is_order"
  by (auto simp: env_ok_def interpreter_effects) (simp add: sample_engine_def)

lemma sample_token_bytes:
  "token_to_array (order_token sample_engine (sample_ask 30)) \<noteq> token_to_array sample_token"
proof -
  have "hd (token_to_array (order_token sample_engine (sample_ask 30))) = 0"
    by (simp add: token_to_array_def goi_stable_token_def sample_ask_def sample_order_def numeral_2_eq_2)
  moreover have "hd (token_to_array sample_token) = 1" by (simp add: token_to_array_def sample_token_def)
  ultimately show ?thesis by auto
qed

lemma sample_entities_fit:
  "entity_fits is_account is_order (en_hash sample_engine) sample_order_entity" "entity_fits is_account is_order (en_hash sample_engine) sample_pool_entity"
proof -
  show "entity_fits is_account is_order (en_hash sample_engine) sample_order_entity"
    using sample_token_bytes by (simp add: entity_fits_def sample_order_entity_def is_account_def is_order_def agent_order_id sample_account_out_def
        reference_def sample_ask_facts)
  show "entity_fits is_account is_order (en_hash sample_engine) sample_pool_entity"
    by (simp add: entity_fits_def sample_pool_entity_def is_account_def is_order_def agent_entity_def) (simp add: sample_pool_def)
qed

definition sample_input :: "(unit, unit, unit) poll_input" where
  "sample_input = \<lparr> in_feedback = None, in_upstream = [(sample_pair, Inl (LocalTxSubmit (Forward (IorRight sample_pool_entity)))),
     (sample_pair, announce (sample_ask 30) sample_account_out)], in_funding = [FundingProduced ((), [3], 0)], state_synced = True, rollback_in_progress = False \<rparr>"

theorem executor_polls_safely_witness:
  "\<exists>go ex' inp'. poll_events sample_engine (executor_new sample_engine ()) sample_input = Ok (go, ex', inp') \<and> settled (book_of sample_engine sample_pair ex')"
proof -
  have "pending_effects (executor_new sample_engine ()) \<noteq> None \<longrightarrow> in_feedback sample_input \<noteq> None" by (simp add: executor_new_def)
  moreover have "inputs_fit (entity_fits is_account is_order (en_hash sample_engine)) sample_input"
    using sample_entities_fit by (simp add: inputs_fit_def sample_input_def update_fits_def announce_def sample_order_entity_def)
  ultimately show ?thesis using executor_polls_safely [OF sample_env_ok engine_run.start, of "()" sample_input] by blast
qed

definition sample_sibling :: green_order where
  "sample_sibling = (sample_ask 30)\<lparr> go_id := (go_id (sample_ask 30))\<lparr> goi_target_nonce_slot := 1 \<rparr> \<rparr>"

lemma sample_sibling_bytes:
  "token_to_array (order_token sample_engine (sample_ask 30)) \<noteq> token_to_array (order_token sample_engine sample_sibling)"
proof -
  have "hd (tl (token_to_array (order_token sample_engine (sample_ask 30)))) = 0"
    by (simp add: token_to_array_def goi_stable_token_def sample_ask_def sample_order_def numeral_2_eq_2)
  moreover have "hd (tl (token_to_array (order_token sample_engine sample_sibling))) = 1"
    by (simp add: token_to_array_def goi_stable_token_def sample_sibling_def sample_ask_def sample_order_def numeral_2_eq_2)
  ultimately show ?thesis by auto
qed

theorem same_account_orders_collide_witness:
  "\<exists>ex2 ex3. on_pair_event sample_engine sample_pair (announce (sample_ask 30) sample_account_out) ex2 = Ok ex3 \<and>
    listed sample_engine sample_pair ex2 = {sample_ask 30, sample_sibling} \<and> listed sample_engine sample_pair ex3 = {sample_ask 30}"
  using same_account_orders_collide [OF sample_sibling_bytes, of sample_pair sample_account_out "()"] by blast

section \<open>A sample recipe\<close>

definition sample_executor :: "(unit, unit, unit, output_ref list, unit, unit) executor" where
  "sample_executor = (executor_new sample_engine ())\<lparr>
     ex_index := put_predicted (en_entity sample_engine) sample_order_entity (put_predicted (en_entity sample_engine) sample_pool_entity si_new),
     multi_book := [(sample_pair, Idle (sample_book 30))], funding_pool := [((), [3], 0)] \<rparr>"

lemma sample_quiet: "quiet sample_engine is_account is_order sample_executor"
proof -
  have "index_fits is_account is_order (en_hash sample_engine) (ex_index sample_executor)"
    by (simp add: sample_executor_def put_predicted_def) (intro index_fits_put index_fits_new sample_entities_fit)
  moreover have "books_ok sample_engine {} sample_executor"
    using sample_book_run green_run.start
    by (simp add: books_ok_def book_run_def book_of_def sample_executor_def tlb_new_def)
  ultimately show ?thesis
    by (simp add: quiet_def sample_executor_def executor_new_def focus_ok_def fs_new_def bs_ok_def)
qed

lemma sample_lookup:
  "lookup_bearer sample_engine (set_book pr b sample_executor) (order_token sample_engine (sample_ask 30)) = Some (([1], 0), sample_account_out)"
  "lookup_bearer sample_engine (set_book pr b sample_executor) sample_token = Some (([2], 0), (), [2], 0)"
proof -
  let ?E = "en_entity sample_engine"
  have i: "e_id ?E sample_order_entity = order_token sample_engine (sample_ask 30)" "e_id ?E sample_pool_entity = sample_token"
    by (simp add: sample_order_entity_def agent_order_id, simp add: sample_pool_entity_def agent_entity_def, simp add: sample_pool_def)
  show "lookup_bearer sample_engine (set_book pr b sample_executor) (order_token sample_engine (sample_ask 30)) = Some (([1], 0), sample_account_out)"
    using predicted_resolves [of ?E sample_order_entity]
    by (simp add: lookup_bearer_def sample_executor_def i) (simp add: sample_order_entity_def sample_account_out_def reference_def)
  let ?p = LAST_PREDICTED_PREFIX
  have p: "?p \<in> set ALL_STATE_KEYS" by (simp add: ALL_STATE_KEYS_def)
  have "states_ok ?E (put_predicted ?E sample_pool_entity si_new)"
    unfolding put_predicted_def by (rule put_states_ok [OF states_ok_new(1) p]) (simp add: versions_apart_def states_ok_new)
  then have "shown (ex_index sample_executor) = table_put ?E ?p sample_order_entity (table_put ?E ?p sample_pool_entity (\<lambda>_ _. None))"
    using p put_view [of ?E _ ?p] put_view [OF states_ok_new(1) p, of ?E sample_pool_entity] by (simp add: sample_executor_def put_predicted_def states_ok_new(2))
  then show "lookup_bearer sample_engine (set_book pr b sample_executor) sample_token = Some (([2], 0), (), [2], 0)"
    using sample_token_bytes
    by (simp add: lookup_bearer_def resolve_view resolved_def table_put_def i)
      (simp add: sample_pool_entity_def sample_order_entity_def sample_account_out_def reference_def)
qed

lemma only_funding: "pop_preferred_funding [f] consumed = (Some f, [])"
  by (simp add: pop_preferred_funding_def pop_first_def bs_remove_def Let_def)

lemma sample_operator_fee: "go_operator_fee (sample_ask 30) 5000000 = 30"
  by (simp add: go_operator_fee_def sample_ask_def saturating_mul_def checked_div_def)

lemma sample_executions:
  assumes "finalized green_taker (sample_take 30) 0 = Ok tk"
  shows "\<exists>es. with_executions H [Inl (bundle_take tk b), Inr x] = Ok es"
  using assms unfolding sample_finalized sample_operator_fee
  by (auto simp: bundle_take_def removed_input_def added_output_def consumed_fee_def checked_sub_def from_relative_price_def sample_ask_facts)

lemma sample_matchmaking:
  "\<exists>ex1 out effs. matchmake_pair sample_engine sample_pair sample_executor = Some (Ok (ex1, Some out)) \<and> pending_effects ex1 = Some effs \<and>
    from_book (ep_effects (ef_execution effs)) \<and> consumed_versions (ef_execution effs) = {([1], 0), ([2], 0)}"
proof -
  let ?T = "en_taker sample_engine" and ?ex = "set_book sample_pair (sample_preview 30) sample_executor"
  obtain tk evs where tk: "finalized green_taker (sample_take 30) 0 = Ok tk" and
    a: "attempt_recipe ?T sample_maker (sample_conf 50) (Idle (sample_book 30)) =
      Some (Ok (sample_preview 30, Some [Inl tk, Inr (sample_pool 0, swapped_pool)], evs))"
    using sample_attempt [of 50 30 "en_hash sample_engine"] by (auto simp: max_def word_le_nat_alt)
  have t: "target tk = sample_ask 30" using tk unfolding sample_finalized by auto
  let ?linked = "[Inl (bundle_take tk sample_account_out), Inr ((sample_pool 0, (), [2], 0), swapped_pool)]"
  have "rp_id (sample_pool 0) = sample_token" by (simp add: sample_pool_def)
  then have l: "link (t_id ?T) (m_id (en_maker sample_engine)) (lookup_bearer sample_engine ?ex) [Inl tk, Inr (sample_pool 0, swapped_pool)] =
      Ok (?linked, {([1], 0), ([2], 0)})"
    by (simp add: link_def t sample_lookup)
  obtain es where es: "with_executions (en_hash sample_engine) ?linked = Ok es" using sample_executions [OF tk] by blast
  have b: "book_of sample_engine sample_pair sample_executor = Idle (sample_book 30)" by (simp add: sample_executor_def book_of_def)
  have f: "funding_pool sample_executor = [((), [3], 0)]" by (simp add: sample_executor_def)
  show ?thesis
    using a l es by (simp add: matchmake_pair_def b f only_funding submit_recipe_def Let_def try_send_engine_status_def sample_interpreter_def)
qed

theorem rejected_transaction_undone_witness:
  "\<exists>ex1 out effs ex2. matchmake_pair sample_engine sample_pair sample_executor = Some (Ok (ex1, Some out)) \<and> pending_effects ex1 = Some effs \<and>
    on_feedback sample_engine (Rejected (Some {([9], 0)})) effs (ex1\<lparr> pending_effects := None \<rparr>) = Ok ex2 \<and>
    book_of sample_engine sample_pair ex2 = Idle (sample_book 30) \<and> funding_pool ex2 = [((), [3], 0)]"
proof -
  obtain ex1 out effs where m: "matchmake_pair sample_engine sample_pair sample_executor = Some (Ok (ex1, Some out))" "pending_effects ex1 = Some effs"
    "from_book (ep_effects (ef_execution effs))" "consumed_versions (ef_execution effs) = {([1], 0), ([2], 0)}"
    using sample_matchmaking by blast
  have f: "funding_pool sample_executor = [((), [3], 0)]" "book_of sample_engine sample_pair sample_executor = Idle (sample_book 30)"
    by (simp_all add: sample_executor_def book_of_def)
  have "{([9], 0)} \<inter> consumed_versions (ef_execution effs) = {}" "\<forall>f \<in> set (funding_pool sample_executor). reference f \<notin> {([9], 0)}"
    by (simp_all add: m(4) f reference_def)
  from rejected_transaction_undone [OF sample_env_ok sample_quiet m(1-3) _ this] obtain ex2 where
    "on_feedback sample_engine (Rejected (Some {([9], 0)})) effs (ex1\<lparr> pending_effects := None \<rparr>) = Ok ex2"
    "book_of sample_engine sample_pair ex2 = Idle (sample_book 30)" "funding_pool ex2 = [((), [3], 0)]"
    using f by (auto simp: sample_interpreter_def)
  with m(1,2) show ?thesis by blast
qed

end
