(* ===== verification/Spec2Isabelle.thy ===== *)
theory Spec2Isabelle
  imports Mpf_Trie Cardano_Base Green_Correct Account_Store_Correct Account_Index_Correct Batch_Correct Intent_Correct
    Pool_Exec_Correct Book_Correct Engine_Correct
begin

text \<open>
  A verification development for the Green order off-chain agent.

  \<^bold>\<open>The program.\<close>  Clients send signed intents to trade from their Aleph account, an output whose datum keeps nonces and the root of a
  Merkle trie of partially filled intents.  The agent follows the ledger and keeps for every account the leaves of its trie
  (\<open>account_store.rs\<close>, \<open>account_index.rs\<close>, \<open>mpf.rs\<close>), admits intents over TCP and HTTP (\<open>intent_source.rs\<close>, \<open>http_intent_source.rs\<close>),
  offers the remainders of partial fills again (\<open>continuation_scanner.rs\<close>), and passes orders and pools as entity events to an executor
  (\<open>execution_engine/mod.rs\<close>).  The executor keeps their states in an index (\<open>storage/mod.rs\<close>) and one liquidity book per pair
  (\<open>liquidity_book/\<close>), matches orders with each other and with royalty pools, has the recipe of a match turned into a transaction
  (\<open>instances.rs\<close>, \<open>execution_state.rs\<close>), and settles or restores the book when the network accepts or rejects it.

  \<^bold>\<open>How code is modelled.\<close>  A computation that can fail is a \<open>res\<close> (\<open>Ok\<close>, \<open>Err\<close> or \<open>Panic\<close>, theory \<open>Prelude\<close>); methods that change
  \<open>self\<close> return the new state.  Machine integers are words, with checked, saturating and wrapping operations as in the code; prices are rationals.
  A \<open>BTreeMap\<close> is a sorted association list (\<open>bt_*\<close>), a \<open>HashMap\<close> an association list (\<open>hm_*\<close>), a \<open>BTreeSet\<close> a list in the order of its keys
  (\<open>bs_*\<close>).  Traits are records of functions.  Loops with no bound of their own are \<open>partial_function (option)\<close> and \<open>None\<close> means that the
  code does not return; no fuel is used.

  \<^bold>\<open>Theories and sources.\<close>

  \<^item> \<open>Prelude\<close>: results, byte strings, maps and the locale \<open>std_map\<close> of the laws both maps satisfy.  \<open>Cardano_Base\<close>: tokens, asset classes,
    values, Plutus data and pairs (\<open>spectrum-cardano-lib\<close>).  \<open>Tx_Output\<close>: transaction outputs.
  \<^item> \<open>Mpf\<close>, \<open>Mpf_Clusters\<close>, \<open>Mpf_Correct\<close>, \<open>Mpf_Trie\<close>: \<open>mpf.rs\<close>, with the locale \<open>auth_map\<close> of an authenticated map.
  \<^item> \<open>Green_Order\<close>, \<open>Green_Correct\<close>: account states, intentions and their encodings (\<open>orders/green.rs\<close>); \<open>prefix_code\<close> is the contract of the
    CBOR encoders.
  \<^item> \<open>Account_Store\<close>, \<open>Account_Store_Correct\<close>; \<open>Account_Index\<close>, \<open>Account_Index_Inv\<close>, \<open>Account_Index_Correct\<close>: the files of these names and
    \<open>account_events.rs\<close>.
  \<^item> \<open>Entity_Events\<close>, \<open>Intent_Source\<close>, \<open>Intent_Correct\<close>: transitions, channels, intent sources and the continuation scanner.
  \<^item> \<open>Book_Core\<close>, \<open>Book_State\<close>, \<open>Book_Match\<close>: \<open>liquidity_book/core.rs\<close>, \<open>state/mod.rs\<close> with its queries, \<open>mod.rs\<close> and \<open>market_maker.rs\<close>.
    \<open>Book_State_Correct\<close>, \<open>Book_Round\<close> (the locale \<open>book_laws\<close> of takers and makers), \<open>Book_Attempt\<close>, \<open>Book_Termination\<close>, \<open>Book_Wellformed\<close> and
    \<open>Book_Correct\<close> are its theory.
  \<^item> \<open>Royalty_Pool\<close>, \<open>Royalty_Correct\<close>, \<open>Pool_Exec_Correct\<close>: \<open>royalty_pool.rs\<close>, \<open>royalty_v1.rs\<close>, \<open>cfmm_math.rs\<close> and the execution of a pool.
  \<^item> \<open>Green_Exec\<close>, \<open>Green_Exec_Correct\<close> (the locale \<open>taker_laws\<close>), \<open>Batch_Correct\<close>: the Green order as a taker, its execution in a batch and the
    projection of a batch onto a transaction (\<open>instances.rs\<close>, \<open>execution_state.rs\<close>).
  \<^item> \<open>State_Index\<close>, \<open>State_Index_Correct\<close> (the locale \<open>entity_states\<close>): \<open>storage/mod.rs\<close> and \<open>resolver.rs\<close>.
  \<^item> \<open>Engine\<close>, \<open>Engine_Inv\<close>, \<open>Engine_Correct\<close>: the executor with its focus set, pairs, skip filter, funding pool and reports.  One call of
    \<open>poll_next\<close> takes what the streams have ready (\<open>poll_input\<close>); \<open>engine_run\<close> is the loop of \<open>execution_part_stream\<close>, which sends the answer to a
    transaction before it polls again.

  \<^bold>\<open>What is shown.\<close>

  \<^item> Trie: generated proofs verify, and inserting, updating and deleting by proof give the root of the changed trie (C1 to C4), except that the proof of a missing key
    that leaves the common prefix of the stored paths is refused (C5); over any run of operations the trie is the map of its leaves (C6).
  \<^item> Store and index of accounts: when each operation succeeds and when it refuses (C7 to C9), snapshots and restart (C10, C27), completed leaves are final (C11), the
    index is consistent as long as no output it keeps for a rollback is created again (C24; without this it is not), bindings from outside are safe (C25), continuations
    are exactly the pending leaves (C26), rolling back a transaction that spends one account restores the bindings (C29), and a transaction that spends two accounts
    without a planned store unbinds both (C28).
  \<^item> Book: in every run the book is well formed, and both outcomes of an open recipe settle it (C14); an attempt loses nothing and a failed recipe restores the book (C12); trades between orders are
    fair (C15); an attempt ends when every fee covers half of the base step budget (C13), and runs for ever when both passes are refused (C16).
  \<^item> Executor: it never panics on its inputs and has every book settled before matchmaking (C17); a rejected transaction is undone (C18); the state index
    is a table of states while identifiers do not share versions (C19), which two orders of one account do (C20).
  \<^item> Orders: signed bytes determine the intention but for the nonce index of a legacy one (C21), nonces never move back (C22), datums are read back (C23), a partial fill is executed, planned,
    confirmed and offered again (C30), fills add up (C31), admitted intents execute when filled in full (C32), but admission lets others through that panic (C36), as do
    partial fills at too good a price (C37); both sources agree (C35).
  \<^item> Transactions and pools: the operator is paid once (C33), the redeemer is aligned with the sorted inputs (C34), a swap keeps the pool (C38) except
    for a pool with little ada (C39), and the written pool is the predicted one (C40).

  \<^bold>\<open>Bounds.\<close>  The conditions of C13 bound the rounds of a pass: each uses up input of an active order, and a pass without optimisation uses at least as
  many steps as fees pay for.  Batches are treated for the authorisations of one ABI.  C17 assumes that no output is both an account and a pool, that no
  identifier is that of an order and of a pool, and that announced orders have a price; it speaks of polls that return, since matchmaking may not (C16).
  Where a definition is total and the code is not, this is said beside it: names longer than 32 bytes (\<open>an_bytes\<close>), rationals beyond 128 bits and the reciprocal of a zero
  input (\<open>by_volume\<close>, \<open>choose_by_distance\<close>), prices that panic (\<open>green_book\<close>), fees above the pool fee (\<open>pool_fee\<close>), proofs that panic (\<open>account_continuations\<close>), and
  writes of the snapshot file that fail.

  \<^bold>\<open>Parameters.\<close>  Code of other libraries is an argument of the definitions that use it: the hash functions, the address and script readers,
  hexadecimal decoding, the decimal arithmetic behind the optimal pool input, the bounded buffer of the skip filter, and, for the executor, the interpreter of
  recipes with the prover, the interpreter of specialised orders and the backlog.  What a theorem needs of them is a hypothesis of it.

  \<^bold>\<open>Not modelled.\<close>  The transaction interpreter (\<open>interpreter.rs\<close>), which calls the builder of a ledger library; funding bootstrap and the wiring of the
  agent (\<open>main.rs\<close>), which read configuration and start streams; chain and mempool synchronisation, explorer, submission and event sinks, which are
  network clients; the backlog, whose orders the Green agent does not take; the order and pool types of other agents; the V2 datum, deposits, redemptions and
  withdrawals of royalty pools; and throughout logging, display and serialisation.
\<close>

end
